(* ===== verification/Comm_Prelude.thy ===== *)
theory Comm_Prelude
  imports Main "HOL-Library.Word"
begin

text \<open>
  Shared vocabulary of the development: bytes and machine words, the error values that stand for
  C++ exceptions, little-endian (de)serialisation of words as \<open>memcpy\<close> of an integer performs it on
  the RISC-V target, block copies into fixed-size arrays, and the collections of simplification
  rules the component theories add to.
\<close>

unbundle bit_operations_syntax

named_theorems wire_simps "sizes and field accessors of the wire format"
named_theorems shm_simps "accessors of the shared-memory block"

type_synonym byte = "8 word"
type_synonym u16 = "16 word"
type_synonym u32 = "32 word"
type_synonym u64 = "64 word"
type_synonym bytes = "byte list"

text \<open>A thrown \<^verbatim>\<open>std::runtime_error\<close> is a value that carries the exception's message.\<close>

datatype error = Runtime_error string

type_synonym 'a result = "error + 'a"

section \<open>Little-endian words\<close>

primrec le_bytes :: "nat \<Rightarrow> 'a::len word \<Rightarrow> bytes" where
  "le_bytes 0 w = []"
| "le_bytes (Suc n) w = ucast w # le_bytes n (drop_bit 8 w)"

primrec le_word :: "bytes \<Rightarrow> 'a::len word" where
  "le_word [] = 0"
| "le_word (b # bs) = ucast b OR push_bit 8 (le_word bs)"

lemma length_le_bytes [simp]: "length (le_bytes n w) = n"
  by (induction n arbitrary: w) auto

lemma nth_le_bytes: "i < n \<Longrightarrow> le_bytes n w ! i = ucast (drop_bit (8 * i) w)"
proof (induction n arbitrary: w i)
  case (Suc n)
  then show ?case by (cases i) (auto simp: drop_bit_drop_bit add.commute)
qed simp

lemma bit_le_word:
  "bit (le_word bs :: 'a::len word) n \<longleftrightarrow>
     n < LENGTH('a) \<and> n div 8 < length bs \<and> bit (bs ! (n div 8)) (n mod 8)"
proof (induction bs arbitrary: n)
  case (Cons b bs)
  show ?case
  proof (cases "n < 8")
    case True
    then show ?thesis by (auto simp: bit_simps)
  next
    case False
    then obtain m where m: "n = 8 + m" using le_Suc_ex not_less by blast
    have "\<not> bit b (8 + m)" using bit_imp_le_length [of b "8 + m"] by auto
    moreover have "(8 + m) div 8 = Suc (m div 8)" by simp
    ultimately show ?thesis using Cons.IH [of m] by (auto simp: m bit_simps)
  qed
qed simp

lemma le_word_le_bytes:
  "le_word (le_bytes n w) = take_bit (8 * n) (w :: 'a::len word)"
proof (rule bit_word_eqI)
  fix k assume k: "k < LENGTH('a)"
  have "k div 8 < n \<longleftrightarrow> k < 8 * n" by (simp add: div_less_iff_less_mult mult.commute)
  moreover have "8 * (k div 8) + k mod 8 = k" by simp
  ultimately show "bit (le_word (le_bytes n w) :: 'a word) k = bit (take_bit (8 * n) w) k"
    using k by (auto simp: bit_le_word nth_le_bytes bit_simps)
qed

lemma le_word_le_bytes_full [simp]:
  "8 * n = LENGTH('a) \<Longrightarrow> le_word (le_bytes n w) = (w :: 'a::len word)"
  by (simp add: le_word_le_bytes)

lemma le_bytes_le_word:
  assumes "8 * length bs \<le> LENGTH('a)"
  shows "le_bytes (length bs) (le_word bs :: 'a::len word) = bs"
proof (rule nth_equalityI)
  fix i assume "i < length (le_bytes (length bs) (le_word bs :: 'a word))"
  then have i: "i < length bs" by simp
  have "le_bytes (length bs) (le_word bs :: 'a word) ! i = bs ! i"
  proof (rule bit_word_eqI)
    fix k assume k: "k < LENGTH(8)"
    have "8 * i + k < LENGTH('a)" using i k assms by auto
    moreover have "(8 * i + k) div 8 = i" "(8 * i + k) mod 8 = k" using k by auto
    ultimately show "bit (le_bytes (length bs) (le_word bs :: 'a word) ! i) k = bit (bs ! i) k"
      using i k by (auto simp: nth_le_bytes [OF i] bit_simps bit_le_word add.commute)
  qed
  then show "le_bytes (length bs) (le_word bs :: 'a word) ! i = bs ! i" .
qed simp

lemma le_bytes_inject:
  "8 * n = LENGTH('a) \<Longrightarrow> le_bytes n v = le_bytes n w \<longleftrightarrow> v = (w :: 'a::len word)"
  by (metis le_word_le_bytes_full)

section \<open>Block copies\<close>

text \<open>
  \<open>memcpy_at off src dst\<close> is the destination array after \<^verbatim>\<open>memcpy(dst + off, src, n)\<close>;
  \<open>read_at off n bs\<close> are the \<open>n\<close> bytes the program reads at offset \<open>off\<close>.
\<close>

definition memcpy_at :: "nat \<Rightarrow> bytes \<Rightarrow> bytes \<Rightarrow> bytes" where
  "memcpy_at off src dst = take off dst @ src @ drop (off + length src) dst"

definition read_at :: "nat \<Rightarrow> nat \<Rightarrow> bytes \<Rightarrow> bytes" where
  "read_at off n bs = take n (drop off bs)"

lemma length_memcpy_at [simp]:
  "off + length src \<le> length dst \<Longrightarrow> length (memcpy_at off src dst) = length dst"
  by (simp add: memcpy_at_def)

lemma length_read_at [simp]: "length (read_at off n bs) = min n (length bs - off)"
  by (simp add: read_at_def)

lemma read_memcpy_same:
  "off + length src \<le> length dst \<Longrightarrow> read_at off (length src) (memcpy_at off src dst) = src"
  by (simp add: memcpy_at_def read_at_def)

lemma read_memcpy_before:
  assumes "i + n \<le> off" "off + length src \<le> length dst"
  shows "read_at i n (memcpy_at off src dst) = read_at i n dst"
proof -
  have "drop i (take off dst @ src @ drop (off + length src) dst)
      = drop i (take off dst) @ src @ drop (off + length src) dst"
    using assms by simp
  then show ?thesis
    using assms by (simp add: memcpy_at_def read_at_def take_drop)
qed

lemma read_at_append_left: "off + n \<le> length xs \<Longrightarrow> read_at off n (xs @ ys) = read_at off n xs"
  by (simp add: read_at_def)

lemma read_at_append_right:
  "length xs \<le> off \<Longrightarrow> read_at off n (xs @ ys) = read_at (off - length xs) n ys"
  by (simp add: read_at_def)

lemma read_at_0: "read_at 0 n xs = take n xs"
  by (simp add: read_at_def)

lemma read_at_exact: "length xs = n \<Longrightarrow> read_at 0 n (xs @ ys) = xs"
  by (simp add: read_at_def)

lemma take_memcpy_0: "length src \<le> length dst \<Longrightarrow> take (length src) (memcpy_at 0 src dst) = src"
  by (simp add: memcpy_at_def)

section \<open>Lists used as arrays\<close>

lemma unat_of_nat_small: "n < 2 ^ LENGTH('a) \<Longrightarrow> unat (of_nat n :: 'a::len word) = n"
  by (simp add: unat_of_nat take_bit_nat_eq_self)

lemma set_take_in: "i < n \<Longrightarrow> n \<le> length xs \<Longrightarrow> xs ! i \<in> set (take n xs)"
  by (auto simp: in_set_conv_nth)

end
