(* ===== verification/Frame_Buffer.thy ===== *)
theory Frame_Buffer
  imports Comm_Prelude
begin

text \<open>
  \<^verbatim>\<open>Buffer<T>\<close> of \<^verbatim>\<open>buffer.hpp\<close>: handles that either own a share of a reference-counted block or view
  memory that belongs to somebody else.  The heap of control blocks and the live handle objects of
  the program are explicit; a handle object is named by its address.  Touching a block that has been
  freed is undefined behaviour, the result \<open>None\<close>.  The counter, an \<^verbatim>\<open>int\<close> in the code, is unbounded here: it
  counts handles that are alive, each of which occupies memory of its own.
\<close>

section \<open>Handles and the heap\<close>

record handle =
  block :: "nat option"
  view_ptr :: "nat option"
  is_view :: bool
  is_quadrant_change :: bool
  sequence_id :: u64

record 'a block =
  ref_count :: int
  payload :: 'a

record 'a heap =
  blocks :: "nat \<Rightarrow> 'a block option"
  handles :: "nat \<Rightarrow> handle option"

definition view_handle :: "nat \<Rightarrow> u64 \<Rightarrow> handle" where
  "view_handle ptr seq = \<lparr>block = None, view_ptr = Some ptr, is_view = True, is_quadrant_change = False, sequence_id = seq\<rparr>"

definition empty_handle :: handle where
  "empty_handle = \<lparr>block = None, view_ptr = None, is_view = False, is_quadrant_change = False, sequence_id = 0\<rparr>"

definition owner_handle :: "nat \<Rightarrow> handle" where
  "owner_handle b = \<lparr>block = Some b, view_ptr = None, is_view = False, is_quadrant_change = False, sequence_id = 0\<rparr>"

datatype pointer = Null | In_view nat | In_block nat

definition buffer_data :: "handle \<Rightarrow> pointer" where
  "buffer_data h = (if is_view h then (case view_ptr h of None \<Rightarrow> Null | Some a \<Rightarrow> In_view a)
     else (case block h of None \<Rightarrow> Null | Some b \<Rightarrow> In_block b))"

definition handle_valid :: "handle \<Rightarrow> bool" where
  "handle_valid h \<longleftrightarrow> block h \<noteq> None \<or> view_ptr h \<noteq> None"

text \<open>
  \<^verbatim>\<open>release\<close> only clears the handle's own pointer when it frees the block.  The counter is an \<^verbatim>\<open>int\<close>;
  it stays below \<open>2 ^ 31\<close> because every reference is a live object.
\<close>

definition release :: "handle \<Rightarrow> 'a heap \<Rightarrow> (handle \<times> 'a heap) option" where
  "release h s = (case block h of None \<Rightarrow> Some (h, s)
     | Some b \<Rightarrow> (case blocks s b of None \<Rightarrow> None
         | Some c \<Rightarrow>
             (if ref_count c - 1 = 0 then Some (h\<lparr>block := None\<rparr>, s\<lparr>blocks := (blocks s)(b := None)\<rparr>)
              else Some (h, s\<lparr>blocks := (blocks s)(b := Some (c\<lparr>ref_count := ref_count c - 1\<rparr>))\<rparr>))))"

text \<open>The second half of the copy operations: a handle that owns a block counts itself.\<close>

definition acquire :: "handle \<Rightarrow> 'a heap \<Rightarrow> 'a heap option" where
  "acquire h s =
     (if \<not> is_view h then
        (case block h of None \<Rightarrow> Some s
         | Some b \<Rightarrow> (case blocks s b of None \<Rightarrow> None
             | Some c \<Rightarrow> Some (s\<lparr>blocks := (blocks s)(b := Some (c\<lparr>ref_count := ref_count c + 1\<rparr>))\<rparr>)))
      else Some s)"

section \<open>Operations\<close>

datatype 'a buffer_op =
    Alloc nat nat 'a
  | View nat nat u64
  | Default nat
  | Copy nat nat
  | Move nat nat
  | Assign nat nat
  | Move_assign nat nat
  | Destroy nat
  | Mark nat

definition put :: "nat \<Rightarrow> handle \<Rightarrow> 'a heap \<Rightarrow> 'a heap" where
  "put v h s = s\<lparr>handles := (handles s)(v := Some h)\<rparr>"

text \<open>What a moved-from handle keeps: its two pointers are nulled, the rest is left as it was.\<close>

definition moved_from :: "handle \<Rightarrow> handle" where
  "moved_from h = h\<lparr>block := None, view_ptr := None\<rparr>"

fun buffer_step :: "'a buffer_op \<Rightarrow> 'a heap \<Rightarrow> 'a heap option" where
  "buffer_step (Alloc v b x) s = Some (put v (owner_handle b)
     (s\<lparr>blocks := (blocks s)(b := Some \<lparr>ref_count = 1, payload = x\<rparr>)\<rparr>))"
| "buffer_step (View v ptr seq) s = Some (put v (view_handle ptr seq) s)"
| "buffer_step (Default v) s = Some (put v empty_handle s)"
| "buffer_step (Copy v w) s = (case handles s w of None \<Rightarrow> None
     | Some h \<Rightarrow> map_option (put v h) (acquire h s))"
| "buffer_step (Move v w) s = (case handles s w of None \<Rightarrow> None
     | Some h \<Rightarrow> Some (put v h (put w (moved_from h) s)))"
| "buffer_step (Assign v w) s = (case (handles s v, handles s w) of
       (Some g, Some h) \<Rightarrow>
         (if v = w then Some s
          else (case release g s of None \<Rightarrow> None
             | Some (_, s') \<Rightarrow> map_option (put v h) (acquire h s')))
     | _ \<Rightarrow> None)"
| "buffer_step (Move_assign v w) s = (case (handles s v, handles s w) of
       (Some g, Some h) \<Rightarrow>
         (if v = w then Some s
          else (case release g s of None \<Rightarrow> None
             | Some (_, s') \<Rightarrow> Some (put v h (put w (moved_from h) s'))))
     | _ \<Rightarrow> None)"
| "buffer_step (Destroy v) s = (case handles s v of None \<Rightarrow> None
     | Some h \<Rightarrow> (case release h s of None \<Rightarrow> None
         | Some (_, s') \<Rightarrow> Some (s'\<lparr>handles := (handles s')(v := None)\<rparr>)))"
| "buffer_step (Mark v) s = (case handles s v of None \<Rightarrow> None
     | Some h \<Rightarrow> Some (put v (h\<lparr>is_quadrant_change := True\<rparr>) s))"

text \<open>
  What the language guarantees: constructors make an object where there is none, everything else
  works on live objects, and \<^verbatim>\<open>operator new\<close> returns memory that is not in use.
\<close>

fun scoped :: "'a buffer_op \<Rightarrow> 'a heap \<Rightarrow> bool" where
  "scoped (Alloc v b x) s \<longleftrightarrow> handles s v = None \<and> blocks s b = None"
| "scoped (View v ptr seq) s \<longleftrightarrow> handles s v = None"
| "scoped (Default v) s \<longleftrightarrow> handles s v = None"
| "scoped (Copy v w) s \<longleftrightarrow> handles s v = None \<and> handles s w \<noteq> None"
| "scoped (Move v w) s \<longleftrightarrow> handles s v = None \<and> handles s w \<noteq> None"
| "scoped (Assign v w) s \<longleftrightarrow> handles s v \<noteq> None \<and> handles s w \<noteq> None"
| "scoped (Move_assign v w) s \<longleftrightarrow> handles s v \<noteq> None \<and> handles s w \<noteq> None"
| "scoped (Destroy v) s \<longleftrightarrow> handles s v \<noteq> None"
| "scoped (Mark v) s \<longleftrightarrow> handles s v \<noteq> None"

primrec buffer_run :: "'a buffer_op list \<Rightarrow> 'a heap \<Rightarrow> 'a heap option" where
  "buffer_run [] s = Some s"
| "buffer_run (p # ps) s = (case buffer_step p s of None \<Rightarrow> None | Some s' \<Rightarrow> buffer_run ps s')"

primrec scoped_run :: "'a buffer_op list \<Rightarrow> 'a heap \<Rightarrow> bool" where
  "scoped_run [] s \<longleftrightarrow> True"
| "scoped_run (p # ps) s \<longleftrightarrow> scoped p s \<and> (case buffer_step p s of None \<Rightarrow> True | Some s' \<Rightarrow> scoped_run ps s')"

definition empty_heap :: "'a heap" where
  "empty_heap = \<lparr>blocks = (\<lambda>_. None), handles = (\<lambda>_. None)\<rparr>"

section \<open>Counting references\<close>

definition owns :: "nat \<Rightarrow> handle option \<Rightarrow> bool" where
  "owns b x \<longleftrightarrow> (case x of None \<Rightarrow> False | Some h \<Rightarrow> block h = Some b)"

definition refs :: "'a heap \<Rightarrow> nat \<Rightarrow> nat" where
  "refs s b = card {v. owns b (handles s v)}"

definition counts :: "'a heap \<Rightarrow> (nat \<Rightarrow> nat) \<Rightarrow> bool" where
  "counts s n \<longleftrightarrow> (\<forall>b. case blocks s b of None \<Rightarrow> n b = 0 | Some c \<Rightarrow> 0 < n b \<and> ref_count c = int (n b))"

definition handle_ok :: "handle \<Rightarrow> bool" where
  "handle_ok h \<longleftrightarrow> (if is_view h then block h = None else view_ptr h = None)"

definition heap_ok :: "'a heap \<Rightarrow> bool" where
  "heap_ok s \<longleftrightarrow> finite {v. handles s v \<noteq> None} \<and> counts s (refs s) \<and>
     (\<forall>v h. handles s v = Some h \<longrightarrow> handle_ok h)"

definition share :: "nat \<Rightarrow> handle option \<Rightarrow> nat" where
  "share b x = (if owns b x then 1 else 0)"

lemma owns_simps [simp]:
  "\<not> owns b None" "owns b (Some h) \<longleftrightarrow> block h = Some b"
  by (simp_all add: owns_def)

lemma finite_owns: "finite {v. handles s v \<noteq> None} \<Longrightarrow> finite {v. owns b (handles s v)}"
  by (rule rev_finite_subset) (auto simp: owns_def split: option.splits)

lemma share_simps [simp]: "share b None = 0" "share b (Some h) = (if block h = Some b then 1 else 0)"
  by (simp_all add: share_def)

lemma handle_ok_simps [simp]:
  "handle_ok (owner_handle b)" "handle_ok (view_handle ptr seq)" "handle_ok empty_handle"
  "handle_ok h \<Longrightarrow> handle_ok (moved_from h)" "handle_ok (h\<lparr>is_quadrant_change := q\<rparr>) = handle_ok h"
  by (auto simp: handle_ok_def owner_handle_def view_handle_def empty_handle_def moved_from_def)

lemma refs_upd:
  assumes "finite {v. handles s v \<noteq> None}"
  shows "card {u. owns b (((handles s)(v := x)) u)} + share b (handles s v) = refs s b + share b x"
proof -
  let ?S = "{u. u \<noteq> v \<and> owns b (handles s u)}"
  have fin: "finite ?S" using assms by (rule rev_finite_subset) (auto simp: owns_def split: option.splits)
  have set: "{u. owns b (((handles s)(v := y)) u)} = (if owns b y then insert v ?S else ?S)" for y
    by auto
  have "card {u. owns b (((handles s)(v := y)) u)} = card ?S + share b y" for y
    unfolding set share_def using fin by simp
  from this [of x] this [of "handles s v"] show ?thesis by (simp add: refs_def)
qed

lemma refs_share_le:
  assumes "finite {v. handles s v \<noteq> None}"
  shows "share b (handles s v) \<le> refs s b"
    and "v \<noteq> w \<Longrightarrow> share b (handles s v) + share b (handles s w) \<le> refs s b"
proof -
  show "share b (handles s v) \<le> refs s b" using refs_upd [OF assms, of b v None] by simp
next
  assume "v \<noteq> w"
  let ?s = "s\<lparr>handles := (handles s)(v := None)\<rparr>"
  have fin: "finite {u. handles ?s u \<noteq> None}"
    using assms by (rule rev_finite_subset) auto
  have "refs ?s b + share b (handles s v) = refs s b"
    using refs_upd [OF assms, of b v None] by (simp add: refs_def)
  moreover have "share b (handles s w) \<le> refs ?s b"
    using refs_upd [OF fin, of b w None] \<open>v \<noteq> w\<close> by simp
  ultimately show "share b (handles s v) + share b (handles s w) \<le> refs s b" by simp
qed

section \<open>The two halves\<close>

text \<open>Nothing but the counters changes: a payload lives as long as its block.\<close>

definition keeps :: "'a heap \<Rightarrow> 'a heap \<Rightarrow> bool" where
  "keeps s s' \<longleftrightarrow> (\<forall>b c c'. blocks s b = Some c \<longrightarrow> blocks s' b = Some c' \<longrightarrow> payload c' = payload c)"

lemma keeps_trans_same:
  "keeps s s' \<Longrightarrow> keeps s (put v h s')" "keeps s s' \<Longrightarrow> keeps s (s'\<lparr>handles := k\<rparr>)" "keeps s s"
  by (auto simp: keeps_def put_def)

lemma counts_upd:
  assumes "counts s n" "case x of None \<Rightarrow> n' b = 0 | Some c \<Rightarrow> 0 < n' b \<and> ref_count c = int (n' b)"
    and "\<And>a. a \<noteq> b \<Longrightarrow> n' a = n a"
  shows "counts (s\<lparr>blocks := (blocks s)(b := x)\<rparr>) n'"
  unfolding counts_def
proof
  fix a
  show "case blocks (s\<lparr>blocks := (blocks s)(b := x)\<rparr>) a of None \<Rightarrow> n' a = 0
      | Some c \<Rightarrow> 0 < n' a \<and> ref_count c = int (n' a)"
    using assms(1) [unfolded counts_def, rule_format, of a] assms(2,3) by (cases "a = b") (auto split: option.splits)
qed

lemma countsD:
  assumes "counts s n" "0 < n b"
  obtains c where "blocks s b = Some c" "ref_count c = int (n b)"
  using assms(1) [unfolded counts_def, rule_format, of b] assms(2) that by (auto split: option.splits)

lemma release_ok:
  assumes "counts s n" "\<And>b. share b (Some h) \<le> n b"
  shows "\<exists>h' s'. release h s = Some (h', s') \<and> handles s' = handles s \<and> keeps s s' \<and>
    counts s' (\<lambda>b. n b - share b (Some h))"
proof (cases "block h")
  case None
  then show ?thesis using assms(1) by (simp add: release_def keeps_def)
next
  case (Some b)
  then have n: "0 < n b" using assms(2) [of b] by simp
  then obtain c where c: "blocks s b = Some c" "ref_count c = int (n b)"
    using countsD [OF assms(1)] by blast
  show ?thesis
  proof (cases "n b = 1")
    case True
    then show ?thesis using Some c
      by (auto simp: release_def keeps_def intro!: counts_upd [OF assms(1)])
  next
    case False
    then show ?thesis using Some c n
      by (auto simp: release_def keeps_def intro!: counts_upd [OF assms(1)] split: if_splits)
  qed
qed

lemma acquire_ok:
  assumes "counts s n" "handle_ok h" "\<And>b. share b (Some h) \<le> n b"
  shows "\<exists>s'. acquire h s = Some s' \<and> handles s' = handles s \<and> keeps s s' \<and> dom (blocks s') = dom (blocks s) \<and>
    counts s' (\<lambda>b. n b + share b (Some h))"
proof (cases "is_view h \<or> block h = None")
  case True
  then have "block h = None" using assms(2) by (auto simp: handle_ok_def)
  then show ?thesis using assms(1) by (auto simp: acquire_def keeps_def)
next
  case False
  then obtain b where b: "block h = Some b" "\<not> is_view h" by auto
  then have n: "0 < n b" using assms(3) [of b] by simp
  then obtain c where c: "blocks s b = Some c" "ref_count c = int (n b)"
    using countsD [OF assms(1)] by blast
  then show ?thesis using b n
    by (auto simp: acquire_def keeps_def intro!: counts_upd [OF assms(1)])
qed

section \<open>Every operation keeps the counters exact\<close>

lemma heap_okI:
  assumes "finite {v. handles s v \<noteq> None}" "counts s n" "\<And>b. n b = refs s b"
    and "\<And>v h. handles s v = Some h \<Longrightarrow> handle_ok h"
  shows "heap_ok s"
proof -
  have "n = refs s" using assms(3) by (rule ext)
  then show ?thesis using assms by (simp add: heap_ok_def)
qed

lemma finite_put: "finite {v. handles s v \<noteq> None} \<Longrightarrow> finite {u. handles (put v h s) u \<noteq> None}"
  by (rule finite_subset [of _ "insert v {u. handles s u \<noteq> None}"]) (auto simp: put_def)

lemma refs_put:
  "finite {v. handles s v \<noteq> None} \<Longrightarrow> refs (put v h s) b + share b (handles s v) = refs s b + share b (Some h)"
  using refs_upd [of s b v "Some h"] by (simp add: refs_def put_def)

lemma refs_same: "handles s' = handles s \<Longrightarrow> refs s' b = refs s b"
  by (simp add: refs_def)

lemma counts_put [simp]: "counts (put v h s) n = counts s n"
  by (simp add: counts_def put_def)

lemma block_moved [simp]: "block (moved_from h) = None"
  by (simp add: moved_from_def)

text \<open>Overwriting the handle object at \<open>v\<close> when the counters already are what they will have to be.\<close>

lemma heap_ok_put:
  assumes "finite {u. handles s u \<noteq> None}" "counts s n" "\<And>u h. handles s u = Some h \<Longrightarrow> handle_ok h"
    and "handle_ok h" "\<And>b. n b + share b (handles s v) = refs s b + share b (Some h)"
  shows "heap_ok (put v h s)"
proof (rule heap_okI [OF finite_put [OF assms(1)], where n = n])
  show "n b = refs (put v h s) b" for b using refs_put [OF assms(1), of v h b] assms(5) [of b] by simp
qed (use assms(2-4) in \<open>auto simp: put_def counts_def split: if_splits\<close>)

lemma heap_okD:
  assumes "heap_ok s"
  shows "finite {v. handles s v \<noteq> None}" "counts s (refs s)" "handles s v = Some h \<Longrightarrow> handle_ok h"
  using assms by (auto simp: heap_ok_def)

lemma not_allocated_share:
  assumes "heap_ok s" "blocks s b = None"
  shows "refs s b = 0"
  using heap_okD(2) [OF assms(1), unfolded counts_def, rule_format, of b] assms(2) by simp

text \<open>Releasing the handle at \<open>v\<close>, before it is overwritten or destroyed.\<close>

lemma release_live:
  assumes "heap_ok s" "handles s v = Some g"
  shows "\<exists>g' s'. release g s = Some (g', s') \<and> handles s' = handles s \<and> keeps s s' \<and>
    counts s' (\<lambda>b. refs s b - share b (Some g))"
  using release_ok [OF heap_okD(2) [OF assms(1)], of g] refs_share_le(1) [OF heap_okD(1) [OF assms(1)], of _ v] assms(2)
  by simp

lemma assign_ok:
  assumes "heap_ok s" "handles s v = Some g" "handles s w = Some h" "v \<noteq> w"
  shows "\<exists>s'. buffer_step (Assign v w) s = Some s' \<and> heap_ok s' \<and> keeps s s'"
proof -
  note ok = heap_okD [OF assms(1)]
  obtain g' s1 where r: "release g s = Some (g', s1)" "handles s1 = handles s" "keeps s s1"
      "counts s1 (\<lambda>b. refs s b - share b (Some g))"
    using release_live [OF assms(1,2)] by blast
  have two: "share b (Some g) + share b (Some h) \<le> refs s b" for b
    using refs_share_le(2) [OF ok(1) assms(4), of b] assms(2,3) by simp
  have le: "share b (Some h) \<le> refs s b - share b (Some g)" for b using two [of b] by linarith
  obtain s2 where a: "acquire h s1 = Some s2" "handles s2 = handles s1" "keeps s1 s2" "dom (blocks s2) = dom (blocks s1)"
      "counts s2 (\<lambda>b. refs s b - share b (Some g) + share b (Some h))"
    using acquire_ok [OF r(4) ok(3) [OF assms(3)] le] by blast
  have h: "handles s2 = handles s" using r(2) a(2) by simp
  have "heap_ok (put v h s2)"
  proof (rule heap_ok_put [OF _ a(5)])
    show "refs s b - share b (Some g) + share b (Some h) + share b (handles s2 v) = refs s2 b + share b (Some h)" for b
      using two [of b] assms(2) by (simp add: h refs_same [OF h])
  qed (use ok h assms(3) in auto)
  moreover have "keeps s s2"
    unfolding keeps_def
  proof (intro allI impI)
    fix b c c2 assume b: "blocks s b = Some c" "blocks s2 b = Some c2"
    then obtain c1 where "blocks s1 b = Some c1" using a(4) by (metis domD domI)
    then show "payload c2 = payload c" using b r(3) a(3) by (metis keeps_def)
  qed
  ultimately show ?thesis using assms(2-4) r(1) a(1) by (auto intro: keeps_trans_same)
qed

lemma copy_ok:
  assumes "heap_ok s" "handles s v = None" "handles s w = Some h"
  shows "\<exists>s'. buffer_step (Copy v w) s = Some s' \<and> heap_ok s' \<and> keeps s s'"
proof -
  note ok = heap_okD [OF assms(1)]
  have le: "share b (Some h) \<le> refs s b" for b using refs_share_le(1) [OF ok(1), of b w] assms(3) by simp
  obtain s2 where a: "acquire h s = Some s2" "handles s2 = handles s" "keeps s s2"
      "counts s2 (\<lambda>b. refs s b + share b (Some h))"
    using acquire_ok [OF ok(2) ok(3) [OF assms(3)] le] by blast
  have "heap_ok (put v h s2)"
    by (rule heap_ok_put [OF _ a(4)]) (use ok a(2) assms(2,3) refs_same [OF a(2)] in auto)
  then show ?thesis using assms(3) a(1,3) by (auto intro: keeps_trans_same)
qed

lemma move_ok:
  assumes "heap_ok s" "v \<noteq> w" "handles s w = Some h" "handles s1 = handles s"
    "counts s1 (\<lambda>b. refs s b - share b (handles s v))" "keeps s s1"
  shows "heap_ok (put v h (put w (moved_from h) s1)) \<and> keeps s (put v h (put w (moved_from h) s1))"
proof -
  note ok = heap_okD [OF assms(1)]
  let ?m = "put w (moved_from h) s1"
  have fin: "finite {u. handles s1 u \<noteq> None}" using ok(1) assms(4) by simp
  have rm: "refs ?m b + share b (Some h) = refs s b" for b
    using refs_put [OF fin, of w "moved_from h" b] assms(3,4) refs_same [OF assms(4), of b] by simp
  have hv: "handles ?m v = handles s v" using assms(2,4) by (simp add: put_def)
  have "heap_ok (put v h ?m)"
  proof (rule heap_ok_put [OF finite_put [OF fin], where n = "\<lambda>b. refs s b - share b (handles s v)"])
    show "refs s b - share b (handles s v) + share b (handles ?m v) = refs ?m b + share b (Some h)" for b
      using refs_share_le(1) [OF ok(1), of b v] rm [of b] hv by simp
    show "handle_ok k" if "handles ?m u = Some k" for u k
      using that ok(3) assms(3,4) by (auto simp: put_def split: if_splits)
  qed (use assms(3,5) ok(3) in simp_all)
  then show ?thesis using assms(6) by (simp add: keeps_trans_same)
qed

lemma put_fresh_ok:
  assumes "heap_ok s" "handles s v = None" "handle_ok h" "block h = None"
  shows "heap_ok (put v h s) \<and> keeps s (put v h s)"
  using heap_ok_put [OF heap_okD(1,2) [OF assms(1)] _ assms(3), of v] heap_okD(3) [OF assms(1)] assms(2,4)
  by (auto intro: keeps_trans_same)

lemma alloc_ok:
  assumes "heap_ok s" "handles s v = None" "blocks s b = None"
  shows "\<exists>s'. buffer_step (Alloc v b x) s = Some s' \<and> heap_ok s' \<and> keeps s s'"
proof -
  note ok = heap_okD [OF assms(1)]
  let ?s = "s\<lparr>blocks := (blocks s)(b := Some \<lparr>ref_count = 1, payload = x\<rparr>)\<rparr>"
  have "counts ?s (\<lambda>a. refs s a + share a (Some (owner_handle b)))"
    by (rule counts_upd [OF ok(2)])
      (simp_all add: owner_handle_def not_allocated_share [OF assms(1,3)])
  then have "heap_ok (put v (owner_handle b) ?s)"
    by (rule heap_ok_put [rotated]) (use ok(1,3) assms(2) in \<open>auto simp: refs_def\<close>)
  moreover have "keeps s ?s" using assms(3) by (simp add: keeps_def)
  ultimately show ?thesis by (simp add: keeps_trans_same)
qed

lemma destroy_ok:
  assumes "heap_ok s" "handles s v = Some g"
  shows "\<exists>s'. buffer_step (Destroy v) s = Some s' \<and> heap_ok s' \<and> keeps s s'"
proof -
  note ok = heap_okD [OF assms(1)]
  obtain g' s1 where r: "release g s = Some (g', s1)" "handles s1 = handles s" "keeps s s1"
      "counts s1 (\<lambda>b. refs s b - share b (Some g))"
    using release_live [OF assms] by blast
  let ?s = "s1\<lparr>handles := (handles s1)(v := None)\<rparr>"
  have "heap_ok ?s"
  proof (rule heap_okI [where n = "\<lambda>b. refs s b - share b (Some g)"])
    show "finite {u. handles ?s u \<noteq> None}" using ok(1) r(2) by (auto intro: rev_finite_subset)
    show "refs s b - share b (Some g) = refs ?s b" for b
      using refs_upd [OF ok(1), of b v None] assms(2) r(2) by (simp add: refs_def)
  qed (use r(2,4) ok(3) in \<open>auto simp: counts_def split: if_splits\<close>)
  then show ?thesis using assms(2) r(1,3) by (auto intro: keeps_trans_same)
qed

lemma move_assign_ok:
  assumes "heap_ok s" "handles s v = Some g" "handles s w = Some h" "v \<noteq> w"
  shows "\<exists>s'. buffer_step (Move_assign v w) s = Some s' \<and> heap_ok s' \<and> keeps s s'"
proof -
  obtain g' s1 where "release g s = Some (g', s1)" "handles s1 = handles s" "keeps s s1"
      "counts s1 (\<lambda>b. refs s b - share b (Some g))"
    using release_live [OF assms(1,2)] by blast
  then show ?thesis using assms move_ok [of s v w h s1] by simp
qed

lemma mark_ok:
  assumes "heap_ok s" "handles s v = Some h"
  shows "heap_ok (put v (h\<lparr>is_quadrant_change := True\<rparr>) s) \<and> keeps s (put v (h\<lparr>is_quadrant_change := True\<rparr>) s)"
  using heap_ok_put [OF heap_okD(1,2) [OF assms(1)], of "h\<lparr>is_quadrant_change := True\<rparr>" v] heap_okD(3) [OF assms(1)] assms(2)
  by (auto intro: keeps_trans_same)

lemma buffer_step_ok:
  assumes "heap_ok s" "scoped p s"
  shows "\<exists>s'. buffer_step p s = Some s' \<and> heap_ok s' \<and> keeps s s'"
proof (cases p)
  case (Alloc v b x) then show ?thesis using alloc_ok assms by fastforce
next
  case (View v ptr seq)
  then show ?thesis using put_fresh_ok [OF assms(1), of v "view_handle ptr seq"] assms(2) by (simp add: view_handle_def handle_ok_def)
next
  case (Default v)
  then show ?thesis using put_fresh_ok [OF assms(1), of v empty_handle] assms(2) by (simp add: empty_handle_def handle_ok_def)
next
  case (Copy v w)
  then obtain h where "handles s v = None" "handles s w = Some h" using assms(2) by auto
  then show ?thesis using copy_ok [OF assms(1)] Copy by blast
next
  case (Move v w)
  then obtain h where h: "handles s v = None" "handles s w = Some h" using assms(2) by auto
  then have "v \<noteq> w" by auto
  note h = h this
  then show ?thesis using move_ok [OF assms(1) h(3,2) refl] heap_okD(2) [OF assms(1)] Move
    by (simp add: keeps_def)
next
  case (Assign v w)
  then obtain g h where "handles s v = Some g" "handles s w = Some h" using assms(2) by auto
  then show ?thesis using assign_ok [OF assms(1), of v g w h] assms(1) Assign
    by (cases "v = w") (auto intro: keeps_trans_same)
next
  case (Move_assign v w)
  then obtain g h where "handles s v = Some g" "handles s w = Some h" using assms(2) by auto
  then show ?thesis using move_assign_ok [OF assms(1), of v g w h] assms(1) Move_assign
    by (cases "v = w") (auto intro: keeps_trans_same)
next
  case (Destroy v) then show ?thesis using destroy_ok assms by fastforce
next
  case (Mark v) then show ?thesis using mark_ok assms by fastforce
qed

lemma buffer_run_ok:
  "heap_ok s \<Longrightarrow> scoped_run ps s \<Longrightarrow> \<exists>s'. buffer_run ps s = Some s' \<and> heap_ok s'"
proof (induction ps arbitrary: s)
  case (Cons p ps)
  then obtain s' where "buffer_step p s = Some s'" "heap_ok s'" using buffer_step_ok by fastforce
  then show ?case using Cons by simp
qed simp

lemma empty_heap_ok: "heap_ok empty_heap"
  by (simp add: heap_ok_def empty_heap_def counts_def refs_def)

text \<open>
  C16. Reference counting is exact: whatever a program does with buffers through their constructors,
  assignments and destructors, in any order and with any aliasing, no freed block is ever touched, a
  block exists exactly while some handle owns it and its counter is the number of these handles, and
  what a live handle's \<open>data()\<close> points to exists.
\<close>

theorem buffers_are_memory_safe:
  assumes "scoped_run ps (empty_heap :: 'a heap)"
  shows "\<exists>s. buffer_run ps (empty_heap :: 'a heap) = Some s \<and>
    (\<forall>b. blocks s b = None \<longleftrightarrow> (\<forall>v h. handles s v = Some h \<longrightarrow> block h \<noteq> Some b)) \<and>
    (\<forall>b c. blocks s b = Some c \<longrightarrow> ref_count c = int (card {v. \<exists>h. handles s v = Some h \<and> block h = Some b})) \<and>
    (\<forall>v h b. handles s v = Some h \<and> buffer_data h = In_block b \<longrightarrow> blocks s b \<noteq> None)"
proof -
  obtain s where s: "buffer_run ps empty_heap = Some (s :: 'a heap)" "heap_ok s"
    using buffer_run_ok [OF empty_heap_ok assms] by blast
  have set: "{v. owns b (handles s v)} = {v. \<exists>h. handles s v = Some h \<and> block h = Some b}" for b
    by (auto simp: owns_def split: option.splits)
  have cnt: "case blocks s b of None \<Rightarrow> refs s b = 0 | Some c \<Rightarrow> 0 < refs s b \<and> ref_count c = int (refs s b)" for b
    using heap_okD(2) [OF s(2)] by (simp add: counts_def)
  have zero: "refs s b = 0 \<longleftrightarrow> (\<forall>v h. handles s v = Some h \<longrightarrow> block h \<noteq> Some b)" for b
    using finite_owns [OF heap_okD(1) [OF s(2)], of b] by (auto simp: refs_def set)
  have "blocks s b = None \<longleftrightarrow> refs s b = 0" for b using cnt [of b] by (auto split: option.splits)
  moreover have "ref_count c = int (card {v. \<exists>h. handles s v = Some h \<and> block h = Some b})" if "blocks s b = Some c" for b c
    using cnt [of b] that by (simp add: refs_def set)
  moreover have "block h = Some b" if "buffer_data h = In_block b" for h b
    using that by (auto simp: buffer_data_def split: if_splits option.splits)
  ultimately show ?thesis using s(1) zero by blast
qed

text \<open>Two owners and a view; the first owner goes, the block stays; then the second goes.\<close>

theorem buffers_are_memory_safe_witness:
  "\<exists>s. buffer_run [Alloc 0 7 (), Copy 1 0, View 2 3 9, Destroy 0, Assign 2 1, Destroy 1, Move 0 2, Destroy 2, Destroy 0]
     (empty_heap :: unit heap) = Some s \<and> blocks s 7 = None"
proof -
  let ?ps = "[Alloc 0 7 (), Copy 1 0, View 2 3 9, Destroy 0, Assign 2 1, Destroy 1, Move 0 2, Destroy 2, Destroy 0]"
  have "scoped_run ?ps empty_heap" by code_simp
  from buffers_are_memory_safe [OF this] obtain s where s: "buffer_run ?ps empty_heap = Some s"
    "blocks s 7 = None \<longleftrightarrow> (\<forall>v h. handles s v = Some h \<longrightarrow> block h \<noteq> Some 7)" by blast
  have "map_option (\<lambda>s. map_option ref_count (blocks s 7)) (buffer_run ?ps empty_heap) = Some None" by code_simp
  then show ?thesis using s(1) by auto
qed

end
