(* ===== verification/Wire_Format.thy ===== *)
theory Wire_Format
  imports Comm_Prelude
begin

text \<open>
  The data that travels: Ethernet frames, packet headers (quadrant and ports), addresses and
  segments, with the byte layout the packed structs of \<^verbatim>\<open>definitions/\<close> have on the
  little-endian 64-bit target.  Enumerations with a fixed underlying type are datatypes with their
  code; a byte read from the network is decoded with an option, \<open>None\<close> standing for a value that
  is no enumerator.
\<close>

section \<open>MAC addresses, frames and addresses\<close>

datatype mac = MAC byte byte byte byte byte byte

primrec mac_bytes :: "mac \<Rightarrow> bytes" where
  "mac_bytes (MAC a b c d e f) = [a, b, c, d, e, f]"

definition mac_of :: "bytes \<Rightarrow> mac" where
  "mac_of a = MAC (a ! 0) (a ! 1) (a ! 2) (a ! 3) (a ! 4) (a ! 5)"

definition BROADCAST_ADDR :: mac where
  "BROADCAST_ADDR = MAC 0xFF 0xFF 0xFF 0xFF 0xFF 0xFF"

definition LOCAL_ADDR :: mac where
  "LOCAL_ADDR = MAC 0 0 0 0 0 0"

definition ADDR_LEN :: nat where [wire_simps]: "ADDR_LEN = 6"
definition ETH_MTU :: nat where [wire_simps]: "ETH_MTU = 1500"
definition ETH_HEADER_SIZE :: nat where [wire_simps]: "ETH_HEADER_SIZE = 14"

record eth_header =
  dhost :: mac
  shost :: mac
  eth_type :: u16

record frame =
  fr_header :: eth_header
  fr_data :: bytes
  data_length :: u32

record address =
  paddr :: mac
  port :: u16

definition broadcast :: "u16 \<Rightarrow> address" where
  "broadcast p = \<lparr>paddr = BROADCAST_ADDR, port = p\<rparr>"

definition local :: "u16 \<Rightarrow> address" where
  "local p = \<lparr>paddr = LOCAL_ADDR, port = p\<rparr>"

definition address_valid :: "address \<Rightarrow> bool" where
  "address_valid a \<longleftrightarrow> port a \<noteq> 0"

definition address_eq :: "address \<Rightarrow> address \<Rightarrow> bool" where
  "address_eq a b \<longleftrightarrow> paddr a = paddr b \<and> port a = port b"

text \<open>
  The hash of the leader's lookup table, over the eight bytes an address has in memory.
\<close>

definition hash_step :: "byte \<Rightarrow> u64 \<Rightarrow> u64" where
  "hash_step b h = (h XOR ucast b) * 16777619"

definition address_hash :: "address \<Rightarrow> u64" where
  "address_hash a = fold hash_step (mac_bytes (paddr a) @ le_bytes 2 (port a)) 2166136261"

lemma address_eq_iff [simp]: "address_eq a b \<longleftrightarrow> a = b"
  by (auto simp: address_eq_def intro: address.equality)

lemma length_mac_bytes [simp]: "length (mac_bytes m) = 6"
  by (cases m) simp

lemma mac_of_mac_bytes [simp]: "mac_of (mac_bytes m @ rest) = m"
  by (cases m) (simp add: mac_of_def)

lemma mac_of_mac_bytes' [simp]: "mac_of (mac_bytes m) = m"
  using mac_of_mac_bytes [of m "[]"] by simp

lemma mac_bytes_inject [simp]: "mac_bytes m = mac_bytes n \<longleftrightarrow> m = n"
  by (cases m; cases n) simp

lemma broadcast_not_local [simp]: "BROADCAST_ADDR \<noteq> LOCAL_ADDR" "LOCAL_ADDR \<noteq> BROADCAST_ADDR"
  by (auto simp: BROADCAST_ADDR_def LOCAL_ADDR_def)

text \<open>Network byte order: the two bytes of a 16-bit value are swapped, in both directions.\<close>

definition htons :: "u16 \<Rightarrow> u16" where
  "htons w = le_word (rev (le_bytes 2 w))"

lemma htons_htons [simp]: "htons (htons w) = w"
proof -
  have "le_bytes 2 (le_word (rev (le_bytes 2 w)) :: u16) = rev (le_bytes 2 w)"
    using le_bytes_le_word [of "rev (le_bytes 2 w)", where 'a = 16] by simp
  then show ?thesis by (simp add: htons_def)
qed

section \<open>Packets\<close>

datatype quadrant = NORTH | EAST | SOUTH | WEST

primrec quadrant_byte :: "quadrant \<Rightarrow> byte" where
  "quadrant_byte NORTH = 0"
| "quadrant_byte EAST = 1"
| "quadrant_byte SOUTH = 2"
| "quadrant_byte WEST = 3"

lemma quadrant_byte_inject [simp]: "quadrant_byte p = quadrant_byte q \<longleftrightarrow> p = q"
  by (cases p; cases q) auto

definition PACKET_HEADER_SIZE :: nat where [wire_simps]: "PACKET_HEADER_SIZE = 5"
definition MAC_SIZE :: nat where [wire_simps]: "MAC_SIZE = 8"
definition PACKET_MTU :: nat where
  "PACKET_MTU = ETH_MTU - PACKET_HEADER_SIZE - MAC_SIZE"

definition packet_header :: "quadrant \<Rightarrow> u16 \<Rightarrow> u16 \<Rightarrow> bytes" where
  "packet_header loc sp dp = quadrant_byte loc # le_bytes 2 sp @ le_bytes 2 dp"

definition packet_location :: "bytes \<Rightarrow> byte" where
  "packet_location p = p ! 0"

definition sport :: "bytes \<Rightarrow> u16" where
  "sport p = le_word (read_at 1 2 p)"

definition dport :: "bytes \<Rightarrow> u16" where
  "dport p = le_word (read_at 3 2 p)"

definition packet_data :: "bytes \<Rightarrow> bytes" where
  "packet_data p = drop PACKET_HEADER_SIZE p"

lemma length_packet_header [simp]: "length (packet_header loc sp dp) = 5"
  by (simp add: packet_header_def)

lemma packet_header_fields [simp]:
  "packet_location (packet_header loc sp dp @ rest) = quadrant_byte loc"
  "sport (packet_header loc sp dp @ rest) = sp"
  "dport (packet_header loc sp dp @ rest) = dp"
  "packet_data (packet_header loc sp dp @ rest) = rest"
  by (simp_all add: packet_location_def sport_def dport_def packet_data_def packet_header_def
      read_at_def numeral_eq_Suc PACKET_HEADER_SIZE_def le_word_le_bytes_full
      flip: le_bytes.simps)

section \<open>Segments\<close>

datatype msg_type = CONTROL | TEDS | PTP | GROUP

primrec msg_type_byte :: "msg_type \<Rightarrow> byte" where
  "msg_type_byte CONTROL = 0"
| "msg_type_byte TEDS = 1"
| "msg_type_byte PTP = 2"
| "msg_type_byte GROUP = 3"

definition msg_type_of :: "byte \<Rightarrow> msg_type option" where
  "msg_type_of b = (if b = 0 then Some CONTROL else if b = 1 then Some TEDS
     else if b = 2 then Some PTP else if b = 3 then Some GROUP else None)"

lemma msg_type_of_byte [simp]: "msg_type_of (msg_type_byte t) = Some t"
  by (cases t) (simp_all add: msg_type_of_def)

lemma msg_type_of_Some_iff: "msg_type_of b = Some t \<longleftrightarrow> b = msg_type_byte t"
  by (cases t) (auto simp: msg_type_of_def split: if_splits)

record seg_header =
  seg_type :: byte
  seg_timestamp :: u64

record segment =
  s_header :: seg_header
  s_payload :: bytes

definition SEG_HEADER_SIZE :: nat where [wire_simps]: "SEG_HEADER_SIZE = 9"

definition seg_header_bytes :: "seg_header \<Rightarrow> bytes" where
  "seg_header_bytes h = seg_type h # le_bytes 8 (seg_timestamp h)"

definition read_seg_header :: "bytes \<Rightarrow> seg_header" where
  "read_seg_header bs = \<lparr>seg_type = bs ! 0, seg_timestamp = le_word (read_at 1 8 bs)\<rparr>"

definition make_segment :: "msg_type \<Rightarrow> u64 \<Rightarrow> bytes \<Rightarrow> segment" where
  "make_segment t ts pl =
     \<lparr>s_header = \<lparr>seg_type = msg_type_byte t, seg_timestamp = ts\<rparr>, s_payload = pl\<rparr>"

definition get_bytes :: "segment \<Rightarrow> bytes" where
  "get_bytes s =
     (let buf = replicate (SEG_HEADER_SIZE + length (s_payload s)) 0;
          buf = memcpy_at 0 (seg_header_bytes (s_header s)) buf
      in if s_payload s \<noteq> [] then memcpy_at SEG_HEADER_SIZE (s_payload s) buf else buf)"

definition from_bytes :: "bytes \<Rightarrow> segment result" where
  "from_bytes bs =
     (if length bs < SEG_HEADER_SIZE
      then Inl (Runtime_error ''Invalid segment data: too small to contain a header.'')
      else let payload_size = length bs - SEG_HEADER_SIZE
           in Inr \<lparr>s_header = read_seg_header bs,
                   s_payload = (if payload_size > 0 then read_at SEG_HEADER_SIZE payload_size bs
                                else [])\<rparr>)"

definition segment_to_string :: "byte \<Rightarrow> string" where
  "segment_to_string t = (case msg_type_of t of Some CONTROL \<Rightarrow> ''CONTROL'' | Some TEDS \<Rightarrow> ''TEDS''
     | _ \<Rightarrow> ''UNKNOWN'')"

lemma length_seg_header_bytes [simp]: "length (seg_header_bytes h) = 9"
  by (simp add: seg_header_bytes_def)

lemma read_seg_header_bytes [simp]: "read_seg_header (seg_header_bytes h @ rest) = h"
  by (simp add: read_seg_header_def seg_header_bytes_def read_at_def)

lemma get_bytes_eq: "get_bytes s = seg_header_bytes (s_header s) @ s_payload s"
  by (cases "s_payload s = []") (simp_all add: get_bytes_def memcpy_at_def Let_def wire_simps)

lemma length_get_bytes [simp]: "length (get_bytes s) = SEG_HEADER_SIZE + length (s_payload s)"
  by (simp add: get_bytes_eq wire_simps)

lemma seg_header_bytes_read:
  assumes "SEG_HEADER_SIZE \<le> length bs"
  shows "seg_header_bytes (read_seg_header bs) = take SEG_HEADER_SIZE bs"
proof -
  obtain b bs' where bs: "bs = b # bs'" using assms by (cases bs) (auto simp: wire_simps)
  have "length (take 8 bs') = 8" using assms by (simp add: bs wire_simps)
  then have "le_bytes 8 (le_word (take 8 bs') :: u64) = take 8 bs'"
    using le_bytes_le_word [of "take 8 bs'", where 'a = 64] by simp
  then show ?thesis
    by (simp add: bs seg_header_bytes_def read_seg_header_def read_at_def wire_simps)
qed

lemma from_bytes_get_bytes: "from_bytes (get_bytes s) = Inr s"
  by (simp add: from_bytes_def get_bytes_eq wire_simps read_at_append_right read_at_def)

lemma get_bytes_from_bytes:
  assumes "from_bytes bs = Inr s"
  shows "get_bytes s = bs"
proof -
  have len: "SEG_HEADER_SIZE \<le> length bs"
    using assms by (auto simp: from_bytes_def split: if_splits)
  with assms have "s_header s = read_seg_header bs" "s_payload s = drop SEG_HEADER_SIZE bs"
    by (auto simp: from_bytes_def Let_def read_at_def split: if_splits)
  then show ?thesis using len by (simp add: get_bytes_eq seg_header_bytes_read)
qed

text \<open>
  Segment serialisation is a bijection with the byte strings of at least nine bytes:
  deserialising gives a segment exactly when the bytes are that segment serialised (so both round
  trips hold), and deserialisation throws exactly on inputs shorter than the header.
\<close>

theorem segment_roundtrip:
  "(from_bytes bs = Inr s \<longleftrightarrow> bs = get_bytes s) \<and>
   ((\<exists>e. from_bytes bs = Inl e) \<longleftrightarrow> length bs < SEG_HEADER_SIZE)"
  using from_bytes_get_bytes [of s] get_bytes_from_bytes [of bs s]
  by (auto simp: from_bytes_def Let_def)

end
