(* ===== verification/Shm_Block.thy ===== *)
theory Shm_Block
  imports Wire_Format
begin

text \<open>
  The shared-memory block of \<^verbatim>\<open>smh_engine.hpp\<close> and the engine's operations on it, each as the
  uninterrupted execution of the member function: bootstrap, client registration, service
  directory, nearby entities, session key and location.  Arrays are
  functions from indices, which the code keeps below the array bound.  Sequence numbers
  (\<^verbatim>\<open>uint64_t\<close>, one per message) are naturals.  A failing system call is a parameter.
\<close>

definition MAX_CLIENTS :: nat where [shm_simps]: "MAX_CLIENTS = 16"
definition BUFFER_SLOTS :: nat where [shm_simps]: "BUFFER_SLOTS = 32"
definition BASE_PORT :: u16 where [shm_simps]: "BASE_PORT = 1000"
definition CONTROL_SEMS :: nat where [shm_simps]: "CONTROL_SEMS = 4"
definition MAX_NEARBY_ENTITIES :: nat where [shm_simps]: "MAX_NEARBY_ENTITIES = 16"
definition REGISTRY_SEM :: nat where [shm_simps]: "REGISTRY_SEM = 0"
definition CLAIM_SEM :: nat where [shm_simps]: "CLAIM_SEM = 1"
definition DIRECTORY_SEM :: nat where [shm_simps]: "DIRECTORY_SEM = 2"
definition WRITER_WAIT_SEM :: nat where [shm_simps]: "WRITER_WAIT_SEM = 3"

record message_slot =
  sequence_id :: nat
  slot_frame :: frame

record directory_entry =
  de_active :: bool
  component_name :: string
  component_type_id :: u32
  assigned_port :: u16
  owner_pid :: nat

record component_directory =
  next_port_to_assign :: u16
  entries :: "nat \<Rightarrow> directory_entry"

record client_state =
  cl_active :: bool
  process_id :: nat
  last_read_sequence_id :: nat

record shared_block =
  directory :: component_directory
  claim_sequence_id :: nat
  publish_sequence_id :: nat
  client_registry :: "nat \<Rightarrow> client_state"
  buffer :: "nat \<Rightarrow> message_slot"
  writer_is_blocked :: bool
  session_key :: u64
  nearby_count :: nat
  nearby_entities :: "nat \<Rightarrow> mac"
  location :: quadrant

text \<open>The System V objects: the block, the semaphore values, and whether they still exist.\<close>

record ipc =
  blk :: shared_block
  sems :: "nat \<Rightarrow> nat"
  ipc_alive :: bool

section \<open>Bootstrap\<close>

record boot_os =
  shmget_ok :: bool
  shmat_ok :: bool
  semget_ok :: bool
  semctl_ok :: "nat \<Rightarrow> bool"

definition init_block :: "shared_block \<Rightarrow> shared_block" where
  "init_block b = b\<lparr>
     directory := (directory b)\<lparr>next_port_to_assign := BASE_PORT,
       entries := (\<lambda>i. if i < MAX_CLIENTS then (entries (directory b) i)\<lparr>de_active := False\<rparr>
                       else entries (directory b) i)\<rparr>,
     claim_sequence_id := 1, publish_sequence_id := 0, writer_is_blocked := False,
     client_registry := (\<lambda>i. if i < MAX_CLIENTS
       then (client_registry b i)\<lparr>cl_active := False, last_read_sequence_id := 0\<rparr>
       else client_registry b i)\<rparr>"

text \<open>
  The loop over the clients' semaphores stops at the first failing \<^verbatim>\<open>semctl\<close>; its \<^verbatim>\<open>break\<close> leaves
  that loop only, so the initialisation goes on to report success.
\<close>

primrec init_client_sems :: "(nat \<Rightarrow> bool) \<Rightarrow> nat list \<Rightarrow> (nat \<Rightarrow> nat) \<Rightarrow> nat \<Rightarrow> nat" where
  "init_client_sems ok [] s = s"
| "init_client_sems ok (i # is) s =
     (if ok (CONTROL_SEMS + i) then init_client_sems ok is (s(CONTROL_SEMS + i := 0)) else s)"

definition bootstrapIPC :: "boot_os \<Rightarrow> shared_block \<Rightarrow> (nat \<Rightarrow> nat) \<Rightarrow> bool \<times> ipc" where
  "bootstrapIPC os b0 s0 =
     (let fail = (\<lambda>b s. (False, \<lparr>blk = b, sems = s, ipc_alive = False\<rparr>)) in
      if \<not> shmget_ok os then fail b0 s0 else
      if \<not> shmat_ok os then fail b0 s0 else
      let b = init_block b0 in
      if \<not> semget_ok os then fail b s0 else
      if \<not> semctl_ok os REGISTRY_SEM then fail b s0 else
      let s = s0(REGISTRY_SEM := 1) in
      if \<not> semctl_ok os CLAIM_SEM then fail b s else
      let s = s(CLAIM_SEM := 1) in
      if \<not> semctl_ok os DIRECTORY_SEM then fail b s else
      let s = s(DIRECTORY_SEM := 1) in
      if \<not> semctl_ok os WRITER_WAIT_SEM then fail b s else
      let s = s(WRITER_WAIT_SEM := 0) in
      (True, \<lparr>blk = b, sems = init_client_sems (semctl_ok os) [0..<MAX_CLIENTS] s, ipc_alive = True\<rparr>))"

section \<open>Client registration\<close>

definition cleanupAndThrow :: "ipc \<Rightarrow> string \<Rightarrow> ipc \<times> nat result" where
  "cleanupAndThrow s msg = (s\<lparr>ipc_alive := False\<rparr>, Inl (Runtime_error msg))"

definition free_client_slot :: "shared_block \<Rightarrow> nat option" where
  "free_client_slot b = List.find (\<lambda>i. \<not> cl_active (client_registry b i)) [0..<MAX_CLIENTS]"

definition set_client :: "nat \<Rightarrow> (client_state \<Rightarrow> client_state) \<Rightarrow> shared_block \<Rightarrow> shared_block" where
  "set_client i f b = b\<lparr>client_registry := (client_registry b)(i := f (client_registry b i))\<rparr>"

definition register_client :: "bool \<Rightarrow> bool \<Rightarrow> nat \<Rightarrow> ipc \<Rightarrow> ipc \<times> nat result" where
  "register_client lock_ok unlock_ok pid s =
     (if \<not> lock_ok then cleanupAndThrow s ''Failed to lock registry for registration''
      else case free_client_slot (blk s) of
        Some i \<Rightarrow>
          (let s' = s\<lparr>blk := set_client i (\<lambda>c. c\<lparr>cl_active := True, process_id := pid,
                 last_read_sequence_id := publish_sequence_id (blk s)\<rparr>) (blk s)\<rparr>
           in if \<not> unlock_ok then cleanupAndThrow s' ''Failed to unlock registry after registration''
              else (s', Inr i))
      | None \<Rightarrow> cleanupAndThrow s ''Failed to register client: No available slots'')"

text \<open>The slot index is \<open>None\<close> where the member variable is still -1.\<close>

definition deregister_client :: "bool \<Rightarrow> nat option \<Rightarrow> ipc \<Rightarrow> ipc" where
  "deregister_client lock_ok slot s = (case slot of None \<Rightarrow> s
     | Some i \<Rightarrow> if \<not> lock_ok then s
         else s\<lparr>blk := set_client i (\<lambda>c. c\<lparr>cl_active := False\<rparr>) (blk s)\<rparr>)"

definition is_last_client :: "shared_block \<Rightarrow> bool" where
  "is_last_client b \<longleftrightarrow> (\<forall>i \<in> set [0..<MAX_CLIENTS]. \<not> cl_active (client_registry b i))"

definition shm_destructor :: "bool \<Rightarrow> nat option \<Rightarrow> ipc \<Rightarrow> ipc" where
  "shm_destructor lock_ok slot s =
     (let s' = deregister_client lock_ok slot s
      in if is_last_client (blk s') then s'\<lparr>ipc_alive := False\<rparr> else s')"

section \<open>The service directory\<close>

text \<open>C strings end at the first NUL; the stored name is cut to 63 characters.\<close>

definition c_str :: "string \<Rightarrow> string" where
  "c_str n = takeWhile (\<lambda>c. c \<noteq> CHR 0x00) n"

definition registerService :: "bool \<Rightarrow> nat \<Rightarrow> string \<Rightarrow> u32 \<Rightarrow> shared_block \<Rightarrow> u16 \<times> shared_block" where
  "registerService lock_ok pid name type_id b =
     (if \<not> lock_ok then (0, b)
      else case List.find (\<lambda>i. \<not> de_active (entries (directory b) i)) [0..<MAX_CLIENTS] of
        None \<Rightarrow> (0, b)
      | Some i \<Rightarrow>
          (let p = next_port_to_assign (directory b);
               e = (entries (directory b) i)\<lparr>de_active := True, component_name := take 63 (c_str name),
                     component_type_id := type_id, owner_pid := pid, assigned_port := p\<rparr>
           in (p, b\<lparr>directory := \<lparr>next_port_to_assign = p + 1,
                 entries = (entries (directory b))(i := e)\<rparr>\<rparr>)))"

definition lookup_dir :: "(directory_entry \<Rightarrow> bool) \<Rightarrow> shared_block \<Rightarrow> u16" where
  "lookup_dir P b =
     (case List.find (\<lambda>i. de_active (entries (directory b) i) \<and> P (entries (directory b) i)) [0..<MAX_CLIENTS]
      of Some i \<Rightarrow> assigned_port (entries (directory b) i) | None \<Rightarrow> 0)"

definition lookupService :: "string \<Rightarrow> shared_block \<Rightarrow> u16" where
  "lookupService name = lookup_dir (\<lambda>e. component_name e = c_str name)"

definition lookupServiceByType :: "u32 \<Rightarrow> shared_block \<Rightarrow> u16" where
  "lookupServiceByType type_id = lookup_dir (\<lambda>e. component_type_id e = type_id)"

section \<open>Nearby entities, session key and location\<close>

definition nearby_index :: "mac \<Rightarrow> shared_block \<Rightarrow> nat option" where
  "nearby_index a b = List.find (\<lambda>i. nearby_entities b i = a) [0..<nearby_count b]"

definition register_nearby_entity :: "mac \<Rightarrow> shared_block \<Rightarrow> shared_block" where
  "register_nearby_entity a b =
     (if nearby_index a b = None \<and> nearby_count b < MAX_NEARBY_ENTITIES
      then b\<lparr>nearby_entities := (nearby_entities b)(nearby_count b := a), nearby_count := nearby_count b + 1\<rparr>
      else b)"

definition reset_entities_nearby :: "shared_block \<Rightarrow> shared_block" where
  "reset_entities_nearby b = b\<lparr>nearby_count := 0\<rparr>"

definition is_entity_nearby :: "mac \<Rightarrow> shared_block \<Rightarrow> bool" where
  "is_entity_nearby a b \<longleftrightarrow> nearby_index a b \<noteq> None"

definition get_entities_nearby :: "shared_block \<Rightarrow> mac list" where
  "get_entities_nearby b = map (nearby_entities b) [0..<nearby_count b]"

definition unregister_nearby_entity :: "mac \<Rightarrow> shared_block \<Rightarrow> shared_block" where
  "unregister_nearby_entity a b = (case nearby_index a b of None \<Rightarrow> b
     | Some i \<Rightarrow>
         (let b' = (if i < nearby_count b - 1
              then b\<lparr>nearby_entities := (nearby_entities b)(i := nearby_entities b (nearby_count b - 1))\<rparr> else b)
          in b'\<lparr>nearby_count := nearby_count b - 1\<rparr>))"

definition set_session_key :: "u64 \<Rightarrow> shared_block \<Rightarrow> shared_block" where
  "set_session_key k b = b\<lparr>session_key := k\<rparr>"

definition get_session_key :: "shared_block \<Rightarrow> u64" where
  "get_session_key b = session_key b"

definition set_location :: "quadrant \<Rightarrow> shared_block \<Rightarrow> shared_block" where
  "set_location q b = b\<lparr>location := q\<rparr>"

definition get_location :: "shared_block \<Rightarrow> quadrant" where
  "get_location b = location b"

end
