(* ===== verification/Shm_Services.thy ===== *)
theory Shm_Services
  imports Shm_Block
begin

text \<open>
  What the bookkeeping side of the shared block guarantees: the nearby list is a bounded set (stated
  as the locale \<open>bounded_set\<close> and interpreted on the engine's operations), the service directory
  hands out fresh ports, registration and teardown of clients, and bootstrap.
\<close>

section \<open>List search\<close>

lemma find_upt_Some_iff:
  "List.find P [0..<n] = Some i \<longleftrightarrow> i < n \<and> P i \<and> (\<forall>j<i. \<not> P j)"
  by (auto simp: find_Some_iff)

lemma find_upt_None_iff: "List.find P [0..<n] = None \<longleftrightarrow> (\<forall>i<n. \<not> P i)"
  by (auto simp: find_None_iff)

section \<open>Nearby entities\<close>

text \<open>A set with a capacity: the contract of the nearby list.\<close>

locale bounded_set =
  fixes add :: "'a \<Rightarrow> 's \<Rightarrow> 's"
    and del :: "'a \<Rightarrow> 's \<Rightarrow> 's"
    and clear :: "'s \<Rightarrow> 's"
    and isin :: "'a \<Rightarrow> 's \<Rightarrow> bool"
    and elems :: "'s \<Rightarrow> 'a list"
    and capacity :: nat
    and invar :: "'s \<Rightarrow> bool"
  assumes invar_elems: "invar s \<Longrightarrow> distinct (elems s) \<and> length (elems s) \<le> capacity"
    and isin_elems: "invar s \<Longrightarrow> isin a s \<longleftrightarrow> a \<in> set (elems s)"
    and add_elems: "invar s \<Longrightarrow> invar (add a s) \<and> set (elems (add a s)) =
      (if length (elems s) < capacity then insert a (set (elems s)) else set (elems s))"
    and del_elems: "invar s \<Longrightarrow> invar (del a s) \<and> set (elems (del a s)) = set (elems s) - {a}"
    and clear_elems: "invar s \<Longrightarrow> invar (clear s) \<and> elems (clear s) = []"
begin

lemma add_isin: "invar s \<Longrightarrow> length (elems s) < capacity \<Longrightarrow> isin a (add a s)"
  using add_elems isin_elems by auto

lemma del_isin: "invar s \<Longrightarrow> isin b (del a s) \<longleftrightarrow> b \<noteq> a \<and> isin b s"
  using del_elems isin_elems by auto

lemma add_keeps: "invar s \<Longrightarrow> isin b s \<Longrightarrow> isin b (add a s)"
  using add_elems isin_elems by auto

lemma full_drops:
  "invar s \<Longrightarrow> length (elems s) = capacity \<Longrightarrow> isin b (add a s) \<longleftrightarrow> isin b s"
  using add_elems isin_elems by auto

lemma del_makes_room:
  assumes "invar s" "isin a s"
  shows "length (elems (del a s)) < capacity \<and> isin b (add b (del a s))"
proof -
  have "length (elems (del a s)) = card (set (elems s) - {a})"
    using del_elems [OF assms(1), of a] invar_elems by (metis distinct_card)
  also have "\<dots> < card (set (elems s))"
    using assms isin_elems by (intro card_Diff1_less) auto
  also have "\<dots> \<le> capacity" using invar_elems [OF assms(1)] by (simp add: distinct_card)
  finally show ?thesis using add_isin del_elems assms(1) by blast
qed

lemma fold_add:
  "invar s \<Longrightarrow> invar (fold add as s) \<and> set (elems (fold add as s)) \<subseteq> set (elems s) \<union> set as"
proof (induction as arbitrary: s)
  case (Cons a as)
  then show ?case using add_elems [of s a] by (fastforce split: if_splits)
qed simp

end

definition nearby_ok :: "shared_block \<Rightarrow> bool" where
  "nearby_ok b \<longleftrightarrow> nearby_count b \<le> MAX_NEARBY_ENTITIES \<and> distinct (get_entities_nearby b)"

lemma length_get_entities_nearby [simp]: "length (get_entities_nearby b) = nearby_count b"
  by (simp add: get_entities_nearby_def)

lemma nearby_index_None: "nearby_index a b = None \<longleftrightarrow> a \<notin> set (get_entities_nearby b)"
  by (auto simp: nearby_index_def find_upt_None_iff get_entities_nearby_def)

lemma nearby_index_Some: "nearby_index a b = Some i \<Longrightarrow>
  i < nearby_count b \<and> get_entities_nearby b ! i = a"
  by (auto simp: nearby_index_def find_upt_Some_iff get_entities_nearby_def)

lemma get_register_nearby:
  "get_entities_nearby (register_nearby_entity a b) =
     (if a \<notin> set (get_entities_nearby b) \<and> nearby_count b < MAX_NEARBY_ENTITIES
      then get_entities_nearby b @ [a] else get_entities_nearby b)"
  by (auto simp: register_nearby_entity_def nearby_index_None get_entities_nearby_def)

text \<open>Removal overwrites the removed entry with the last one and drops the last position.\<close>

lemma get_unregister_nearby:
  "get_entities_nearby (unregister_nearby_entity a b) =
     (case nearby_index a b of None \<Rightarrow> get_entities_nearby b
      | Some i \<Rightarrow> butlast ((get_entities_nearby b)[i := last (get_entities_nearby b)]))"
proof (cases "nearby_index a b")
  case (Some i)
  let ?n = "nearby_count b"
  have i: "i < ?n" using nearby_index_Some [OF Some] by simp
  then have last: "last (get_entities_nearby b) = nearby_entities b (?n - 1)"
    by (simp add: get_entities_nearby_def last_map)
  show ?thesis using Some i last
    by (auto intro!: nth_equalityI
        simp: unregister_nearby_entity_def Let_def get_entities_nearby_def nth_butlast nth_list_update)
qed (simp add: unregister_nearby_entity_def)

lemma set_butlast_swap:
  assumes "distinct xs" "i < length xs"
  shows "distinct (butlast (xs[i := last xs])) \<and> set (butlast (xs[i := last xs])) = set xs - {xs ! i}"
proof -
  obtain ys z where xs: "xs = ys @ [z]" using assms(2) by (metis list.size(3) not_less_zero rev_exhaust)
  show ?thesis
  proof (cases "i = length ys")
    case True
    then show ?thesis using assms xs by auto
  next
    case False
    then have i: "i < length ys" using assms(2) xs by simp
    then have "butlast (xs[i := last xs]) = ys[i := z]" by (simp add: xs list_update_append1)
    moreover have "xs ! i = ys ! i" using i by (simp add: xs nth_append)
    ultimately show ?thesis
      using assms(1) i xs by (auto simp: set_update_distinct distinct_list_update)
  qed
qed

interpretation nearby: bounded_set register_nearby_entity unregister_nearby_entity
  reset_entities_nearby is_entity_nearby get_entities_nearby MAX_NEARBY_ENTITIES nearby_ok
proof (unfold_locales, goal_cases)
  case (2 s a)
  then show ?case by (auto simp: is_entity_nearby_def nearby_index_None)
next
  case (3 s a)
  have "nearby_count (register_nearby_entity a s) = length (get_entities_nearby (register_nearby_entity a s))"
    by simp
  then show ?case using 3 by (auto simp: nearby_ok_def get_register_nearby insert_absorb)
next
  case (4 s a)
  show ?case
  proof (cases "nearby_index a s")
    case None
    then have "unregister_nearby_entity a s = s" by (simp add: unregister_nearby_entity_def)
    then show ?thesis using 4 None by (auto simp: nearby_index_None)
  next
    case (Some i)
    let ?e = "get_entities_nearby s"
    have "distinct ?e" "i < length ?e" "?e ! i = a"
      using nearby_index_Some [OF Some] 4 by (auto simp: nearby_ok_def)
    from set_butlast_swap [OF this(1,2)] this(3)
    have "distinct (get_entities_nearby (unregister_nearby_entity a s))"
      "set (get_entities_nearby (unregister_nearby_entity a s)) = set ?e - {a}"
      by (simp_all add: get_unregister_nearby Some)
    moreover have "nearby_count (unregister_nearby_entity a s) \<le> nearby_count s"
      by (simp add: unregister_nearby_entity_def Some Let_def)
    ultimately show ?thesis using 4 by (auto simp: nearby_ok_def)
  qed
qed (auto simp: nearby_ok_def reset_entities_nearby_def get_entities_nearby_def)

text \<open>
  The nearby list is a set of at most 16 addresses: every operation keeps it duplicate-free and
  within its capacity; registering makes an address nearby while there is room and changes nothing
  when the list is full, unregistering removes exactly that address (wherever it is stored) and
  makes room, resetting empties it.
\<close>

theorem nearby_list_is_bounded_set:
  assumes "nearby_ok b"
  shows "nearby_ok (register_nearby_entity a b) \<and> nearby_ok (unregister_nearby_entity a b) \<and>
    nearby_ok (reset_entities_nearby b) \<and>
    (nearby_count b < MAX_NEARBY_ENTITIES \<longrightarrow> is_entity_nearby a (register_nearby_entity a b)) \<and>
    (nearby_count b = MAX_NEARBY_ENTITIES \<longrightarrow>
       is_entity_nearby c (register_nearby_entity a b) = is_entity_nearby c b) \<and>
    (is_entity_nearby c (unregister_nearby_entity a b) \<longleftrightarrow> c \<noteq> a \<and> is_entity_nearby c b) \<and>
    (is_entity_nearby a b \<longrightarrow> is_entity_nearby c (register_nearby_entity c (unregister_nearby_entity a b))) \<and>
    \<not> is_entity_nearby c (reset_entities_nearby b)"
  using nearby.add_elems [OF assms] nearby.del_elems [OF assms] nearby.clear_elems [OF assms]
    nearby.add_isin [OF assms] nearby.full_drops [OF assms] nearby.del_isin [OF assms]
    nearby.del_makes_room [OF assms, of a] nearby.isin_elems [of "reset_entities_nearby b" c]
  by simp

definition sample_block :: shared_block where
  "sample_block = \<lparr>
     directory = \<lparr>next_port_to_assign = BASE_PORT, entries = (\<lambda>_. \<lparr>de_active = False, component_name = [],
       component_type_id = 0, assigned_port = 0, owner_pid = 0\<rparr>)\<rparr>,
     claim_sequence_id = 1, publish_sequence_id = 0,
     client_registry = (\<lambda>_. \<lparr>cl_active = False, process_id = 0, last_read_sequence_id = 0\<rparr>),
     buffer = (\<lambda>_. \<lparr>sequence_id = 0, slot_frame = \<lparr>fr_header = \<lparr>dhost = LOCAL_ADDR, shost = LOCAL_ADDR,
       eth_type = 0\<rparr>, fr_data = replicate ETH_MTU 0, data_length = 0\<rparr>\<rparr>),
     writer_is_blocked = False, session_key = 0, nearby_count = 0,
     nearby_entities = (\<lambda>_. LOCAL_ADDR), location = NORTH\<rparr>"

theorem nearby_list_is_bounded_set_witness:
  "nearby_ok sample_block \<and>
   is_entity_nearby BROADCAST_ADDR (register_nearby_entity BROADCAST_ADDR sample_block) \<and>
   \<not> is_entity_nearby BROADCAST_ADDR (unregister_nearby_entity BROADCAST_ADDR sample_block)"
proof -
  have ok: "nearby_ok sample_block"
    by (simp add: nearby_ok_def sample_block_def get_entities_nearby_def)
  have "nearby_count sample_block < MAX_NEARBY_ENTITIES" by (simp add: sample_block_def shm_simps)
  then show ?thesis
    using nearby_list_is_bounded_set [OF ok, of BROADCAST_ADDR BROADCAST_ADDR] ok by simp
qed

section \<open>The service directory\<close>

text \<open>The first \<open>n\<close> entries are taken, entry \<open>i\<close> by the holder of port \<open>1000 + i\<close>.\<close>

definition dir_ok :: "shared_block \<Rightarrow> nat \<Rightarrow> bool" where
  "dir_ok b n \<longleftrightarrow> n \<le> MAX_CLIENTS \<and> next_port_to_assign (directory b) = BASE_PORT + of_nat n \<and>
     (\<forall>i<MAX_CLIENTS. de_active (entries (directory b) i) \<longleftrightarrow> i < n) \<and>
     (\<forall>i<n. assigned_port (entries (directory b) i) = BASE_PORT + of_nat i)"

lemma dir_ok_init: "dir_ok (init_block b) 0"
  by (simp add: dir_ok_def init_block_def)

lemma registerService_next:
  assumes "dir_ok b n" "n < MAX_CLIENTS"
  shows "fst (registerService True pid name ty b) = BASE_PORT + of_nat n \<and>
    dir_ok (snd (registerService True pid name ty b)) (Suc n)"
proof -
  have f: "List.find (\<lambda>i. \<not> de_active (entries (directory b) i)) [0..<MAX_CLIENTS] = Some n"
    using assms by (auto simp: find_upt_Some_iff dir_ok_def)
  show ?thesis using assms
    by (auto simp: registerService_def f Let_def dir_ok_def less_Suc_eq)
qed

lemma registerService_full:
  assumes "dir_ok b MAX_CLIENTS"
  shows "registerService ok pid name ty b = (0, b)"
proof -
  have "List.find (\<lambda>i. \<not> de_active (entries (directory b) i)) [0..<MAX_CLIENTS] = None"
    using assms by (auto simp: find_upt_None_iff dir_ok_def)
  then show ?thesis by (simp add: registerService_def)
qed

lemma port_inject:
  assumes "i < MAX_CLIENTS" "j < MAX_CLIENTS" "BASE_PORT + of_nat i = (BASE_PORT + of_nat j :: u16)"
  shows "i = j"
proof -
  have "(of_nat i :: u16) = of_nat j" using assms(3) by simp
  then have "unat (of_nat i :: u16) = unat (of_nat j :: u16)" by simp
  moreover have "i < 2 ^ 16" "j < 2 ^ 16" using assms(1,2) by (auto simp: shm_simps)
  ultimately show ?thesis by (simp add: unat_of_nat_small)
qed

lemma port_nonzero: "i < MAX_CLIENTS \<Longrightarrow> (BASE_PORT + of_nat i :: u16) \<noteq> 0"
proof
  assume i: "i < MAX_CLIENTS" and z: "(BASE_PORT + of_nat i :: u16) = 0"
  have "unat (of_nat (1000 + i) :: u16) = 1000 + i"
    using i by (intro unat_of_nat_small) (simp add: shm_simps)
  moreover have "(of_nat (1000 + i) :: u16) = 0" using z by (simp add: shm_simps)
  ultimately show False by simp
qed

text \<open>
  Starting from a bootstrapped block, the \<open>n\<close>-th successful registration gets port \<open>1000 + n\<close>:
  ports are pairwise distinct and never 0 (the type-routing port); the 17th registration and a
  failed lock return 0 and change nothing.  Looking the name up afterwards finds the new port when
  the name fits its 63-character field and no earlier entry has it.
\<close>

theorem service_directory_ports:
  assumes "dir_ok b n" "n < MAX_CLIENTS"
  shows "fst (registerService True pid name ty b) = BASE_PORT + of_nat n \<and>
    fst (registerService True pid name ty b) \<noteq> 0 \<and>
    dir_ok (snd (registerService True pid name ty b)) (Suc n) \<and>
    (\<forall>i<n. assigned_port (entries (directory b) i) \<noteq> fst (registerService True pid name ty b)) \<and>
    registerService False pid name ty b = (0, b) \<and>
    (dir_ok b' MAX_CLIENTS \<longrightarrow> registerService True pid name ty b' = (0, b')) \<and>
    (length (c_str name) < 64 \<and> (\<forall>i<n. component_name (entries (directory b) i) \<noteq> c_str name) \<longrightarrow>
       lookupService name (snd (registerService True pid name ty b)) = BASE_PORT + of_nat n)"
proof -
  let ?b = "snd (registerService True pid name ty b)"
  note nx = registerService_next [OF assms, of pid name ty]
  have "\<forall>i<n. assigned_port (entries (directory b) i) \<noteq> BASE_PORT + of_nat n"
  proof (intro allI impI)
    fix i assume "i < n"
    then show "assigned_port (entries (directory b) i) \<noteq> BASE_PORT + of_nat n"
      using assms port_inject [of i n] by (auto simp: dir_ok_def)
  qed
  moreover have "lookupService name ?b = BASE_PORT + of_nat n"
    if "length (c_str name) < 64" "\<forall>i<n. component_name (entries (directory b) i) \<noteq> c_str name"
  proof -
    have f: "List.find (\<lambda>i. \<not> de_active (entries (directory b) i)) [0..<MAX_CLIENTS] = Some n"
      using assms by (auto simp: find_upt_Some_iff dir_ok_def)
    have e: "component_name (entries (directory ?b) n) = c_str name"
      "entries (directory ?b) i = entries (directory b) i" if "i \<noteq> n" for i
      using \<open>length (c_str name) < 64\<close> that by (auto simp: registerService_def f Let_def)
    have "List.find (\<lambda>i. de_active (entries (directory ?b) i)
        \<and> component_name (entries (directory ?b) i) = c_str name) [0..<MAX_CLIENTS] = Some n"
      using nx assms that e by (auto simp: find_upt_Some_iff dir_ok_def less_Suc_eq) (metis e(1) n_not_Suc_n)
    then show ?thesis using nx by (auto simp: lookupService_def lookup_dir_def dir_ok_def)
  qed
  ultimately show ?thesis
    using nx port_nonzero [OF assms(2)] registerService_full
    by (auto simp: registerService_def [of False])
qed

theorem service_directory_ports_witness:
  "fst (registerService True 7 ''Temperature Sensor 0'' 1 (init_block sample_block)) = 1000 \<and>
   lookupService ''Temperature Sensor 0''
     (snd (registerService True 7 ''Temperature Sensor 0'' 1 (init_block sample_block))) = 1000"
  using service_directory_ports [OF dir_ok_init, of 7 "''Temperature Sensor 0''" 1 sample_block sample_block]
  by (simp add: shm_simps c_str_def)

section \<open>Bootstrap and client registration\<close>

lemma init_client_sems_other:
  "(\<forall>j \<in> set is. k \<noteq> CONTROL_SEMS + j) \<Longrightarrow> init_client_sems ok is s k = s k"
  by (induction "is" arbitrary: s) auto

lemma init_client_sems_stops:
  "\<not> ok (CONTROL_SEMS + i) \<Longrightarrow> init_client_sems ok is s (CONTROL_SEMS + i) = s (CONTROL_SEMS + i)"
  by (induction "is" arbitrary: s) auto

lemma init_client_sems_all:
  "\<forall>j \<in> set is. ok (CONTROL_SEMS + j) \<Longrightarrow> i \<in> set is \<Longrightarrow> init_client_sems ok is s (CONTROL_SEMS + i) = 0"
proof (induction "is" arbitrary: s)
  case (Cons j js)
  show ?case
  proof (cases "i \<in> set js")
    case True
    then show ?thesis using Cons by simp
  next
    case False
    then have "\<forall>k \<in> set js. CONTROL_SEMS + i \<noteq> CONTROL_SEMS + k" by auto
    with Cons.prems False show ?thesis by (simp add: init_client_sems_other)
  qed
qed simp

text \<open>
  When every system call succeeds, bootstrap returns true with the ring empty (first ticket 1,
  nothing published), no client active, the three locks open, the writer semaphore and all client
  semaphores 0.  It also returns true when setting a client's semaphore fails: the \<^verbatim>\<open>break\<close> that
  a comment says leaves the outer loop leaves the inner one only, and the semaphore keeps the value
  it had.
\<close>

theorem bootstrap_outcome:
  assumes "shmget_ok os" "shmat_ok os" "semget_ok os" "\<forall>k<CONTROL_SEMS. semctl_ok os k"
  shows "fst (bootstrapIPC os b0 s0) \<and> ipc_alive (snd (bootstrapIPC os b0 s0)) \<and>
    claim_sequence_id (blk (snd (bootstrapIPC os b0 s0))) = 1 \<and>
    publish_sequence_id (blk (snd (bootstrapIPC os b0 s0))) = 0 \<and>
    is_last_client (blk (snd (bootstrapIPC os b0 s0))) \<and>
    map (sems (snd (bootstrapIPC os b0 s0))) [0..<CONTROL_SEMS] = [1, 1, 1, 0] \<and>
    ((\<forall>i<MAX_CLIENTS. semctl_ok os (CONTROL_SEMS + i)) \<longrightarrow>
       (\<forall>i<MAX_CLIENTS. sems (snd (bootstrapIPC os b0 s0)) (CONTROL_SEMS + i) = 0)) \<and>
    (\<not> semctl_ok os (CONTROL_SEMS + i) \<longrightarrow>
       sems (snd (bootstrapIPC os b0 s0)) (CONTROL_SEMS + i) = s0 (CONTROL_SEMS + i))"
proof -
  let ?s = "s0(0 := 1, 1 := 1, 2 := 1, 3 := 0)"
  let ?t = "init_client_sems (semctl_ok os) [0..<MAX_CLIENTS] ?s"
  have r: "bootstrapIPC os b0 s0 = (True, \<lparr>blk = init_block b0, sems = ?t, ipc_alive = True\<rparr>)"
    using assms by (simp add: bootstrapIPC_def Let_def shm_simps)
  have "map ?t [0..<4] = map ?s [0..<4]"
    by (intro map_cong refl init_client_sems_other) (auto simp: shm_simps)
  also have "\<dots> = [1, 1, 1, 0]" by (simp add: upt_conv_Cons)
  finally have "map ?t [0..<CONTROL_SEMS] = [1, 1, 1, 0]" by (simp add: shm_simps)
  moreover have "?t (CONTROL_SEMS + i) = s0 (CONTROL_SEMS + i)" if "\<not> semctl_ok os (CONTROL_SEMS + i)"
    using that init_client_sems_stops [of "semctl_ok os" i] by (simp add: shm_simps)
  ultimately show ?thesis
    using init_client_sems_all [of "[0..<MAX_CLIENTS]" "semctl_ok os"]
    by (auto simp: r init_block_def is_last_client_def)
qed

definition sample_os :: boot_os where
  "sample_os = \<lparr>shmget_ok = True, shmat_ok = True, semget_ok = True, semctl_ok = (\<lambda>k. k \<noteq> 7)\<rparr>"

theorem bootstrap_outcome_witness:
  "fst (bootstrapIPC sample_os sample_block (\<lambda>_. 99)) \<and>
   sems (snd (bootstrapIPC sample_os sample_block (\<lambda>_. 99))) 7 = 99"
  using bootstrap_outcome [of sample_os sample_block "\<lambda>_. 99" 3]
  by (simp add: sample_os_def shm_simps)

definition active_clients :: "shared_block \<Rightarrow> nat set" where
  "active_clients b = {i. i < MAX_CLIENTS \<and> cl_active (client_registry b i)}"

text \<open>
  C37. Registration takes the lowest free client slot, starts it at the current publish counter and
  touches no other slot.  When all 16 slots are taken the constructor throws, and its cleanup
  removes the shared memory and the semaphore set although the 16 registered processes still use
  them.
\<close>

theorem register_client_outcome:
  assumes "ipc_alive s"
  shows "if card (active_clients (blk s)) = MAX_CLIENTS
    then (\<exists>e. snd (register_client True True pid s) = Inl e) \<and>
      \<not> ipc_alive (fst (register_client True True pid s)) \<and>
      active_clients (blk (fst (register_client True True pid s))) = active_clients (blk s)
    else (\<exists>i. snd (register_client True True pid s) = Inr i \<and> i < MAX_CLIENTS \<and> i \<notin> active_clients (blk s) \<and>
      {..<i} \<subseteq> active_clients (blk s) \<and>
      ipc_alive (fst (register_client True True pid s)) \<and>
      active_clients (blk (fst (register_client True True pid s))) = insert i (active_clients (blk s)) \<and>
      last_read_sequence_id (client_registry (blk (fst (register_client True True pid s))) i)
        = publish_sequence_id (blk s) \<and>
      (\<forall>j. j \<noteq> i \<longrightarrow> client_registry (blk (fst (register_client True True pid s))) j
        = client_registry (blk s) j))"
proof (cases "free_client_slot (blk s)")
  case None
  then have "active_clients (blk s) = {..<MAX_CLIENTS}"
    by (auto simp: free_client_slot_def find_upt_None_iff active_clients_def)
  then show ?thesis using None by (simp add: register_client_def cleanupAndThrow_def)
next
  case (Some i)
  then have i: "i < MAX_CLIENTS" "\<not> cl_active (client_registry (blk s) i)" "\<forall>j<i. cl_active (client_registry (blk s) j)"
    by (auto simp: free_client_slot_def find_upt_Some_iff)
  have "active_clients (blk s) \<subset> {..<MAX_CLIENTS}" using i by (auto simp: active_clients_def)
  then have "card (active_clients (blk s)) < card {..<MAX_CLIENTS}" by (intro psubset_card_mono) auto
  then show ?thesis using Some i assms
    by (auto simp: register_client_def Let_def set_client_def active_clients_def)
qed

theorem register_client_outcome_witness:
  "\<exists>i. snd (register_client True True 42 \<lparr>blk = sample_block, sems = (\<lambda>_. 0), ipc_alive = True\<rparr>) = Inr i"
proof -
  have "active_clients sample_block = {}" by (auto simp: active_clients_def sample_block_def)
  then show ?thesis
    using register_client_outcome [of "\<lparr>blk = sample_block, sems = (\<lambda>_. 0), ipc_alive = True\<rparr>" 42]
    by (auto simp: shm_simps)
qed

end
