(* ===== verification/Teds_Types.thy ===== *)
theory Teds_Types
  imports Wire_Format
begin

text \<open>
  The 32-bit TEDS type words of \<^verbatim>\<open>definitions/teds.hpp\<close>: masks, predicates, the request and
  response constructors, the unit constants, payload construction and type extraction.
\<close>

type_synonym teds_type = u32
type_synonym period = u32

definition INVALID :: teds_type where "INVALID = 0"
definition PURPOSE_MASK :: teds_type where "PURPOSE_MASK = 0x80000000"
definition DIGITAL_MASK :: teds_type where "DIGITAL_MASK = 0x40000000"
definition INVERT_MASK :: teds_type where "INVERT_MASK = 0x20000000"
definition FORMAT_MASK :: teds_type where "FORMAT_MASK = 0x18000000"
definition TYPE_MASK :: teds_type where "TYPE_MASK = 0x07FFFFFF"
definition FORMAT_INT :: teds_type where "FORMAT_INT = 0"
definition FORMAT_FLOAT :: teds_type where "FORMAT_FLOAT = 0x08000000"

lemmas teds_masks = PURPOSE_MASK_def DIGITAL_MASK_def INVERT_MASK_def FORMAT_MASK_def TYPE_MASK_def

definition is_digital :: "teds_type \<Rightarrow> bool" where "is_digital t \<longleftrightarrow> t AND DIGITAL_MASK \<noteq> 0"
definition is_si :: "teds_type \<Rightarrow> bool" where "is_si t \<longleftrightarrow> t AND DIGITAL_MASK = 0"
definition is_inverted :: "teds_type \<Rightarrow> bool" where "is_inverted t \<longleftrightarrow> t AND INVERT_MASK \<noteq> 0"
definition is_normal :: "teds_type \<Rightarrow> bool" where "is_normal t \<longleftrightarrow> t AND INVERT_MASK = 0"
definition get_format :: "teds_type \<Rightarrow> bool" where "get_format t \<longleftrightarrow> t AND FORMAT_MASK \<noteq> 0"
definition is_response :: "teds_type \<Rightarrow> bool" where "is_response t \<longleftrightarrow> t AND PURPOSE_MASK \<noteq> 0"
definition is_request :: "teds_type \<Rightarrow> bool" where "is_request t \<longleftrightarrow> t AND PURPOSE_MASK = 0"
definition get_base_type :: "teds_type \<Rightarrow> teds_type" where "get_base_type t = t AND TYPE_MASK"

definition make_response_type :: "teds_type \<Rightarrow> teds_type" where
  "make_response_type t = t OR PURPOSE_MASK"

definition make_request_type :: "teds_type \<Rightarrow> teds_type" where
  "make_request_type t = t AND TYPE_MASK"

lemmas teds_defs = is_digital_def is_si_def is_inverted_def is_normal_def get_format_def
  is_response_def is_request_def get_base_type_def make_response_type_def make_request_type_def

section \<open>Units\<close>

definition BASE :: teds_type where "BASE = 0x4924924"
definition CD :: teds_type where "CD = 0x1"
definition MOL :: teds_type where "MOL = 0x8"
definition K :: teds_type where "K = 0x40"
definition A :: teds_type where "A = 0x200"
definition S :: teds_type where "S = 0x1000"
definition KG :: teds_type where "KG = 0x8000"
definition M :: teds_type where "M = 0x40000"
definition RAD :: teds_type where "RAD = 0x200000"
definition SR :: teds_type where "SR = 0x1000000"

definition LUM_INTENSITY :: teds_type where "LUM_INTENSITY = BASE + CD"
definition AMOUNT_OF_SUB :: teds_type where "AMOUNT_OF_SUB = BASE + MOL"
definition TEMPERATURE :: teds_type where "TEMPERATURE = BASE + K"
definition CURRENT :: teds_type where "CURRENT = BASE + A"
definition TIME :: teds_type where "TIME = BASE + S"
definition MASS :: teds_type where "MASS = BASE + KG"
definition LENGTH_UNIT :: teds_type where "LENGTH_UNIT = BASE + M"
definition ANGLE :: teds_type where "ANGLE = BASE + RAD"
definition STERADIAN :: teds_type where "STERADIAN = BASE + SR"
definition VELOCITY :: teds_type where "VELOCITY = BASE + M - S"
definition ACCELERATION :: teds_type where "ACCELERATION = BASE + M - 2 * S"
definition VOLTAGE :: teds_type where "VOLTAGE = BASE + KG + 2 * M - 3 * S - A"
definition PRESSURE :: teds_type where "PRESSURE = BASE + KG - M - 2 * S"
definition FREQUENCY :: teds_type where "FREQUENCY = BASE - S"
definition LUMINANCE :: teds_type where "LUMINANCE = BASE + CD - 2 * M"
definition DENSITY :: teds_type where "DENSITY = BASE + KG - 3 * M"
definition FORCE :: teds_type where "FORCE = BASE + KG + M - 2 * S"
definition FARAD :: teds_type where "FARAD = BASE - KG - 2 * M + 4 * S + 2 * A"

lemmas base_unit_defs = BASE_def CD_def MOL_def K_def A_def S_def KG_def M_def RAD_def SR_def
lemmas derived_unit_defs = LUM_INTENSITY_def AMOUNT_OF_SUB_def TEMPERATURE_def CURRENT_def TIME_def
  MASS_def LENGTH_UNIT_def ANGLE_def STERADIAN_def VELOCITY_def ACCELERATION_def VOLTAGE_def
  PRESSURE_def FREQUENCY_def LUMINANCE_def DENSITY_def FORCE_def FARAD_def

text \<open>The \<^verbatim>\<open>switch\<close> of \<^verbatim>\<open>get_type_name\<close>, its cases in source order.\<close>

definition type_names :: "(teds_type \<times> string) list" where
  "type_names =
    [(LUM_INTENSITY, ''Luminous Intensity''), (AMOUNT_OF_SUB, ''Amount of Substance''),
     (TEMPERATURE, ''Temperature''), (CURRENT, ''Current''), (TIME, ''Time''), (MASS, ''Mass''),
     (LENGTH_UNIT, ''Length''), (ANGLE, ''Angle''), (STERADIAN, ''Solid Angle (Steradian)''),
     (VELOCITY, ''Velocity''), (ACCELERATION, ''Acceleration''), (VOLTAGE, ''Voltage''),
     (PRESSURE, ''Pressure''), (FREQUENCY, ''Frequency''), (LUMINANCE, ''Luminance''),
     (DENSITY, ''Density''), (FORCE, ''Force''), (FARAD, ''Capacitance (Farad)''),
     (CD, ''Luminous Intensity (base)''), (MOL, ''Amount of Substance (base)''),
     (K, ''Temperature (base)''), (A, ''Current (base)''), (S, ''Time (base)''),
     (KG, ''Mass (base)''), (M, ''Length (base)''), (RAD, ''Angle (base)''),
     (SR, ''Solid Angle (base)'')]"

definition get_type_name :: "teds_type \<Rightarrow> string" where
  "get_type_name full =
     (case map_of type_names (get_base_type full) of Some n \<Rightarrow> n | None \<Rightarrow> ''Unknown Type'')"

section \<open>Payloads\<close>

text \<open>A response carries a \<^verbatim>\<open>float\<close>, of which the code moves the four bytes: a 32-bit pattern.\<close>

definition TEDS_HEADER_SIZE :: nat where [wire_simps]: "TEDS_HEADER_SIZE = 4"
definition TEDS_DATA_SIZE :: nat where [wire_simps]: "TEDS_DATA_SIZE = 4"

definition create_request_payload :: "teds_type \<Rightarrow> period \<Rightarrow> bytes" where
  "create_request_payload base interval_ms =
     (let buf = replicate (TEDS_HEADER_SIZE + TEDS_DATA_SIZE) 0;
          buf = memcpy_at 0 (le_bytes 4 (make_request_type base)) buf
      in memcpy_at TEDS_HEADER_SIZE (le_bytes 4 interval_ms) buf)"

definition create_response_payload :: "teds_type \<Rightarrow> u32 \<Rightarrow> bytes" where
  "create_response_payload base value_bits =
     (let buf = replicate (TEDS_HEADER_SIZE + TEDS_DATA_SIZE) 0;
          buf = memcpy_at 0 (le_bytes 4 (make_response_type base)) buf
      in memcpy_at TEDS_HEADER_SIZE (le_bytes 4 value_bits) buf)"

definition teds_header_type :: "bytes \<Rightarrow> teds_type" where
  "teds_header_type pl = le_word (read_at 0 4 pl)"

definition teds_data_word :: "bytes \<Rightarrow> u32" where
  "teds_data_word pl = le_word (read_at TEDS_HEADER_SIZE 4 pl)"

text \<open>
  \<open>extract_teds_type\<close> gets the segment header, a pointer to the payload (here the bytes from there on)
  and the payload size the caller computed, which guards the read.
\<close>

definition extract_teds_type :: "seg_header \<Rightarrow> bytes \<Rightarrow> u32 \<Rightarrow> teds_type" where
  "extract_teds_type h pl payload_size =
     (if msg_type_of (seg_type h) \<noteq> Some TEDS then INVALID
      else if unat payload_size < TEDS_HEADER_SIZE then INVALID
      else teds_header_type pl)"

lemma create_request_payload_eq:
  "create_request_payload b p = le_bytes 4 (make_request_type b) @ le_bytes 4 p"
  by (simp add: create_request_payload_def memcpy_at_def Let_def wire_simps)

lemma create_response_payload_eq:
  "create_response_payload b v = le_bytes 4 (make_response_type b) @ le_bytes 4 v"
  by (simp add: create_response_payload_def memcpy_at_def Let_def wire_simps)

section \<open>Properties\<close>

lemma request_xor_response: "is_request t \<longleftrightarrow> \<not> is_response t"
  by (simp add: is_request_def is_response_def)

lemma make_response_is_response [simp]: "is_response (make_response_type t)"
proof -
  have "(t OR PURPOSE_MASK) AND PURPOSE_MASK = PURPOSE_MASK"
    by (rule bit_word_eqI) (auto simp: bit_simps)
  then show ?thesis by (simp add: is_response_def make_response_type_def PURPOSE_MASK_def)
qed

lemma type_mask_disjoint:
  "TYPE_MASK AND PURPOSE_MASK = 0" "TYPE_MASK AND DIGITAL_MASK = 0"
  "TYPE_MASK AND INVERT_MASK = 0" "TYPE_MASK AND FORMAT_MASK = 0"
  by (simp_all add: teds_masks)

lemma make_request_is_request [simp]: "is_request (make_request_type t)"
  by (simp add: is_request_def make_request_type_def and.assoc type_mask_disjoint)

lemma base_of_request [simp]: "get_base_type (make_request_type t) = get_base_type t"
  by (simp add: get_base_type_def make_request_type_def and.assoc)

lemma base_of_response [simp]: "get_base_type (make_response_type t) = get_base_type t"
proof -
  have "(t OR PURPOSE_MASK) AND TYPE_MASK = (t AND TYPE_MASK) OR (TYPE_MASK AND PURPOSE_MASK)"
    by (rule bit_word_eqI) (auto simp: bit_simps)
  then show ?thesis
    by (simp add: get_base_type_def make_response_type_def type_mask_disjoint)
qed

text \<open>
  Request and response types of one unit share their base type and never coincide: a word is
  exactly one of request and response, \<open>make_request_type\<close> builds requests, \<open>make_response_type\<close>
  responses, so an interest subscription never receives data messages nor the converse.
\<close>

theorem teds_purpose_separation:
  "is_request (make_request_type t) \<and> is_response (make_response_type t) \<and>
   is_request u \<noteq> is_response u \<and>
   get_base_type (make_request_type t) = get_base_type (make_response_type t) \<and>
   make_request_type t \<noteq> make_response_type t'"
  by (metis base_of_request base_of_response make_request_is_request make_response_is_response
      request_xor_response)

text \<open>
  \<open>make_request_type\<close> keeps only the 27 base-type bits: it clears the digital, invert and
  format bits as well as the purpose bit, whereas \<open>make_response_type\<close> keeps them.  The inline
  comment of the source describes it as clearing the most significant bit only; the two agree
  exactly on words whose bits 27 to 30 are clear.
\<close>

theorem make_request_type_clears_metadata:
  "is_si (make_request_type t) \<and> is_normal (make_request_type t) \<and>
   \<not> get_format (make_request_type t) \<and>
   (make_request_type t = t AND NOT PURPOSE_MASK \<longleftrightarrow> t AND 0x78000000 = 0)"
proof -
  have m: "NOT PURPOSE_MASK = TYPE_MASK OR 0x78000000" by (simp add: teds_masks)
  have d: "TYPE_MASK AND 0x78000000 = 0" by (simp add: teds_masks)
  have "t AND NOT PURPOSE_MASK = (t AND TYPE_MASK) OR (t AND 0x78000000)"
    unfolding m by (rule bit_word_eqI) (auto simp: bit_simps)
  moreover have "((t AND TYPE_MASK) OR (t AND 0x78000000)) AND 0x78000000 = t AND 0x78000000"
    by (rule bit_word_eqI) (auto simp: bit_simps)
  moreover have "(t AND TYPE_MASK) AND 0x78000000 = 0" by (simp add: and.assoc d)
  ultimately have "t AND TYPE_MASK = t AND NOT PURPOSE_MASK \<longleftrightarrow> t AND 0x78000000 = 0"
    by (metis or.right_neutral)
  then show ?thesis
    by (simp add: is_si_def is_normal_def get_format_def make_request_type_def and.assoc
        type_mask_disjoint)
qed

lemma distinct_type_names: "distinct (map fst type_names)"
  by (simp add: type_names_def derived_unit_defs base_unit_defs)

lemma type_names_base: "(t, n) \<in> set type_names \<Longrightarrow> get_base_type t = t"
  by (auto simp: type_names_def get_base_type_def TYPE_MASK_def derived_unit_defs base_unit_defs)

text \<open>
  The case labels of \<open>get_type_name\<close> are pairwise distinct base types, so every listed unit,
  dressed with any request or response marking, is printed under its own name.
\<close>

theorem get_type_name_total:
  assumes "(t, n) \<in> set type_names"
  shows "get_type_name t = n \<and> get_type_name (make_request_type t) = n \<and>
    get_type_name (make_response_type t) = n"
  using assms map_of_is_SomeI [OF distinct_type_names assms] type_names_base [OF assms]
  by (simp add: get_type_name_def)

theorem get_type_name_total_witness:
  "get_type_name PRESSURE = ''Pressure'' \<and>
   get_type_name (make_response_type PRESSURE) = ''Pressure''"
  using get_type_name_total [of PRESSURE "''Pressure''"] by (simp add: type_names_def)

text \<open>
  What \<open>extract_teds_type\<close> and the handlers read from a payload is what the constructors put
  there: the marked type, and the period or the value bits.  For a segment that is not TEDS, or
  too short for the header, the extracted type is \<open>INVALID\<close>.
\<close>

theorem teds_payload_roundtrip:
  "teds_header_type (create_request_payload b p) = make_request_type b \<and>
   teds_data_word (create_request_payload b p) = p \<and>
   teds_header_type (create_response_payload b v) = make_response_type b \<and>
   teds_data_word (create_response_payload b v) = v \<and>
   extract_teds_type \<lparr>seg_type = msg_type_byte t, seg_timestamp = ts\<rparr> (create_response_payload b v @ rest) n
     = (if t = TEDS \<and> 4 \<le> unat n then make_response_type b else INVALID)"
  by (auto simp: create_request_payload_eq create_response_payload_eq teds_header_type_def
      teds_data_word_def read_at_def extract_teds_type_def wire_simps)

end
