(* ===== verification/Nic_Model.thy ===== *)
theory Nic_Model
  imports Shm_Services Teds_Types
begin

text \<open>
  The raw-socket engine and the network interface: the bytes \<^verbatim>\<open>RawSocketEngine::send\<close> puts on the wire,
  the frame \<^verbatim>\<open>NIC::handle_receive\<close> makes of received bytes and its filters, frame allocation, and the
  quadrant of the external interface.  What the receive buffer holds beyond the received bytes is
  whatever was on the stack, the parameter \<open>stale\<close>.
\<close>

section \<open>RawSocketEngine\<close>

definition ETHERNET_PROTOCOL_NUMBER :: u16 where "ETHERNET_PROTOCOL_NUMBER = 0x88B5"
definition ETH_DATA_LEN :: nat where [wire_simps]: "ETH_DATA_LEN = 1500"

record raw_engine =
  my_mac :: mac
  sll_addr :: mac

text \<open>
  The engine after the call, and the bytes handed to \<^verbatim>\<open>sendto\<close>, if any.  The source address of the
  caller is not used; the link-layer address is overwritten with the broadcast address.
\<close>

definition raw_send :: "mac \<Rightarrow> mac \<Rightarrow> u16 \<Rightarrow> bytes \<Rightarrow> raw_engine \<Rightarrow> raw_engine \<times> bytes option" where
  "raw_send src_mac dst_mac protocol data e =
     (if length data > ETH_DATA_LEN then (e, None)
      else (e\<lparr>sll_addr := BROADCAST_ADDR\<rparr>,
        Some (mac_bytes dst_mac @ mac_bytes (my_mac e) @ le_bytes 2 (htons protocol) @ data)))"

section \<open>Frames in memory\<close>

definition alloc_frame :: "mac \<Rightarrow> mac \<Rightarrow> u16 \<Rightarrow> u32 \<Rightarrow> frame option" where
  "alloc_frame src dst prot sz =
     (if unat sz > ETH_MTU then None
      else Some \<lparr>fr_header = \<lparr>dhost = dst, shost = src, eth_type = prot\<rparr>,
        fr_data = replicate ETH_MTU 0, data_length = sz\<rparr>)"

text \<open>
  What \<^verbatim>\<open>recvfrom\<close> gives: a frame, nothing to read, or a failure.  The engine returns the number of bytes
  and complains about failures only; \<^verbatim>\<open>handle_receive\<close> reads until the number is not positive.
\<close>

datatype recv_result = Received bytes | No_data | Recv_failed

definition raw_receive :: "recv_result \<Rightarrow> int \<times> bool" where
  "raw_receive r = (case r of Received d \<Rightarrow> (int (length d), False) | No_data \<Rightarrow> (- 1, False) | Recv_failed \<Rightarrow> (- 1, True))"

primrec drained :: "recv_result list \<Rightarrow> bytes list" where
  "drained [] = []"
| "drained (r # rs) = (if fst (raw_receive r) \<le> 0 then [] else case r of Received d \<Rightarrow> d # drained rs | _ \<Rightarrow> [])"

text \<open>One signal empties the socket: everything up to the first empty answer is taken.\<close>

lemma drained_all:
  assumes "[] \<notin> set ds" "r \<in> {No_data, Recv_failed, Received []}"
  shows "drained (map Received ds @ r # rs) = ds"
  using assms by (induction ds) (auto simp: raw_receive_def)

definition received_frame :: "bytes \<Rightarrow> bytes \<Rightarrow> frame" where
  "received_frame stale raw =
     (let mem = memcpy_at 0 raw stale
      in \<lparr>fr_header = \<lparr>dhost = mac_of (read_at 0 6 mem), shost = mac_of (read_at 6 6 mem),
            eth_type = le_word (read_at 12 2 mem)\<rparr>,
          fr_data = drop ETH_HEADER_SIZE mem,
          data_length = of_nat (length raw) - of_nat ETH_HEADER_SIZE\<rparr>)"

section \<open>The external interface\<close>

record ext_nic =
  engine :: raw_engine
  nic_quadrant :: quadrant
  fixed_location :: bool

definition nic_address :: "ext_nic \<Rightarrow> mac" where
  "nic_address n = my_mac (engine n)"

definition nic_set_location :: "quadrant \<Rightarrow> ext_nic \<Rightarrow> ext_nic" where
  "nic_set_location q n = n\<lparr>nic_quadrant := q\<rparr>"

definition nic_set_fixed :: "bool \<Rightarrow> ext_nic \<Rightarrow> ext_nic" where
  "nic_set_fixed b n = n\<lparr>fixed_location := b\<rparr>"

definition filter_location :: "ext_nic \<Rightarrow> frame \<Rightarrow> bool" where
  "filter_location n f \<longleftrightarrow> packet_location (fr_data f) \<noteq> quadrant_byte (nic_quadrant n)"

datatype rx = Rx_own | Rx_other_quadrant | Rx_notify u16 frame

text \<open>One turn of the loop of \<^verbatim>\<open>handle_receive\<close>, and the loop over what the socket holds.\<close>

definition handle_frame :: "ext_nic \<Rightarrow> bytes \<Rightarrow> bytes \<Rightarrow> rx" where
  "handle_frame n stale raw =
     (let f = received_frame stale raw
      in if shost (fr_header f) = nic_address n then Rx_own
         else if filter_location n f then Rx_other_quadrant
         else Rx_notify (htons (eth_type (fr_header f))) f)"

primrec handle_receive :: "ext_nic \<Rightarrow> (bytes \<times> bytes) list \<Rightarrow> rx list" where
  "handle_receive n [] = []"
| "handle_receive n (x # xs) =
     (if length (snd x) = 0 then [] else handle_frame n (fst x) (snd x) # handle_receive n xs)"

text \<open>
  The redraw loop of \<^verbatim>\<open>_quadrant_changer\<close>: the first drawn number that differs from the current
  quadrant; \<open>None\<close> when the draws given do not contain one.
\<close>

definition draw_new_quadrant :: "quadrant \<Rightarrow> quadrant list \<Rightarrow> quadrant option" where
  "draw_new_quadrant cur draws = List.find (\<lambda>d. d \<noteq> cur) draws"

definition quadrant_changer_step :: "quadrant list \<Rightarrow> ext_nic \<Rightarrow> (ext_nic \<times> frame option) option" where
  "quadrant_changer_step draws n = (case draw_new_quadrant (nic_quadrant n) draws of None \<Rightarrow> None
     | Some q \<Rightarrow> Some (nic_set_location q n, alloc_frame (nic_address n) (nic_address n) ETHERNET_PROTOCOL_NUMBER 0))"

section \<open>Sending and receiving are inverse\<close>

lemma received_frame_eq:
  assumes "length raw \<le> length stale"
  shows "fr_data (received_frame stale raw) = drop 14 raw @ drop (max 14 (length raw)) stale"
  using assms by (simp add: received_frame_def Let_def memcpy_at_def wire_simps max_def)

lemma mac_bytes_read [simp]: "mac_of (take 6 (mac_bytes m @ xs)) = m"
  by simp

lemma received_sent_frame:
  assumes "length data \<le> ETH_DATA_LEN" "length stale = ETH_HEADER_SIZE + ETH_MTU" "data \<noteq> []"
    and "snd (raw_send src dst proto data e) = Some raw"
  shows "fr_header (received_frame stale raw) = \<lparr>dhost = dst, shost = my_mac e, eth_type = htons proto\<rparr>"
    and "take (length data) (fr_data (received_frame stale raw)) = data"
    and "length (fr_data (received_frame stale raw)) = ETH_MTU"
    and "data_length (received_frame stale raw) = of_nat (length data)"
    and "my_mac e \<noteq> nic_address n \<Longrightarrow> handle_frame n stale raw = (if hd data = quadrant_byte (nic_quadrant n)
      then Rx_notify proto (received_frame stale raw) else Rx_other_quadrant)"
proof -
  let ?f = "received_frame stale raw"
  have raw: "raw = mac_bytes dst @ mac_bytes (my_mac e) @ le_bytes 2 (htons proto) @ data"
    using assms(1,4) by (auto simp: raw_send_def)
  have d: "fr_data ?f = data @ drop (14 + length data) stale"
    using assms(1,2) raw by (subst received_frame_eq) (simp_all add: wire_simps)
  show h: "fr_header ?f = \<lparr>dhost = dst, shost = my_mac e, eth_type = htons proto\<rparr>"
    by (simp add: received_frame_def Let_def raw memcpy_at_def read_at_def le_word_le_bytes_full)
  show "take (length data) (fr_data ?f) = data" "length (fr_data ?f) = ETH_MTU"
    using assms(1,2) by (simp_all add: d wire_simps)
  show "data_length ?f = of_nat (length data)"
    by (simp add: received_frame_def Let_def raw wire_simps)
  have "packet_location (fr_data ?f) = hd data"
    using assms(3) by (cases data) (simp_all add: d packet_location_def)
  then show "handle_frame n stale raw = (if hd data = quadrant_byte (nic_quadrant n)
      then Rx_notify proto ?f else Rx_other_quadrant)" if "my_mac e \<noteq> nic_address n"
    using that h by (simp add: handle_frame_def Let_def filter_location_def)
qed

text \<open>
  C30. What one station sends another receives: unless the receiver sent it itself, the frame made of
  the bytes on the wire has the destination, the EtherType, the payload and the length of the send
  call, and the sender's own hardware address as source, whatever source the caller named.  It is
  handed up exactly when the first payload byte is the receiver's quadrant.
\<close>

theorem wire_roundtrip:
  assumes "length data \<le> ETH_DATA_LEN" "length stale = ETH_HEADER_SIZE + ETH_MTU" "data \<noteq> []"
    and "snd (raw_send src dst proto data e) = Some raw" "my_mac e \<noteq> nic_address n"
  shows "\<exists>f. received_frame stale raw = f \<and> fr_header f = \<lparr>dhost = dst, shost = my_mac e, eth_type = htons proto\<rparr> \<and>
    take (length data) (fr_data f) = data \<and> length (fr_data f) = ETH_MTU \<and> data_length f = of_nat (length data) \<and>
    handle_frame n stale raw = (if hd data = quadrant_byte (nic_quadrant n) then Rx_notify proto f else Rx_other_quadrant)"
  using received_sent_frame [OF assms(1-4)] assms(5) by simp

definition sample_engine :: raw_engine where
  "sample_engine = \<lparr>my_mac = MAC 2 0 0 0 0 1, sll_addr = LOCAL_ADDR\<rparr>"

definition sample_nic :: ext_nic where
  "sample_nic = \<lparr>engine = \<lparr>my_mac = MAC 2 0 0 0 0 2, sll_addr = LOCAL_ADDR\<rparr>, nic_quadrant = EAST, fixed_location = False\<rparr>"

theorem wire_roundtrip_witness:
  "\<exists>raw f. snd (raw_send LOCAL_ADDR BROADCAST_ADDR 0x88B5 [1, 7, 8] sample_engine) = Some raw \<and>
     handle_frame sample_nic (replicate 1514 0xAA) raw = Rx_notify 0x88B5 f \<and> take 3 (fr_data f) = [1, 7, 8]"
proof -
  obtain raw where raw: "snd (raw_send LOCAL_ADDR BROADCAST_ADDR 0x88B5 [1, 7, 8] sample_engine) = Some raw"
    by (simp add: raw_send_def wire_simps)
  from wire_roundtrip [OF _ _ _ this, of "replicate 1514 0xAA" sample_nic] raw show ?thesis
    by (auto simp: wire_simps sample_engine_def sample_nic_def nic_address_def numeral_3_eq_3)
qed

end
