(* ===== verification/Crypto_Xor.thy ===== *)
theory Crypto_Xor
  imports Comm_Prelude
begin

text \<open>
  The crypto layer: the \<^verbatim>\<open>ICryptoProvider\<close> interface as a record of functions and, for its
  laws, the locale \<open>crypto_provider\<close>; the XOR provider; and the static \<^verbatim>\<open>CryptoService\<close> with its
  optional provider.
\<close>

type_synonym session_key = u64
type_synonym msg_auth_code = u64

section \<open>The XOR provider\<close>

text \<open>The word loop and the byte loop of \<^verbatim>\<open>generate_mac\<close>, after the given number of iterations.\<close>

primrec mac_words :: "nat \<Rightarrow> bytes \<Rightarrow> u64 \<Rightarrow> u64" where
  "mac_words 0 data mac = mac"
| "mac_words (Suc i) data mac = mac_words i data mac XOR le_word (read_at (8 * i) 8 data)"

primrec mac_rest :: "nat \<Rightarrow> bytes \<Rightarrow> u64 \<Rightarrow> u64" where
  "mac_rest 0 remaining mac = mac"
| "mac_rest (Suc j) remaining mac = mac_rest j remaining mac XOR push_bit (j * 8) (ucast (remaining ! j))"

definition generate_mac :: "bytes \<Rightarrow> nat \<Rightarrow> session_key \<Rightarrow> msg_auth_code" where
  "generate_mac data sz key =
     (let i = sz div 8; mac = mac_words i data key; remaining = drop (i * 8) data
      in mac_rest (sz mod 8) remaining mac)"

definition xor_encrypt :: "bytes \<Rightarrow> session_key \<Rightarrow> bytes result" where
  "xor_encrypt plaintext key =
     (if key = 0 then Inl (Runtime_error ''XOR session key cannot be zero.'')
      else let key_bytes = le_bytes 8 key
           in Inr (map (\<lambda>i. plaintext ! i XOR key_bytes ! (i mod 8)) [0..<length plaintext]))"

definition xor_decrypt :: "bytes \<Rightarrow> session_key \<Rightarrow> bytes result" where
  "xor_decrypt ciphertext key = xor_encrypt ciphertext key"

section \<open>Providers and the service\<close>

record provider =
  p_encrypt :: "bytes \<Rightarrow> session_key \<Rightarrow> bytes result"
  p_decrypt :: "bytes \<Rightarrow> session_key \<Rightarrow> bytes result"
  p_generate_mac :: "bytes \<Rightarrow> nat \<Rightarrow> session_key \<Rightarrow> msg_auth_code result"

definition default_generate_mac :: "bytes \<Rightarrow> nat \<Rightarrow> session_key \<Rightarrow> msg_auth_code result" where
  "default_generate_mac data sz key =
     Inl (Runtime_error ''Generate mac not implemented for the selected provider!'')"

definition XorCryptoProvider :: provider where
  "XorCryptoProvider = \<lparr>p_encrypt = xor_encrypt, p_decrypt = xor_decrypt,
     p_generate_mac = (\<lambda>d n k. Inr (generate_mac d n k))\<rparr>"

definition getProvider :: "provider option \<Rightarrow> provider result" where
  "getProvider s = (case s of
     None \<Rightarrow> Inl (Runtime_error ''CryptoService not initialized. Call CryptoService::init() first.'')
   | Some p \<Rightarrow> Inr p)"

definition service_init :: "provider option \<Rightarrow> provider option \<Rightarrow> provider option" where
  "service_init s p = p"

definition service_encrypt :: "provider option \<Rightarrow> bytes \<Rightarrow> session_key \<Rightarrow> bytes result" where
  "service_encrypt s pt k = (case getProvider s of Inl e \<Rightarrow> Inl e | Inr p \<Rightarrow> p_encrypt p pt k)"

definition service_decrypt :: "provider option \<Rightarrow> bytes \<Rightarrow> session_key \<Rightarrow> bytes result" where
  "service_decrypt s ct k = (case getProvider s of Inl e \<Rightarrow> Inl e | Inr p \<Rightarrow> p_decrypt p ct k)"

definition service_generate_mac ::
  "provider option \<Rightarrow> bytes \<Rightarrow> nat \<Rightarrow> session_key \<Rightarrow> msg_auth_code result" where
  "service_generate_mac s d n k =
     (case getProvider s of Inl e \<Rightarrow> Inl e | Inr p \<Rightarrow> p_generate_mac p d n k)"

section \<open>The MAC, byte by byte\<close>

text \<open>
  The reference definition: byte \<open>n\<close> is folded into lane \<open>n mod 8\<close>.  The word loop of the code
  computes the same value eight bytes at a time.
\<close>

primrec mac_bytewise :: "nat \<Rightarrow> bytes \<Rightarrow> u64" where
  "mac_bytewise 0 d = 0"
| "mac_bytewise (Suc n) d = mac_bytewise n d XOR push_bit (8 * (n mod 8)) (ucast (d ! n))"

lemma le_word_snoc:
  "le_word (bs @ [b]) = (le_word bs XOR push_bit (8 * length bs) (ucast b) :: 'a::len word)"
proof (rule bit_word_eqI)
  fix k assume k: "k < LENGTH('a)"
  consider (low) "k div 8 < length bs" | (mid) "k div 8 = length bs" | (high) "length bs < k div 8"
    by linarith
  then show "bit (le_word (bs @ [b]) :: 'a word) k
      = bit (le_word bs XOR push_bit (8 * length bs) (ucast b) :: 'a word) k"
  proof cases
    case low
    then have "k < 8 * length bs" by simp
    then show ?thesis using low k by (simp add: bit_simps bit_le_word nth_append)
  next
    case mid
    then have "k - 8 * length bs = k mod 8" "8 * length bs \<le> k"
      by (auto simp: minus_mult_div_eq_mod [symmetric])
    then show ?thesis using mid k by (auto simp: bit_simps bit_le_word nth_append)
  next
    case high
    then have "8 \<le> k - 8 * length bs" by simp
    then have "\<not> bit b (k - 8 * length bs)" using bit_imp_le_length [of b] by fastforce
    then show ?thesis using high k by (auto simp: bit_simps bit_le_word)
  qed
qed

lemma mac_rest_eq: "j \<le> length r \<Longrightarrow> mac_rest j r m = m XOR le_word (take j r)"
  by (induction j) (simp_all add: take_Suc_conv_app_nth le_word_snoc ac_simps)

lemma mac_bytewise_lanes:
  "j \<le> 8 \<Longrightarrow> 8 * n + j \<le> length d \<Longrightarrow>
   mac_bytewise (8 * n + j) d = mac_bytewise (8 * n) d XOR le_word (read_at (8 * n) j d)"
proof (induction j)
  case (Suc j)
  have "read_at (8 * n) (Suc j) d = read_at (8 * n) j d @ [d ! (8 * n + j)]"
    using Suc.prems by (simp add: read_at_def take_Suc_conv_app_nth)
  moreover have "(8 * n + j) mod 8 = j" "length (read_at (8 * n) j d) = j"
    using Suc.prems by auto
  ultimately show ?case using Suc by (simp add: le_word_snoc ac_simps)
qed (simp add: read_at_def)

lemma mac_words_eq: "8 * n \<le> length d \<Longrightarrow> mac_words n d m = m XOR mac_bytewise (8 * n) d"
proof (induction n)
  case (Suc n)
  then show ?case
    using mac_bytewise_lanes [of 8 n d] by (simp add: ac_simps add.commute)
qed simp

lemma generate_mac_bytewise:
  assumes "n \<le> length d"
  shows "generate_mac d n k = k XOR mac_bytewise n d"
proof -
  have n: "8 * (n div 8) + n mod 8 = n" by simp
  have "8 * (n div 8) \<le> length d" using assms n by linarith
  moreover have "n mod 8 \<le> length (drop (8 * (n div 8)) d)"
    using assms n unfolding length_drop by linarith
  ultimately show ?thesis
    using mac_bytewise_lanes [of "n mod 8" "n div 8" d] assms n
    by (simp add: generate_mac_def Let_def mac_rest_eq mac_words_eq read_at_def mult.commute ac_simps)
qed

text \<open>
  C36. The optimised MAC loop (eight bytes at a time, then the remaining bytes) computes the byte-wise
  reference: the key with every byte \<open>i\<close> folded into lane \<open>i mod 8\<close>.
\<close>

theorem generate_mac_refines_bytewise:
  assumes "sz \<le> length data"
  shows "generate_mac data sz key = key XOR mac_bytewise sz data"
  using assms by (rule generate_mac_bytewise)

theorem generate_mac_refines_bytewise_witness:
  "generate_mac [1, 2, 3, 4, 5, 6, 7, 8, 9, 10] 10 0xFF
     = 0xFF XOR mac_bytewise 10 [1, 2, 3, 4, 5, 6, 7, 8, 9, 10] \<and>
   generate_mac [1, 2, 3, 4, 5, 6, 7, 8, 9, 10] 10 0xFF = 0x08070605040308F7"
proof
  show "generate_mac [1, 2, 3, 4, 5, 6, 7, 8, 9, 10] 10 0xFF
     = 0xFF XOR mac_bytewise 10 [1, 2, 3, 4, 5, 6, 7, 8, 9, 10]"
    by (rule generate_mac_refines_bytewise) simp
  show "generate_mac [1, 2, 3, 4, 5, 6, 7, 8, 9, 10] 10 0xFF = 0x08070605040308F7"
    by code_simp
qed

lemma mac_bytewise_update_outside: "n \<le> i \<Longrightarrow> mac_bytewise n (d[i := b]) = mac_bytewise n d"
  by (induction n) auto

lemma mac_bytewise_update:
  assumes "i < n" "n \<le> length d"
  shows "mac_bytewise n (d[i := b])
    = mac_bytewise n d XOR push_bit (8 * (i mod 8)) (ucast (b XOR d ! i))"
  using assms
proof (induction n)
  case (Suc n)
  have split: "push_bit (8 * (i mod 8)) (ucast (b XOR d ! i)) = (push_bit (8 * (i mod 8)) (ucast b)
      XOR push_bit (8 * (i mod 8)) (ucast (d ! i)) :: u64)"
    by (rule bit_word_eqI) (auto simp: bit_simps)
  show ?case
  proof (cases "i = n")
    case True
    then show ?thesis
      using Suc.prems split unfolding True by (simp add: mac_bytewise_update_outside ac_simps)
  next
    case False
    then show ?thesis using Suc by (simp add: ac_simps)
  qed
qed simp

lemma lane_nonzero:
  assumes "c \<noteq> (0 :: byte)"
  shows "push_bit (8 * (i mod 8)) (ucast c :: u64) \<noteq> 0"
proof -
  obtain k where k: "bit c k" using assms bit_eq_iff [of c 0] by auto
  then have "k < 8" using bit_imp_le_length [of c k] by simp
  have "8 * (i mod 8) \<le> 56" by simp
  with \<open>k < 8\<close> have "8 * (i mod 8) + k < 64" by linarith
  with k have "bit (push_bit (8 * (i mod 8)) (ucast c :: u64)) (8 * (i mod 8) + k)"
    using \<open>k < 8\<close> by (simp add: bit_simps)
  then show ?thesis by (metis bit_0_eq bot_apply bot_bool_def)
qed

lemma mac_single_byte:
  assumes "i < sz" "sz \<le> length data" "b \<noteq> data ! i"
  shows "generate_mac (data[i := b]) sz key \<noteq> generate_mac data sz key"
proof
  let ?p = "push_bit (8 * (i mod 8)) (ucast (b XOR data ! i)) :: u64"
  assume "generate_mac (data[i := b]) sz key = generate_mac data sz key"
  then have "(key XOR mac_bytewise sz data) XOR (key XOR mac_bytewise sz data) XOR ?p = 0"
    using assms by (simp add: generate_mac_bytewise mac_bytewise_update ac_simps)
  then have "?p = 0" by simp
  moreover have "b XOR data ! i \<noteq> 0" using assms(3) by (metis xor.assoc xor_self_eq xor.right_neutral xor.left_neutral)
  ultimately show False using lane_nonzero by blast
qed

text \<open>
  Tampering with any single byte of the authenticated data changes the MAC.
\<close>

theorem mac_detects_single_byte:
  assumes "i < sz" "sz \<le> length data" "b \<noteq> data ! i"
  shows "generate_mac (data[i := b]) sz key \<noteq> generate_mac data sz key"
  using assms by (rule mac_single_byte)

theorem mac_detects_single_byte_witness:
  "generate_mac [7, 9, 3] 3 5 \<noteq> generate_mac [7, 8, 3] 3 5"
  using mac_detects_single_byte [of 1 3 "[7, 8, 3]" 9 5] by simp

text \<open>
  Two keys give the same MAC on the same data only when they are equal, so a receiver with
  another session key rejects every packet; and the MAC reveals the key: the XOR of an observed MAC
  with the MAC under the zero key is the session key.
\<close>

theorem mac_key_exposure:
  assumes "sz \<le> length data"
  shows "(generate_mac data sz k = generate_mac data sz k' \<longleftrightarrow> k = k') \<and>
    generate_mac data sz k XOR generate_mac data sz 0 = k"
proof -
  have "generate_mac data sz k XOR generate_mac data sz 0 = k" for k
    using assms by (simp add: generate_mac_bytewise ac_simps)
  then show ?thesis by metis
qed

theorem mac_key_exposure_witness:
  "generate_mac [1, 2] 2 77 XOR generate_mac [1, 2] 2 0 = 77 \<and>
   generate_mac [1, 2] 2 77 \<noteq> generate_mac [1, 2] 2 78"
  using mac_key_exposure [of 2 "[1, 2]" 77 78] by simp

section \<open>Encryption\<close>

lemma xor_encrypt_nonzero:
  "key \<noteq> 0 \<Longrightarrow> xor_encrypt p key
     = Inr (map (\<lambda>i. p ! i XOR le_bytes 8 key ! (i mod 8)) [0..<length p])"
  by (simp add: xor_encrypt_def Let_def)

lemma xor_decrypt_encrypt: "xor_encrypt p k = Inr c \<Longrightarrow> xor_decrypt c k = Inr p"
  by (auto simp: xor_decrypt_def xor_encrypt_def Let_def ac_simps map_nth intro: nth_equalityI
      split: if_splits)

lemma xor_encrypt_length: "xor_encrypt p k = Inr c \<Longrightarrow> length c = length p"
  by (auto simp: xor_encrypt_def Let_def split: if_splits)

text \<open>What a client of \<^verbatim>\<open>ICryptoProvider\<close> relies on.\<close>

locale crypto_provider =
  fixes enc :: "bytes \<Rightarrow> session_key \<Rightarrow> bytes result"
    and dec :: "bytes \<Rightarrow> session_key \<Rightarrow> bytes result"
    and usable :: "session_key \<Rightarrow> bool"
  assumes enc_usable: "usable k \<longleftrightarrow> (\<exists>c. enc p k = Inr c)"
    and dec_enc: "enc p k = Inr c \<Longrightarrow> dec c k = Inr p"
begin

lemma enc_inject: "enc p k = Inr c \<Longrightarrow> enc q k = Inr c \<Longrightarrow> p = q"
  by (metis dec_enc sum.inject(2))

lemma roundtrip: "usable k \<Longrightarrow> \<exists>c. enc p k = Inr c \<and> dec c k = Inr p"
  using enc_usable dec_enc by blast

end

interpretation xor_crypto: crypto_provider xor_encrypt xor_decrypt "\<lambda>k. k \<noteq> 0"
  by unfold_locales (auto simp: xor_decrypt_encrypt, auto simp: xor_encrypt_def Let_def)

text \<open>
  With an initialised service and a nonzero key, encryption succeeds, keeps the length, and
  decryption under the same key returns the plaintext; a zero key is refused on both paths, and
  without a provider every call throws.
\<close>

theorem service_encryption_roundtrip:
  "(k \<noteq> 0 \<longrightarrow> (\<exists>c. service_encrypt (Some XorCryptoProvider) p k = Inr c \<and> length c = length p \<and>
      service_decrypt (Some XorCryptoProvider) c k = Inr p)) \<and>
   service_encrypt (Some XorCryptoProvider) p 0 =
     Inl (Runtime_error ''XOR session key cannot be zero.'') \<and>
   (\<exists>e. service_encrypt None p k = Inl e \<and> service_decrypt None p k = Inl e \<and>
      service_generate_mac None p n k = Inl e)"
proof -
  have "\<exists>c. xor_encrypt p k = Inr c \<and> length c = length p \<and> xor_decrypt c k = Inr p" if "k \<noteq> 0"
    using xor_crypto.roundtrip [OF that] xor_encrypt_length by blast
  then show ?thesis
    by (auto simp: service_encrypt_def service_decrypt_def service_generate_mac_def getProvider_def
        XorCryptoProvider_def xor_encrypt_def)
qed

theorem service_encryption_roundtrip_witness:
  "\<exists>c. service_encrypt (Some XorCryptoProvider) [1, 2, 3] 9 = Inr c \<and> length c = length [1, 2, 3 :: byte] \<and>
     service_decrypt (Some XorCryptoProvider) c 9 = Inr [1, 2, 3]"
  using service_encryption_roundtrip [of 9 "[1, 2, 3]" 0] by simp

end
