(* ===== verification/Observer_Subjects.thy ===== *)
theory Observer_Subjects
  imports Comm_Prelude "HOL-Library.Multiset"
begin

text \<open>
  The observer layer: \<^verbatim>\<open>Conditionally_Data_Observed\<close> (parallel vectors of observers and conditions,
  newest first), \<^verbatim>\<open>Concurrent_Observed\<close> (one list of pairs, oldest first), \<^verbatim>\<open>Semaphore\<close> and the
  queueing \<^verbatim>\<open>Concurrent_Observer\<close>.  Observer pointers are options (\<open>None\<close> is the null pointer); an
  observer's \<^verbatim>\<open>update\<close> is a function on the state it changes.  The locale \<open>subject\<close> states the
  contract both subjects offer.
\<close>

section \<open>Conditionally\_Data\_Observed\<close>

record ('o, 'c) observed =
  observers :: "'o option list"
  conditions :: "'c list"

definition attach :: "('o, 'c) observed \<Rightarrow> 'o option \<Rightarrow> 'c \<Rightarrow> ('o, 'c) observed" where
  "attach s obs c = s\<lparr>observers := obs # observers s, conditions := c # conditions s\<rparr>"

definition erase_at :: "nat \<Rightarrow> 'a list \<Rightarrow> 'a list" where
  "erase_at i xs = take i xs @ drop (Suc i) xs"

text \<open>The descending index loop of \<^verbatim>\<open>detach\<close>: \<open>detach_loop n\<close> visits \<open>n - 1\<close> down to \<open>0\<close>.\<close>

primrec detach_loop ::
  "nat \<Rightarrow> 'o option \<Rightarrow> 'c \<Rightarrow> ('o, 'c) observed \<Rightarrow> ('o, 'c) observed" where
  "detach_loop 0 obs c s = s"
| "detach_loop (Suc i) obs c s = detach_loop i obs c
     (if observers s ! i = obs \<and> conditions s ! i = c
      then s\<lparr>observers := erase_at i (observers s), conditions := erase_at i (conditions s)\<rparr>
      else s)"

definition detach :: "('o, 'c) observed \<Rightarrow> 'o option \<Rightarrow> 'c \<Rightarrow> ('o, 'c) observed" where
  "detach s obs c = detach_loop (length (observers s)) obs c s"

text \<open>The ascending loop of \<^verbatim>\<open>notify\<close>, state of the observers threaded through their updates.\<close>

definition notify_step ::
  "('o \<Rightarrow> 'c \<Rightarrow> 'd \<Rightarrow> 's \<Rightarrow> 's) \<Rightarrow> ('o, 'c) observed \<Rightarrow> 'c \<Rightarrow> 'd \<Rightarrow> nat \<Rightarrow> bool \<times> 's \<Rightarrow> bool \<times> 's" where
  "notify_step update s c d i nst =
     (if conditions s ! i = c
      then (case observers s ! i of None \<Rightarrow> nst | Some ob \<Rightarrow> (True, update ob c d (snd nst)))
      else nst)"

definition notify ::
  "('o \<Rightarrow> 'c \<Rightarrow> 'd \<Rightarrow> 's \<Rightarrow> 's) \<Rightarrow> ('o, 'c) observed \<Rightarrow> 'c \<Rightarrow> 'd \<Rightarrow> 's \<Rightarrow> bool \<times> 's" where
  "notify update s c d st =
     fold (notify_step update s c d) [0..<length (observers s)] (False, st)"

text \<open>The two vectors always have the same length; the observers a notification reaches, in order.\<close>

definition observed_ok :: "('o, 'c) observed \<Rightarrow> bool" where
  "observed_ok s \<longleftrightarrow> length (observers s) = length (conditions s)"

definition observed_empty :: "('o, 'c) observed" where
  "observed_empty = \<lparr>observers = [], conditions = []\<rparr>"

definition targets :: "('o, 'c) observed \<Rightarrow> 'c \<Rightarrow> 'o list" where
  "targets s c = List.map_filter (\<lambda>(co, ob). if co = c then ob else None)
     (zip (conditions s) (observers s))"

lemma map_filter_append: "List.map_filter f (xs @ ys) = List.map_filter f xs @ List.map_filter f ys"
  by (simp add: List.map_filter_def)

lemma map_filter_simps [simp]:
  "List.map_filter f [] = []"
  "List.map_filter f (x # xs) = (case f x of None \<Rightarrow> List.map_filter f xs | Some y \<Rightarrow> y # List.map_filter f xs)"
  by (simp_all add: List.map_filter_def split: option.splits)

lemma zip_erase_at:
  "length xs = length ys \<Longrightarrow> zip (erase_at i xs) (erase_at i ys) = erase_at i (zip xs ys)"
  by (simp add: erase_at_def take_zip drop_zip zip_append)

lemma length_erase_at: "i < length xs \<Longrightarrow> length (erase_at i xs) = length xs - 1"
  by (simp add: erase_at_def)

lemma detach_loop_zip:
  assumes "observed_ok s" "n \<le> length (observers s)"
  shows "observed_ok (detach_loop n obs c s) \<and>
    zip (conditions (detach_loop n obs c s)) (observers (detach_loop n obs c s))
      = filter (\<lambda>p. p \<noteq> (c, obs)) (take n (zip (conditions s) (observers s)))
        @ drop n (zip (conditions s) (observers s))"
  using assms
proof (induction n arbitrary: s)
  case (Suc i)
  let ?z = "zip (conditions s) (observers s)"
  have i: "i < length (observers s)" "i < length (conditions s)" "i < length ?z"
    using Suc.prems by (auto simp: observed_ok_def)
  then have zi: "?z ! i = (conditions s ! i, observers s ! i)" by simp
  have tk: "take (Suc i) ?z = take i ?z @ [?z ! i]" using i by (simp add: take_Suc_conv_app_nth)
  show ?case
  proof (cases "observers s ! i = obs \<and> conditions s ! i = c")
    case True
    let ?s = "s\<lparr>observers := erase_at i (observers s), conditions := erase_at i (conditions s)\<rparr>"
    have ok: "observed_ok ?s" "i \<le> length (observers ?s)"
      using Suc.prems i by (auto simp: observed_ok_def length_erase_at)
    have "zip (conditions ?s) (observers ?s) = erase_at i ?z"
      using Suc.prems by (simp add: zip_erase_at observed_ok_def)
    then have "take i (zip (conditions ?s) (observers ?s)) = take i ?z"
      "drop i (zip (conditions ?s) (observers ?s)) = drop (Suc i) ?z"
      using i by (auto simp: erase_at_def)
    then show ?thesis using Suc.IH [OF ok] True zi by (simp add: tk del: take_Suc)
  next
    case False
    have "drop i ?z = ?z ! i # drop (Suc i) ?z" using i(3) by (simp only: Cons_nth_drop_Suc)
    then show ?thesis using Suc.IH [of s] Suc.prems False zi by (auto simp: tk)
  qed
qed simp

lemma zip_detach:
  assumes "observed_ok s"
  shows "observed_ok (detach s obs c)"
    and "zip (conditions (detach s obs c)) (observers (detach s obs c))
      = filter (\<lambda>p. p \<noteq> (c, obs)) (zip (conditions s) (observers s))"
  using detach_loop_zip [OF assms, of "length (observers s)" obs c] assms
  by (simp_all add: detach_def observed_ok_def)

lemma targets_attach: "targets (attach s (Some ob) c) c' = (if c = c' then [ob] else []) @ targets s c'"
  by (simp add: targets_def attach_def)

lemma map_filter_detach:
  "List.map_filter (\<lambda>(co, ob). if co = c' then ob else None) (filter (\<lambda>p. p \<noteq> (c, Some ob)) xs)
    = filter (\<lambda>x. c = c' \<longrightarrow> x \<noteq> ob)
        (List.map_filter (\<lambda>(co, ob). if co = c' then ob else None) xs)"
  by (induction xs) (auto split: option.splits if_splits)

lemma targets_detach:
  "observed_ok s \<Longrightarrow>
   targets (detach s (Some ob) c) c' = filter (\<lambda>x. c = c' \<longrightarrow> x \<noteq> ob) (targets s c')"
  by (simp only: targets_def zip_detach map_filter_detach)

lemma fold_notify_step:
  assumes "n \<le> length (observers s)" "observed_ok s"
  shows "fold (notify_step update s c d) [0..<n] (b, st)
    = (let ts = List.map_filter (\<lambda>(co, ob). if co = c then ob else None)
                  (take n (zip (conditions s) (observers s)))
       in (b \<or> ts \<noteq> [], fold (\<lambda>ob. update ob c d) ts st))"
  using assms
proof (induction n)
  case (Suc i)
  let ?z = "zip (conditions s) (observers s)"
  have "i < length ?z" using Suc.prems by (auto simp: observed_ok_def)
  then have "take (Suc i) ?z = take i ?z @ [(conditions s ! i, observers s ! i)]"
    by (simp add: take_Suc_conv_app_nth)
  then show ?case using Suc
    by (auto simp: Let_def map_filter_append notify_step_def split: option.splits)
qed (simp add: Let_def)

lemma notify_targets:
  assumes "observed_ok s"
  shows "notify update s c d st = (targets s c \<noteq> [], fold (\<lambda>ob. update ob c d) (targets s c) st)"
  using fold_notify_step [OF _ assms, of "length (observers s)" update c d False st] assms
  by (simp add: notify_def targets_def Let_def observed_ok_def)

section \<open>Concurrent\_Observed\<close>

type_synonym ('o, 'c) pair_list = "('c \<times> 'o option) list"

definition co_attach :: "('o, 'c) pair_list \<Rightarrow> 'o option \<Rightarrow> 'c \<Rightarrow> ('o, 'c) pair_list" where
  "co_attach l obs c = l @ [(c, obs)]"

definition co_detach :: "('o, 'c) pair_list \<Rightarrow> 'o option \<Rightarrow> 'c \<Rightarrow> ('o, 'c) pair_list" where
  "co_detach l obs c = filter (\<lambda>p. p \<noteq> (c, obs)) l"

text \<open>\<^verbatim>\<open>Concurrent_Observed::notify\<close> has no null check: \<open>None\<close> is the null dereference.\<close>

fun co_notify ::
  "('o \<Rightarrow> 'c \<Rightarrow> 'd \<Rightarrow> 's \<Rightarrow> 's) \<Rightarrow> ('o, 'c) pair_list \<Rightarrow> 'c \<Rightarrow> 'd \<Rightarrow> bool \<times> 's \<Rightarrow> (bool \<times> 's) option" where
  "co_notify update [] c d nst = Some nst"
| "co_notify update ((co, ob) # l) c d (n, st) =
     (if co = c then (case ob of None \<Rightarrow> None | Some x \<Rightarrow> co_notify update l c d (True, update x c d st))
      else co_notify update l c d (n, st))"

definition co_targets :: "('o, 'c) pair_list \<Rightarrow> 'c \<Rightarrow> 'o list" where
  "co_targets l c = List.map_filter (\<lambda>(co, ob). if co = c then ob else None) l"

section \<open>The contract of a subject\<close>

locale subject =
  fixes att :: "'s \<Rightarrow> 'o option \<Rightarrow> 'c \<Rightarrow> 's"
    and det :: "'s \<Rightarrow> 'o option \<Rightarrow> 'c \<Rightarrow> 's"
    and tgts :: "'s \<Rightarrow> 'c \<Rightarrow> 'o list"
    and invar :: "'s \<Rightarrow> bool"
  assumes invar_att: "invar s \<Longrightarrow> invar (att s obs c)"
    and invar_det: "invar s \<Longrightarrow> invar (det s obs c)"
    and tgts_att: "invar s \<Longrightarrow>
      mset (tgts (att s (Some ob) c) c') = (if c = c' then {#ob#} else {#}) + mset (tgts s c')"
    and tgts_det: "invar s \<Longrightarrow>
      mset (tgts (det s (Some ob) c) c') = filter_mset (\<lambda>x. c = c' \<longrightarrow> x \<noteq> ob) (mset (tgts s c'))"
begin

lemma attached_is_target: "invar s \<Longrightarrow> ob \<in> set (tgts (att s (Some ob) c) c)"
  using tgts_att [of s ob c c] by (simp flip: set_mset_mset)

lemma detached_no_target: "invar s \<Longrightarrow> ob \<notin> set (tgts (det s (Some ob) c) c)"
  using tgts_det [of s ob c c] by (simp flip: set_mset_mset)

lemma detach_frame:
  "invar s \<Longrightarrow> c' \<noteq> c \<or> ob' \<noteq> ob \<Longrightarrow>
   count (mset (tgts (det s (Some ob) c) c')) ob' = count (mset (tgts s c')) ob'"
  using tgts_det [of s ob c c'] by auto

lemma attach_detach_inverse:
  assumes "invar s" "ob \<notin> set (tgts s c)"
  shows "mset (tgts (det (att s (Some ob) c) (Some ob) c) c') = mset (tgts s c')"
proof -
  have "filter_mset (\<lambda>x. x \<noteq> ob) (mset (tgts s c)) = mset (tgts s c)"
    using assms(2) by (auto simp: filter_mset_eq_conv)
  then show ?thesis using assms by (auto simp: tgts_det tgts_att invar_att)
qed

end

interpretation cdo: subject attach detach targets observed_ok
  by unfold_locales
    (simp_all add: zip_detach targets_attach targets_detach observed_ok_def [of "attach _ _ _"],
     auto simp: observed_ok_def attach_def)

lemma co_targets_laws:
  "co_targets (co_attach l (Some ob) c) c' = co_targets l c' @ (if c = c' then [ob] else [])"
  "co_targets (co_detach l (Some ob) c) c' = filter (\<lambda>x. c = c' \<longrightarrow> x \<noteq> ob) (co_targets l c')"
  by (simp_all add: co_attach_def co_detach_def co_targets_def map_filter_append map_filter_detach)

interpretation cobs: subject co_attach co_detach co_targets "\<lambda>_. True"
  by unfold_locales (simp_all add: co_targets_laws)

text \<open>The other subject calls through every pointer of the condition; a null pointer is undefined.\<close>

definition no_null :: "('o, 'c) pair_list \<Rightarrow> 'c \<Rightarrow> bool" where
  "no_null l c \<longleftrightarrow> (c, None) \<notin> set l"

lemma co_notify_targets:
  "no_null l c \<Longrightarrow> co_notify update l c d (n, st) =
     Some (n \<or> co_targets l c \<noteq> [], fold (\<lambda>ob. update ob c d) (co_targets l c) st)"
proof (induction l arbitrary: n st)
  case (Cons p l)
  obtain co ob where p: "p = (co, ob)" by fastforce
  have "no_null l c" using Cons.prems by (simp add: no_null_def)
  moreover have "\<exists>x. ob = Some x" if "co = c" using Cons.prems that by (cases ob) (auto simp: no_null_def p)
  ultimately show ?case using Cons.IH by (auto simp: p co_targets_def List.map_filter_def)
qed (simp add: co_targets_def List.map_filter_def)

text \<open>
  C35. Both subjects deliver to exactly the attached observers of a condition: \<open>notify\<close> calls the
  update of each of them once per attachment and reports whether there was any, the one with two vectors
  newest first, the one with a list of pairs oldest first; an attached observer is reached for its
  condition, a detached one is not, and all other subscriptions, of other observers and for other
  conditions, stay as they are and in their order.
\<close>

theorem notify_delivers_exactly:
  fixes s :: "('o, 'c) observed" and l :: "('o, 'c) pair_list"
  assumes "observed_ok s" "no_null l c"
  shows "notify update s c d st = (targets s c \<noteq> [], fold (\<lambda>ob. update ob c d) (targets s c) st) \<and>
    targets (attach s (Some ob) c) c' = (if c = c' then [ob] else []) @ targets s c' \<and>
    targets (detach s (Some ob) c) c' = filter (\<lambda>x. c = c' \<longrightarrow> x \<noteq> ob) (targets s c') \<and>
    observed_ok (attach s (Some ob) c) \<and> observed_ok (detach s (Some ob) c) \<and>
    co_notify update l c d (False, st) = Some (co_targets l c \<noteq> [], fold (\<lambda>ob. update ob c d) (co_targets l c) st) \<and>
    co_targets (co_attach l (Some ob) c) c' = co_targets l c' @ (if c = c' then [ob] else []) \<and>
    co_targets (co_detach l (Some ob) c) c' = filter (\<lambda>x. c = c' \<longrightarrow> x \<noteq> ob) (co_targets l c') \<and>
    no_null (co_attach l (Some ob) c) c \<and> no_null (co_detach l (Some ob) c) c"
proof -
  have "observed_ok (attach s (Some ob) c)" "observed_ok (detach s (Some ob) c)"
    using assms(1) zip_detach(1) by (auto simp: observed_ok_def attach_def)
  moreover have "no_null (co_attach l (Some ob) c) c" "no_null (co_detach l (Some ob) c) c"
    using assms(2) by (simp_all add: no_null_def co_attach_def co_detach_def)
  ultimately show ?thesis
    by (simp add: notify_targets [OF assms(1)] co_notify_targets [OF assms(2)] targets_detach [OF assms(1)] targets_attach co_targets_laws)
qed

theorem notify_delivers_exactly_witness:
  "notify (\<lambda>ob c d log. log @ [(ob, d)]) \<lparr>observers = [Some 1, None, Some 2], conditions = [7, 7, 8]\<rparr>
     (7 :: nat) ''x'' [] = (True, [(1 :: nat, ''x'')]) \<and>
   co_notify (\<lambda>ob c d log. log @ [(ob, d)]) [(7, Some 1), (8, None), (7, Some 2)] (7 :: nat) ''x'' (False, []) =
     Some (True, [(1 :: nat, ''x''), (2, ''x'')])"
  using notify_delivers_exactly
    [of "\<lparr>observers = [Some 1, None, Some 2], conditions = [7, 7, 8]\<rparr> :: (nat, nat) observed" "[(7, Some 1), (8, None), (7, Some 2)]" 7
      "\<lambda>ob c d log. log @ [(ob, d)]" "''x''" "[]" 1 7]
  by (simp add: observed_ok_def targets_def co_targets_def no_null_def)

section \<open>Semaphore and the queueing observer\<close>

text \<open>\<open>p\<close> waits until the count is positive: \<open>None\<close> is the blocked call.\<close>

definition sem_v :: "int \<Rightarrow> int" where "sem_v n = n + 1"
definition sem_p :: "int \<Rightarrow> int option" where
  "sem_p n = (if n > 0 then Some (n - 1) else None)"

record 'd queue_observer =
  qo_semaphore :: int
  qo_data :: "'d list"

definition qo_init :: "'d queue_observer" where
  "qo_init = \<lparr>qo_semaphore = 0, qo_data = []\<rparr>"

definition qo_update :: "'d \<Rightarrow> 'd queue_observer \<Rightarrow> 'd queue_observer" where
  "qo_update d q = q\<lparr>qo_data := qo_data q @ [d], qo_semaphore := sem_v (qo_semaphore q)\<rparr>"

text \<open>\<^verbatim>\<open>updated()\<close>: \<open>None\<close> when it blocks; \<^verbatim>\<open>front()\<close> of an empty list would be undefined.\<close>

definition qo_updated :: "'d queue_observer \<Rightarrow> ('d \<times> 'd queue_observer) option" where
  "qo_updated q = (case sem_p (qo_semaphore q) of None \<Rightarrow> None
     | Some n \<Rightarrow> Some (hd (qo_data q), q\<lparr>qo_semaphore := n, qo_data := tl (qo_data q)\<rparr>))"

definition qo_ok :: "'d queue_observer \<Rightarrow> bool" where
  "qo_ok q \<longleftrightarrow> qo_semaphore q = int (length (qo_data q))"

text \<open>The interface a mailbox offers its consumer, with the queued items as its abstraction.\<close>

locale mailbox =
  fixes emp :: 'q
    and put :: "'d \<Rightarrow> 'q \<Rightarrow> 'q"
    and get :: "'q \<Rightarrow> ('d \<times> 'q) option"
    and items :: "'q \<Rightarrow> 'd list"
    and invar :: "'q \<Rightarrow> bool"
  assumes emp: "invar emp" "items emp = []"
    and put: "invar q \<Longrightarrow> invar (put d q)" "invar q \<Longrightarrow> items (put d q) = items q @ [d]"
    and get_None: "invar q \<Longrightarrow> get q = None \<longleftrightarrow> items q = []"
    and get_Some: "invar q \<Longrightarrow> get q = Some (d, q') \<Longrightarrow> invar q' \<and> items q = d # items q'"
begin

lemma items_fold_put: "invar q \<Longrightarrow> invar (fold put ds q) \<and> items (fold put ds q) = items q @ ds"
  by (induction ds arbitrary: q) (auto simp: put)

lemma fifo:
  assumes "invar q" "items q = []"
  shows "\<exists>q'. get (fold put (d # ds) q) = Some (d, q') \<and> items q' = ds"
proof -
  let ?f = "fold put (d # ds) q"
  have f: "invar ?f" "items ?f = d # ds" using items_fold_put [of q "d # ds"] assms by auto
  then obtain e q' where "get ?f = Some (e, q')" using get_None by fastforce
  then show ?thesis using get_Some [OF f(1)] f(2) by auto
qed

end

interpretation qo: mailbox qo_init qo_update qo_updated qo_data qo_ok
proof (unfold_locales, goal_cases)
  case (6 q d q')
  then show ?case
    by (cases "qo_data q") (auto simp: qo_updated_def qo_ok_def sem_p_def split: if_splits)
qed (auto simp: qo_init_def qo_ok_def qo_update_def sem_v_def qo_updated_def sem_p_def)

text \<open>
  The queueing observer is a FIFO mailbox: after any sequence of updates the semaphore equals
  the queue length, so \<open>updated\<close> blocks exactly on an empty queue, never pops an empty list, and
  returns the items in arrival order.
\<close>

theorem queue_observer_fifo:
  "qo_ok (fold qo_update ds qo_init) \<and> qo_data (fold qo_update ds qo_init) = ds \<and>
   (qo_updated (fold qo_update ds qo_init) = None \<longleftrightarrow> ds = []) \<and>
   (\<exists>q. qo_updated (fold qo_update (d # ds) qo_init) = Some (d, q) \<and> qo_data q = ds)"
  using qo.items_fold_put [OF qo.emp(1), of ds] qo.get_None [of "fold qo_update ds qo_init"]
    qo.fifo [OF qo.emp, of d ds]
  by (auto simp: qo.emp)

end
