(* ===== verification/Clock_Sync.thy ===== *)
theory Clock_Sync
  imports Wire_Format "HOL-Library.Signed_Division"
begin

text \<open>
  The system clock of \<^verbatim>\<open>clock.hpp\<close> and the clock synchronisation of \<^verbatim>\<open>ptp/\<close>: the master and the slave
  synchroniser as message handlers.  The clock is a count of nanoseconds since the epoch; every
  reading of it is a parameter, because time passes between two of them, and so is the outcome of
  the privileged system calls.  A handler returns its new state, the calls it makes of the protocol
  layer in order, and the exception it ends with, if any; what happened before the exception stays.
  A signed overflow is undefined in C++.  The model goes on with the value the target's two's
  complement arithmetic gives, and leaves a mark among the calls, \<open>Overflow\<close>: a run without the mark is
  a defined one.
\<close>

section \<open>What handlers ask of their environment\<close>

datatype call =
    Send address address bytes
  | Set_session_key u64
  | Unregister_nearby mac
  | Set_clock u64
  | Overflow

type_synonym 's outcome = "'s \<times> call list \<times> error option"

abbreviation returns :: "'s \<Rightarrow> call list \<Rightarrow> 's outcome" where
  "returns s cs \<equiv> (s, cs, None)"

abbreviation throws :: "'s \<Rightarrow> call list \<Rightarrow> string \<Rightarrow> 's outcome" where
  "throws s cs msg \<equiv> (s, cs, Some (Runtime_error msg))"

section \<open>The clock\<close>

definition getCurrentTimeMillis :: "int \<Rightarrow> int" where
  "getCurrentTimeMillis ns = ns sdiv 1000000"

definition getCurrentTimeSeconds :: "int \<Rightarrow> int" where
  "getCurrentTimeSeconds ns = ns sdiv 1000000000"

definition getCurrentTimeNanos :: "int \<Rightarrow> int" where
  "getCurrentTimeNanos ns = ns"

record timeval =
  tv_sec :: int
  tv_usec :: int

definition settimeofday :: "bool \<Rightarrow> timeval \<Rightarrow> int \<Rightarrow> int \<times> bool" where
  "settimeofday ok tv ns = (if ok then (tv_sec tv * 1000000000 + tv_usec tv * 1000, True) else (ns, False))"

definition gettimeofday :: "int \<Rightarrow> timeval" where
  "gettimeofday ns = \<lparr>tv_sec = ns div 1000000000, tv_usec = (ns mod 1000000000) div 1000\<rparr>"

definition setClockAbruptly :: "bool \<Rightarrow> u64 \<Rightarrow> int \<Rightarrow> int \<times> bool" where
  "setClockAbruptly ok new_time_ms ns =
     (let sec = new_time_ms div 1000; usec = (new_time_ms mod 1000) * 1000
      in settimeofday ok \<lparr>tv_sec = sint sec, tv_usec = sint usec\<rparr> ns)"

definition offset_timeval :: "int \<Rightarrow> timeval \<Rightarrow> timeval" where
  "offset_timeval offset_ms cur =
     (let sec = tv_sec cur + offset_ms sdiv 1000;
          usec = tv_usec cur + (offset_ms smod 1000) * 1000
      in if usec \<ge> 1000000 then \<lparr>tv_sec = sec + 1, tv_usec = usec - 1000000\<rparr>
         else if usec < 0 then \<lparr>tv_sec = sec - 1, tv_usec = usec + 1000000\<rparr>
         else \<lparr>tv_sec = sec, tv_usec = usec\<rparr>)"

definition setClockOffset :: "bool \<Rightarrow> bool \<Rightarrow> int \<Rightarrow> int \<Rightarrow> int \<times> bool" where
  "setClockOffset get_ok set_ok offset_ms ns =
     (if \<not> get_ok then (ns, False) else settimeofday set_ok (offset_timeval offset_ms (gettimeofday ns)) ns)"

text \<open>The random draws of the test helper are parameters: the magnitude and the direction bit.\<close>

definition desynchronize :: "bool \<Rightarrow> int \<Rightarrow> nat \<Rightarrow> int \<Rightarrow> int" where
  "desynchronize ok base direction ns =
     (let off = (if direction = 0 then - base else base)
      in fst (setClockAbruptly ok (word_of_int (getCurrentTimeMillis ns - off)) ns))"

lemma smod_1000_bound: "\<bar>(n::int) smod 1000\<bar> < 1000"
  using smod_int_range [of 1000 n] by auto

lemma gettimeofday_usec: "0 \<le> tv_usec (gettimeofday ns) \<and> tv_usec (gettimeofday ns) < 1000000"
proof -
  have "0 \<le> ns mod 1000000000" "ns mod 1000000000 < 1000000000" by simp_all
  then show ?thesis unfolding gettimeofday_def timeval.simps by linarith
qed

lemma gettimeofday_total: "tv_sec (gettimeofday ns) * 1000000 + tv_usec (gettimeofday ns) = ns div 1000"
proof -
  have "ns div 1000000000 * 1000000 + ns mod 1000000000 div 1000 = ns div 1000"
    using div_mult_mod_eq [of ns 1000000000] by linarith
  then show ?thesis by (simp add: gettimeofday_def)
qed

text \<open>
  Shifting the clock: the microsecond field handed to \<^verbatim>\<open>settimeofday\<close> is always in range, and the
  new time is the old one plus the offset, for positive and negative offsets of any size (the
  carry and borrow of the microseconds are right with the truncating division of C++).
\<close>

theorem setClockOffset_shifts:
  "0 \<le> tv_usec (offset_timeval off (gettimeofday ns)) \<and> tv_usec (offset_timeval off (gettimeofday ns)) < 1000000 \<and>
   tv_sec (offset_timeval off (gettimeofday ns)) * 1000000 + tv_usec (offset_timeval off (gettimeofday ns))
     = ns div 1000 + off * 1000 \<and>
   setClockOffset True True off ns = ((ns div 1000 + off * 1000) * 1000, True)"
proof -
  have m: "off sdiv 1000 * 1000 + off smod 1000 = off" "\<bar>off smod 1000\<bar> < 1000"
    by (rule sdiv_mult_smod_eq) (rule smod_1000_bound)
  let ?c = "gettimeofday ns" and ?t = "offset_timeval off (gettimeofday ns)"
  have r: "0 \<le> tv_usec ?t \<and> tv_usec ?t < 1000000"
    using gettimeofday_usec [of ns] m(2) by (auto simp: offset_timeval_def Let_def)
  have "tv_sec ?t * 1000000 + tv_usec ?t = tv_sec ?c * 1000000 + tv_usec ?c + (off sdiv 1000 * 1000 + off smod 1000) * 1000"
    by (simp add: offset_timeval_def Let_def algebra_simps)
  then have "tv_sec ?t * 1000000 + tv_usec ?t = ns div 1000 + off * 1000" unfolding m(1) gettimeofday_total .
  then show ?thesis using r by (auto simp: setClockOffset_def settimeofday_def)
qed

lemma sint_small: "uint w < 2 ^ 63 \<Longrightarrow> sint (w :: u64) = uint w"
proof -
  assume "uint w < 2 ^ 63"
  moreover have "- (2 ^ 63) \<le> uint w" by (rule order_trans [of _ 0]) simp_all
  ultimately have "signed_take_bit 63 (uint w) = uint w" by (intro signed_take_bit_int_eq_self)
  then show ?thesis by (simp add: sint_uint)
qed

lemma setClockAbruptly_ok:
  "setClockAbruptly True t ns = (uint t * 1000000, True)"
proof -
  have "uint (t div 1000) * 1000 + uint (t mod 1000) = uint t"
    by (simp add: uint_div_distrib uint_mod_distrib)
  moreover have "sint (t div 1000) = uint (t div 1000)"
  proof -
    have "uint t < 2 ^ 64" using uint_lt2p [of t] by simp
    then have "uint (t div 1000) < 2 ^ 63" by (simp add: uint_div_distrib)
    then show ?thesis by (simp add: sint_small)
  qed
  moreover have "uint (t mod 1000) < 1000" by (simp add: uint_mod_distrib)
  then have "uint ((t mod 1000) * 1000) = uint (t mod 1000) * 1000"
    using uint_mult_lem [of "t mod 1000" "1000 :: u64"] by simp
  moreover have "sint ((t mod 1000) * 1000) = uint ((t mod 1000) * 1000)"
    using \<open>uint (t mod 1000) < 1000\<close> calculation by (simp add: sint_small)
  ultimately show ?thesis by (simp add: setClockAbruptly_def settimeofday_def Let_def) 
qed

end
