(* ===== verification/Ptp_Sync.thy ===== *)
theory Ptp_Sync
  imports Clock_Sync
begin

text \<open>
  The clock synchronisation of \<^verbatim>\<open>ptp/\<close>: message layouts, the master and the slave synchroniser, the
  timer that drives the slave, and one complete exchange between the two over their serialised
  messages.  Timestamps are 64-bit; the offset is computed in 64-bit signed arithmetic, and where that
  overflows the handler's calls say so.
\<close>

section \<open>Messages\<close>

datatype sync_type = SYNC | DELAY_REQUEST | DELAY_RESPONSE | START

primrec sync_type_byte :: "sync_type \<Rightarrow> byte" where
  "sync_type_byte SYNC = 0"
| "sync_type_byte DELAY_REQUEST = 1"
| "sync_type_byte DELAY_RESPONSE = 2"
| "sync_type_byte START = 3"

definition sync_type_of :: "byte \<Rightarrow> sync_type option" where
  "sync_type_of b = (if b = 0 then Some SYNC else if b = 1 then Some DELAY_REQUEST
     else if b = 2 then Some DELAY_RESPONSE else if b = 3 then Some START else None)"

lemma sync_type_of_byte [simp]: "sync_type_of (sync_type_byte t) = Some t"
  by (cases t) (simp_all add: sync_type_of_def)

definition TIME_HEADER_SIZE :: nat where [wire_simps]: "TIME_HEADER_SIZE = 1"
definition TIMED_PAYLOAD_SIZE :: nat where [wire_simps]: "TIMED_PAYLOAD_SIZE = 9"

definition ptp_packet :: "u64 \<Rightarrow> sync_type \<Rightarrow> bytes \<Rightarrow> bytes" where
  "ptp_packet ts ty rest = seg_header_bytes \<lparr>seg_type = msg_type_byte PTP, seg_timestamp = ts\<rparr> @ sync_type_byte ty # rest"

definition payload_time :: "bytes \<Rightarrow> u64" where
  "payload_time p = le_word (read_at 1 8 p)"

section \<open>Master\<close>

text \<open>
  A payload is the memory behind the pointer the protocol passes; its size is a separate argument,
  which the protocol computes with wrap-around.  The master keeps no state; \<open>me\<close> is its external
  address and \<open>now\<close> its clock reading in milliseconds.
\<close>

definition master_receive_start :: "address \<Rightarrow> u64 \<Rightarrow> address \<Rightarrow> call list" where
  "master_receive_start me now src = [Send me src (ptp_packet now SYNC (le_bytes 8 now))]"

definition master_receive_delay_req :: "address \<Rightarrow> u64 \<Rightarrow> address \<Rightarrow> call list" where
  "master_receive_delay_req me now src = [Send me src (ptp_packet now DELAY_RESPONSE (le_bytes 8 now))]"

definition master_handle :: "address \<Rightarrow> u64 \<Rightarrow> bytes \<Rightarrow> nat \<Rightarrow> address \<Rightarrow> address \<Rightarrow> unit outcome" where
  "master_handle me now p n src dst =
     (if n < TIME_HEADER_SIZE then throws () [] ''PTP payload is too small to contain a header.''
      else case sync_type_of (p ! 0) of
        Some START \<Rightarrow> returns () (master_receive_start me now src)
      | Some DELAY_REQUEST \<Rightarrow> returns () (master_receive_delay_req me now src)
      | Some DELAY_RESPONSE \<Rightarrow> returns () []
      | Some SYNC \<Rightarrow> returns () []
      | None \<Rightarrow> throws () [] ''Unknown SyncType received when handling PTP message'')"

section \<open>Slave\<close>

datatype slave_state = SYNCHRONIZED | AWAITING_SYNC | AWAITING_DELAY_RESP

record slave =
  t1 :: u64
  t2 :: u64
  t3 :: u64
  t4 :: u64
  st :: slave_state

definition slave_init :: slave where
  "slave_init = \<lparr>t1 = 0, t2 = 0, t3 = 0, t4 = 0, st = SYNCHRONIZED\<rparr>"

definition request_synchronization :: "u64 \<Rightarrow> address \<Rightarrow> slave \<Rightarrow> slave outcome" where
  "request_synchronization now me s =
     (if st s = SYNCHRONIZED
      then returns (s\<lparr>st := AWAITING_SYNC\<rparr>) [Send me \<lparr>paddr = BROADCAST_ADDR, port = 0\<rparr> (ptp_packet now START [])]
      else returns s [])"

definition send_delay_req :: "u64 \<Rightarrow> address \<Rightarrow> address \<Rightarrow> slave \<Rightarrow> slave outcome" where
  "send_delay_req now me master s = returns (s\<lparr>t3 := now\<rparr>) [Send me master (ptp_packet now DELAY_REQUEST [])]"

definition receive_sync :: "u64 \<Rightarrow> u64 \<Rightarrow> bytes \<Rightarrow> address \<Rightarrow> address \<Rightarrow> slave \<Rightarrow> slave outcome" where
  "receive_sync now now' p src dst s =
     (if st s \<noteq> AWAITING_SYNC then throws s [] ''Slave was not waiting for SYNC''
      else send_delay_req now' dst src (s\<lparr>t1 := payload_time p, t2 := now, st := AWAITING_DELAY_RESP\<rparr>))"

text \<open>
  The four times are converted to \<^verbatim>\<open>int64_t\<close>.  The words carry the bits of the signed values: subtraction is
  that of words, the division truncates.
\<close>

definition s64_range :: "int \<Rightarrow> bool" where
  "s64_range i \<longleftrightarrow> - (2 ^ 63) \<le> i \<and> i < 2 ^ 63"

definition sub_ok :: "u64 \<Rightarrow> u64 \<Rightarrow> bool" where
  "sub_ok a b \<longleftrightarrow> s64_range (sint a - sint b)"

definition clock_offset :: "slave \<Rightarrow> u64" where
  "clock_offset s = word_of_int (sint ((t2 s - t1 s) - (t4 s - t3 s)) sdiv 2)"

definition sync_defined :: "u64 \<Rightarrow> slave \<Rightarrow> bool" where
  "sync_defined now s \<longleftrightarrow> sub_ok (t2 s) (t1 s) \<and> sub_ok (t4 s) (t3 s) \<and> sub_ok (t2 s - t1 s) (t4 s - t3 s) \<and>
     sub_ok now (clock_offset s)"

definition synchronize :: "u64 \<Rightarrow> bool \<Rightarrow> slave \<Rightarrow> slave outcome" where
  "synchronize now set_ok s =
     (let s' = s\<lparr>t1 := 0, t2 := 0, t3 := 0, t4 := 0\<rparr>;
          true_master_time_ms = now - clock_offset s;
          calls = (if sync_defined now s then [] else [Overflow]) @ [Set_clock true_master_time_ms]
      in if set_ok then returns s' calls else throws s' calls ''Failed to adjust clock skew'')"

definition receive_delay_resp :: "u64 \<Rightarrow> bool \<Rightarrow> bytes \<Rightarrow> slave \<Rightarrow> slave outcome" where
  "receive_delay_resp now set_ok p s =
     (if st s \<noteq> AWAITING_DELAY_RESP then throws s [] ''Slave was not waiting for DELAY_RESP''
      else case synchronize now set_ok (s\<lparr>t4 := payload_time p\<rparr>) of
        (s', cs, None) \<Rightarrow> returns (s'\<lparr>st := SYNCHRONIZED\<rparr>) cs
      | (s', cs, Some e) \<Rightarrow> (s', cs, Some e))"

definition slave_handle ::
  "u64 \<Rightarrow> u64 \<Rightarrow> bool \<Rightarrow> bytes \<Rightarrow> nat \<Rightarrow> address \<Rightarrow> address \<Rightarrow> slave \<Rightarrow> slave outcome" where
  "slave_handle now now' set_ok p n src dst s =
     (if n < TIME_HEADER_SIZE then throws s [] ''PTP payload is too small to contain a header.''
      else case sync_type_of (p ! 0) of
        Some SYNC \<Rightarrow> if n < TIMED_PAYLOAD_SIZE then throws s [] ''PTP SYNC payload size mismatch.''
                     else receive_sync now now' p src dst s
      | Some DELAY_RESPONSE \<Rightarrow> if n < TIMED_PAYLOAD_SIZE then throws s [] ''PTP DELAY_RESP payload size mismatch.''
                     else receive_delay_resp now set_ok p s
      | Some DELAY_REQUEST \<Rightarrow> returns s []
      | Some START \<Rightarrow> returns s []
      | None \<Rightarrow> throws s [] ''Unknown SyncType received when handling PTP message'')"

section \<open>The signed arithmetic\<close>

lemma sint_word_of_int_s64: "s64_range i \<Longrightarrow> sint (word_of_int i :: u64) = i"
  by (simp add: s64_range_def sint_sbintrunc' signed_take_bit_int_eq_self)

lemma sint_sub: "sub_ok a b \<Longrightarrow> sint (a - b) = sint a - sint b"
proof -
  assume "sub_ok a b"
  then have "sint (word_of_int (sint a - sint b) :: u64) = sint a - sint b"
    unfolding sub_ok_def by (rule sint_word_of_int_s64)
  moreover have "word_of_int (sint a - sint b) = a - b" by simp
  ultimately show "sint (a - b) = sint a - sint b" by (simp only:)
qed

text \<open>Times before \<open>2 ^ 62\<close> ms.\<close>

definition in_time :: "u64 \<Rightarrow> bool" where
  "in_time t \<longleftrightarrow> uint t < 2 ^ 62"

lemma early_sint: "in_time t \<Longrightarrow> 0 \<le> sint t \<and> sint t < 2 ^ 62 \<and> sint t = uint t"
  using sint_small [of t] by (simp add: in_time_def)

lemma sdiv_2_range: "- (2 * k) < x \<Longrightarrow> x < 2 * k \<Longrightarrow> - k \<le> x sdiv 2 \<and> (x::int) sdiv 2 \<le> k"
  using smod_int_range [of 2 x] mult_sdiv_smod_eq [of 2 x] by auto

text \<open>In time, nothing overflows, and the offset is that of the integers.\<close>

lemma early_offset:
  assumes "in_time (t1 s)" "in_time (t2 s)" "in_time (t3 s)" "in_time (t4 s)"
  shows "sint (clock_offset s) = ((sint (t2 s) - sint (t1 s)) - (sint (t4 s) - sint (t3 s))) sdiv 2"
    and "in_time now \<Longrightarrow> sync_defined now s"
proof -
  note E = assms [THEN early_sint]
  let ?x = "(sint (t2 s) - sint (t1 s)) - (sint (t4 s) - sint (t3 s))"
  have ok: "sub_ok (t2 s) (t1 s)" "sub_ok (t4 s) (t3 s)" using E by (auto simp: sub_ok_def s64_range_def)
  have x: "- (2 * 2 ^ 62) < ?x" "?x < 2 * 2 ^ 62" using E by auto
  then have ok2: "sub_ok (t2 s - t1 s) (t4 s - t3 s)" by (simp add: sub_ok_def s64_range_def sint_sub [OF ok(1)] sint_sub [OF ok(2)])
  have r: "- (2 ^ 62) \<le> ?x sdiv 2" "?x sdiv 2 \<le> 2 ^ 62" using sdiv_2_range [OF x] by simp_all
  then have "s64_range (?x sdiv 2)" by (simp add: s64_range_def)
  then show o: "sint (clock_offset s) = ?x sdiv 2"
    unfolding clock_offset_def sint_sub [OF ok2] sint_sub [OF ok(1)] sint_sub [OF ok(2)] by (rule sint_word_of_int_s64)
  assume "in_time now"
  then have "sub_ok now (clock_offset s)" using early_sint [of now] r by (simp add: sub_ok_def s64_range_def o)
  then show "sync_defined now s" using ok ok2 by (simp add: sync_defined_def)
qed

section \<open>Runs of a slave\<close>

text \<open>What can happen to a slave: a tick of the timer thread, or a message with its clock readings.\<close>

datatype slave_event =
    Tick u64 address
  | Message u64 u64 bool bytes nat address address

fun slave_step :: "slave_event \<Rightarrow> slave \<Rightarrow> slave outcome" where
  "slave_step (Tick now me) s = request_synchronization now me s"
| "slave_step (Message now now' ok p n src dst) s = slave_handle now now' ok p n src dst s"

primrec slave_run :: "slave_event list \<Rightarrow> slave \<Rightarrow> slave \<times> call list" where
  "slave_run [] s = (s, [])"
| "slave_run (e # es) s =
     (case slave_step e s of (s', cs, _) \<Rightarrow> case slave_run es s' of (s'', cs') \<Rightarrow> (s'', cs @ cs'))"

fun is_sync :: "slave_event \<Rightarrow> bool" where
  "is_sync (Message now now' ok p n src dst) \<longleftrightarrow> sync_type_of (p ! 0) = Some SYNC \<and> TIMED_PAYLOAD_SIZE \<le> n"
| "is_sync (Tick now me) \<longleftrightarrow> False"

lemma slave_step_awaiting:
  assumes "st s = AWAITING_SYNC" "\<not> is_sync e"
  shows "\<exists>err. slave_step e s = (s, [], err)"
  using assms
  by (cases e) (auto simp: request_synchronization_def slave_handle_def receive_delay_resp_def
      split: option.splits sync_type.splits)

text \<open>
  A slave that sent its START and never hears the SYNC stays out of step for good: however often
  the timer fires and whatever other messages arrive, it sends nothing and keeps waiting.
\<close>

theorem slave_lost_sync_stuck:
  assumes "st s = AWAITING_SYNC" "\<forall>e \<in> set es. \<not> is_sync e"
  shows "slave_run es s = (s, [])"
  using assms(2)
proof (induction es)
  case (Cons e es)
  then obtain err where "slave_step e s = (s, [], err)" using slave_step_awaiting [OF assms(1)] by auto
  then show ?case using Cons by simp
qed simp

theorem slave_lost_sync_stuck_witness:
  "slave_run [Tick 5 (local 0), Message 6 6 True [2] 1 (local 0) (local 0), Tick 7 (local 0)]
     (slave_init\<lparr>st := AWAITING_SYNC\<rparr>) = (slave_init\<lparr>st := AWAITING_SYNC\<rparr>, [])"
  by (rule slave_lost_sync_stuck) (simp_all add: sync_type_of_def)

text \<open>
  Exceptions: when the slave's handler throws, either nothing happened (state unchanged, no call
  made), or the clock could not be set; then the timestamps are gone and the slave still waits for a
  DELAY_RESPONSE, a state from which the timer never starts another round.
\<close>

theorem slave_exceptions:
  assumes "slave_handle now now' set_ok p n src dst s = (s', cs, Some e)"
  shows "s' = s \<and> cs = [] \<or>
    st s = AWAITING_DELAY_RESP \<and> \<not> set_ok \<and> s' = s\<lparr>t1 := 0, t2 := 0, t3 := 0, t4 := 0\<rparr> \<and>
      e = Runtime_error ''Failed to adjust clock skew'' \<and>
      request_synchronization n' me s' = (s', [], None)"
proof (cases "sync_type_of (p ! 0) = Some DELAY_RESPONSE \<and> TIMED_PAYLOAD_SIZE \<le> n \<and> st s = AWAITING_DELAY_RESP")
  case True
  then show ?thesis using assms
    by (auto simp: slave_handle_def receive_delay_resp_def synchronize_def Let_def wire_simps
        request_synchronization_def split: if_splits)
next
  case False
  then show ?thesis using assms
    by (auto simp: slave_handle_def receive_sync_def send_delay_req_def receive_delay_resp_def
        split: if_splits option.splits sync_type.splits)
qed

theorem slave_exceptions_witness:
  "\<exists>s' cs e. slave_handle 9 9 False (2 # le_bytes 8 (7 :: u64)) 9 (local 0) (local 0) (slave_init\<lparr>st := AWAITING_DELAY_RESP\<rparr>)
      = (s', cs, Some e) \<and> request_synchronization 10 (local 0) s' = (s', [], None) \<and> s' \<noteq> slave_init"
proof -
  let ?s = "slave_init\<lparr>st := AWAITING_DELAY_RESP\<rparr>"
  obtain s' cs e where h: "slave_handle 9 9 False (2 # le_bytes 8 (7 :: u64)) 9 (local 0) (local 0) ?s = (s', cs, Some e)"
      "cs \<noteq> []"
    by (simp add: slave_handle_def sync_type_of_def wire_simps receive_delay_resp_def synchronize_def Let_def)
  from slave_exceptions [OF h(1), of 10 "local 0"] h(2)
  have "request_synchronization 10 (local 0) s' = (s', [], None)" "s' \<noteq> slave_init" by (auto simp: slave_init_def)
  with h(1) show ?thesis by (intro exI [of _ s'] exI [of _ cs] exI [of _ e] conjI)
qed

section \<open>One exchange\<close>

text \<open>
  The four messages between a slave at \<open>me\<close> and a master at \<open>m\<close>, each handed to the other side as the
  segment payload the protocol layer extracts.  The clock readings are those of START, SYNC,
  reception of SYNC, DELAY_REQUEST, DELAY_RESPONSE and of the final adjustment; the result is the
  slave and the time its clock is set to.
\<close>

fun hand_over :: "'s outcome \<Rightarrow> (address \<Rightarrow> address \<Rightarrow> bytes \<Rightarrow> nat \<Rightarrow> 'a option) \<Rightarrow> 'a option" where
  "hand_over (s, [Send from to seg], None) f = f from to (drop SEG_HEADER_SIZE seg) (length seg - SEG_HEADER_SIZE)"
| "hand_over _ f = None"

fun clock_setting :: "slave outcome \<Rightarrow> (slave \<times> u64) option" where
  "clock_setting (s, [Set_clock v], None) = Some (s, v)"
| "clock_setting _ = None"

definition ptp_exchange ::
  "address \<Rightarrow> address \<Rightarrow> u64 \<Rightarrow> u64 \<Rightarrow> u64 \<Rightarrow> u64 \<Rightarrow> u64 \<Rightarrow> u64 \<Rightarrow> slave \<Rightarrow> (slave \<times> u64) option" where
  "ptp_exchange me m n0 m1 s2 s3 m4 now s =
     (let r0 = request_synchronization n0 me s
      in hand_over r0 (\<lambda>from to p n.
        hand_over (master_handle m m1 p n from to) (\<lambda>from' to' p' n'.
          let r1 = slave_handle s2 s3 True p' n' from' to' (fst r0)
          in hand_over r1 (\<lambda>from to p n.
            hand_over (master_handle m m4 p n from to) (\<lambda>from' to' p' n'.
              clock_setting (slave_handle now now True p' n' from' to' (fst r1)))))))"

lemma drop_ptp_packet [simp]:
  "drop SEG_HEADER_SIZE (ptp_packet ts ty rest) = sync_type_byte ty # rest"
  "length (ptp_packet ts ty rest) - SEG_HEADER_SIZE = Suc (length rest)"
  by (simp_all add: ptp_packet_def wire_simps)

lemma payload_time_eq [simp]: "payload_time (b # le_bytes 8 t) = t"
  by (simp add: payload_time_def read_at_def)

text \<open>The slave with the four times of an exchange.\<close>

abbreviation timed :: "u64 \<Rightarrow> u64 \<Rightarrow> u64 \<Rightarrow> u64 \<Rightarrow> slave" where
  "timed m1 s2 s3 m4 \<equiv> \<lparr>t1 = m1, t2 = s2, t3 = s3, t4 = m4, st = AWAITING_DELAY_RESP\<rparr>"

lemma ptp_exchange_eq:
  assumes "st s = SYNCHRONIZED" "sync_defined now (timed m1 s2 s3 m4)"
  shows "ptp_exchange me m n0 m1 s2 s3 m4 now s = Some (s\<lparr>t1 := 0, t2 := 0, t3 := 0, t4 := 0\<rparr>,
    now - clock_offset (timed m1 s2 s3 m4))"
  using assms
  by (simp add: ptp_exchange_def request_synchronization_def master_handle_def slave_handle_def
      master_receive_start_def master_receive_delay_req_def receive_sync_def send_delay_req_def
      receive_delay_resp_def synchronize_def Let_def TIME_HEADER_SIZE_def TIMED_PAYLOAD_SIZE_def
      sync_defined_def clock_offset_def del: sync_type_byte.simps)

lemma sdiv_2_error: "\<bar>2 * ((x::int) sdiv 2) - x\<bar> \<le> 1"
  using smod_int_range [of 2 x] mult_sdiv_smod_eq [of 2 x] by auto

lemma halved_error: "\<bar>2 * q - (2 * \<theta> + e)\<bar> \<le> 1 \<Longrightarrow> 2 * \<bar>u - q - (u - \<theta>)\<bar> \<le> \<bar>e\<bar> + (1::int)"
  by (cases "q \<le> \<theta>"; cases "0 \<le> e") (simp_all add: abs_if split: if_splits)

lemma uint_word_of_int_u64: "0 \<le> k \<Longrightarrow> k < 2 ^ 64 \<Longrightarrow> uint (word_of_int k :: u64) = k"
  by (simp add: uint_word_of_int_eq take_bit_int_eq_self)

lemma offset_accuracy:
  fixes m1 s2 s3 m4 now v :: u64
  assumes "uint s2 = uint m1 + d1 + \<theta>" "uint m4 = uint s3 - \<theta> + d2"
    and "uint m1 < 2 ^ 62" "uint s2 < 2 ^ 62" "uint s3 < 2 ^ 62" "uint m4 < 2 ^ 62" "uint now < 2 ^ 62"
    and "\<bar>\<theta>\<bar> + \<bar>d1 - d2\<bar> < uint now"
    and "v = now - clock_offset (timed m1 s2 s3 m4)"
  shows "sync_defined now (timed m1 s2 s3 m4) \<and>
    2 * \<bar>getCurrentTimeMillis (fst (setClockAbruptly True v ns)) - (uint now - \<theta>)\<bar> \<le> \<bar>d1 - d2\<bar> + 1 \<and>
    (d1 = d2 \<longrightarrow> getCurrentTimeMillis (fst (setClockAbruptly True v ns)) = uint now - \<theta>)"
proof -
  let ?x = "2 * \<theta> + (d1 - d2)"
  let ?w = "uint now - ?x sdiv 2"
  let ?s = "timed m1 s2 s3 m4"
  have early: "in_time (t1 ?s)" "in_time (t2 ?s)" "in_time (t3 ?s)" "in_time (t4 ?s)" "in_time now"
    using assms(3-7) by (simp_all add: in_time_def)
  note o = early_offset [OF early(1-4)] and E = early [THEN early_sint]
  have "((sint s2 - sint m1) - (sint m4 - sint s3)) = ?x" using E assms(1,2) by simp
  then have "sint (clock_offset ?s) = ?x sdiv 2" using o(1) by simp
  then have "sint v = ?w" using sint_sub [of "now" "clock_offset ?s"] o(2) [OF early(5)] E(5) assms(9)
    by (simp add: sync_defined_def)
  moreover have "word_of_int (sint v) = v" by simp
  ultimately have v: "v = word_of_int ?w" by (simp only:)
  have d: "\<bar>2 * (?x sdiv 2) - ?x\<bar> \<le> 1" by (rule sdiv_2_error)
  moreover have "(2::int) ^ 62 + 2 ^ 62 < 2 ^ 64" by simp
  ultimately have "0 \<le> ?w" "?w < 2 ^ 64" using assms(7,8) by linarith+
  then have "uint (word_of_int ?w :: u64) = ?w" by (rule uint_word_of_int_u64)
  then have "getCurrentTimeMillis (fst (setClockAbruptly True v ns)) = ?w"
    using \<open>0 \<le> ?w\<close> by (simp add: v setClockAbruptly_ok getCurrentTimeMillis_def signed_divide_int_eq_divide_int)
  moreover have "2 * \<bar>?w - (uint now - \<theta>)\<bar> \<le> \<bar>d1 - d2\<bar> + 1" by (rule halved_error [OF d])
  moreover have "d1 = d2 \<longrightarrow> ?w = uint now - \<theta>" using d by auto
  ultimately show ?thesis using o(2) [OF early(5)] by (simp only: simp_thms)
qed

text \<open>
  One exchange over the serialised messages always completes and brings the slave back to its
  initial state, and it sets the clock to the master's time up to half the asymmetry of the two
  delays plus the rounding of the division: if the slave is \<open>\<theta>\<close> ms ahead and the messages take \<open>d1\<close>
  and \<open>d2\<close> ms, twice the remaining error is at most \<open>|d1 - d2| + 1\<close>; with equal delays the clock is
  exact.
\<close>

theorem ptp_exchange_synchronizes:
  assumes "st s = SYNCHRONIZED"
    and "uint s2 = uint m1 + d1 + \<theta>" "uint m4 = uint s3 - \<theta> + d2"
    and "uint m1 < 2 ^ 62" "uint s2 < 2 ^ 62" "uint s3 < 2 ^ 62" "uint m4 < 2 ^ 62" "uint now < 2 ^ 62"
    and "\<bar>\<theta>\<bar> + \<bar>d1 - d2\<bar> < uint now"
  shows "\<exists>v. ptp_exchange me m n0 m1 s2 s3 m4 now s = Some (s\<lparr>t1 := 0, t2 := 0, t3 := 0, t4 := 0\<rparr>, v) \<and>
    2 * \<bar>getCurrentTimeMillis (fst (setClockAbruptly True v ns)) - (uint now - \<theta>)\<bar> \<le> \<bar>d1 - d2\<bar> + 1 \<and>
    (d1 = d2 \<longrightarrow> getCurrentTimeMillis (fst (setClockAbruptly True v ns)) = uint now - \<theta>)"
proof -
  note acc = offset_accuracy [OF assms(2-9) refl, of ns]
  then show ?thesis using ptp_exchange_eq [OF assms(1) conjunct1 [OF acc]] by blast
qed

theorem ptp_exchange_synchronizes_witness:
  "\<exists>v. ptp_exchange (local 1) (local 2) 0 1000 5004 5010 1014 5020 slave_init = Some (slave_init, v) \<and>
     getCurrentTimeMillis (fst (setClockAbruptly True v 0)) = 1020"
  using ptp_exchange_synchronizes [of slave_init 5004 1000 4 4000 1014 5010 4 5020 "local 1" "local 2" 0 0]
  by (auto simp: slave_init_def)

end
