(* ===== verification/Group_Handlers.thy ===== *)
theory Group_Handlers
  imports Clock_Sync
begin

text \<open>
  Group membership of \<^verbatim>\<open>groups/\<close>: the payload layouts, the member handler, and the leader handler with
  its two coupled tables, the multimap from expiry times to clients and the lookup table from
  clients to multimap iterators.  An iterator is the identity of its entry.  Storage the program
  never initialises is a parameter: the leader's member variable for the key and the padding bytes
  of the structs that are not packed.
\<close>

section \<open>Messages\<close>

datatype group_type = JOIN_REQUEST | KEY_DISTRIBUTION | NOTIFY_LEFT

primrec group_type_byte :: "group_type \<Rightarrow> byte" where
  "group_type_byte JOIN_REQUEST = 0"
| "group_type_byte KEY_DISTRIBUTION = 1"
| "group_type_byte NOTIFY_LEFT = 2"

definition KEY_PAYLOAD_SIZE :: nat where [wire_simps]: "KEY_PAYLOAD_SIZE = 9"
definition NOTIFY_LEFT_PAYLOAD_SIZE :: nat where [wire_simps]: "NOTIFY_LEFT_PAYLOAD_SIZE = 10"

definition group_segment :: "u64 \<Rightarrow> bytes \<Rightarrow> bytes" where
  "group_segment ts pl = seg_header_bytes \<lparr>seg_type = msg_type_byte GROUP, seg_timestamp = ts\<rparr> @ pl"

definition address_image :: "address \<Rightarrow> bytes" where
  "address_image a = mac_bytes (paddr a) @ le_bytes 2 (port a)"

definition all_stations :: address where
  "all_stations = \<lparr>paddr = BROADCAST_ADDR, port = 0\<rparr>"

section \<open>Member\<close>

definition member_handle :: "bytes \<Rightarrow> nat \<Rightarrow> address \<Rightarrow> call list" where
  "member_handle p n from =
     (if p ! 0 = group_type_byte KEY_DISTRIBUTION then
        (if n < KEY_PAYLOAD_SIZE then [] else [Set_session_key (le_word (read_at 1 8 p))])
      else if p ! 0 = group_type_byte NOTIFY_LEFT then
        (if n < NOTIFY_LEFT_PAYLOAD_SIZE then [] else [Unregister_nearby (mac_of (read_at 2 6 p))])
      else [])"

definition member_notify_location_change :: "u64 \<Rightarrow> address \<Rightarrow> call list" where
  "member_notify_location_change now me =
     [Send me all_stations (group_segment now [group_type_byte JOIN_REQUEST])]"

section \<open>Leader\<close>

record timer =
  tm_id :: nat
  expiry :: nat
  tm_client :: address

record leader =
  ld_session_key :: u64
  clients_timeout :: "timer list"
  client_lookup :: "address \<rightharpoonup> nat"
  next_id :: nat

definition TIMEOUT_MS :: nat where "TIMEOUT_MS = 10"

definition leader_init :: "u64 \<Rightarrow> u64 \<Rightarrow> leader outcome" where
  "leader_init junk key = returns \<lparr>ld_session_key = junk, clients_timeout = [], client_lookup = Map.empty, next_id = 0\<rparr>
     [Set_session_key key]"

text \<open>\<^verbatim>\<open>emplace\<close> puts an entry behind all entries with the same key.\<close>

definition emplace :: "timer \<Rightarrow> timer list \<Rightarrow> timer list" where
  "emplace x ts = takeWhile (\<lambda>y. expiry y \<le> expiry x) ts @ x # dropWhile (\<lambda>y. expiry y \<le> expiry x) ts"

definition erase_timer :: "nat \<Rightarrow> timer list \<Rightarrow> timer list" where
  "erase_timer i ts = filter (\<lambda>y. tm_id y \<noteq> i) ts"

definition heartbeat_update :: "nat \<Rightarrow> address \<Rightarrow> leader \<Rightarrow> leader" where
  "heartbeat_update now client l =
     (let ts = (case client_lookup l client of Some i \<Rightarrow> erase_timer i (clients_timeout l) | None \<Rightarrow> clients_timeout l);
          x = \<lparr>tm_id = next_id l, expiry = now + TIMEOUT_MS, tm_client = client\<rparr>
      in l\<lparr>clients_timeout := emplace x ts, client_lookup := (client_lookup l)(client \<mapsto> next_id l),
           next_id := Suc (next_id l)\<rparr>)"

definition send_key :: "u64 \<Rightarrow> address \<Rightarrow> address \<Rightarrow> leader \<Rightarrow> call list" where
  "send_key now_ns me client l =
     [Send me client (group_segment now_ns (group_type_byte KEY_DISTRIBUTION # le_bytes 8 (ld_session_key l)))]"

definition leader_handle :: "nat \<Rightarrow> u64 \<Rightarrow> address \<Rightarrow> bytes \<Rightarrow> nat \<Rightarrow> address \<Rightarrow> leader \<Rightarrow> leader outcome" where
  "leader_handle now now_ns me p n from l =
     (if p ! 0 = group_type_byte JOIN_REQUEST
      then let l' = heartbeat_update now from l in returns l' (send_key now_ns me from l')
      else returns l [])"

text \<open>
  The segment is not packed: the compiler pads the nine-byte header to an even offset and the type
  byte of the payload likewise.  The member field keeps the zero address of its constructor.
\<close>

definition notify_left_segment :: "byte \<Rightarrow> byte \<Rightarrow> u64 \<Rightarrow> bytes" where
  "notify_left_segment pad1 pad2 now =
     seg_header_bytes \<lparr>seg_type = msg_type_byte GROUP, seg_timestamp = now\<rparr> @
     pad1 # group_type_byte NOTIFY_LEFT # pad2 # address_image \<lparr>paddr = LOCAL_ADDR, port = 0\<rparr>"

definition send_notify_left :: "byte \<Rightarrow> byte \<Rightarrow> u64 \<Rightarrow> address \<Rightarrow> address \<Rightarrow> call list" where
  "send_notify_left pad1 pad2 now me client = [Send me all_stations (notify_left_segment pad1 pad2 now)]"

text \<open>
  One turn of the inner loop of \<^verbatim>\<open>monitor_loop\<close>.  The lock is released while the broadcast is sent;
  \<open>hbs\<close> are the heartbeats that slip in.  \<open>None\<close> is the undefined behaviour of erasing through an
  iterator a heartbeat has invalidated.
\<close>

definition expire_first :: "byte \<Rightarrow> byte \<Rightarrow> u64 \<Rightarrow> address \<Rightarrow> (nat \<times> address) list \<Rightarrow> leader \<Rightarrow> (leader \<times> call list) option" where
  "expire_first pad1 pad2 now me hbs l = (case clients_timeout l of [] \<Rightarrow> Some (l, [])
     | x # _ \<Rightarrow>
         (let l' = fold (\<lambda>(t, c). heartbeat_update t c) hbs l
          in if tm_id x \<notin> tm_id ` set (clients_timeout l') then None
             else Some (l'\<lparr>client_lookup := (client_lookup l')(tm_client x := None),
                    clients_timeout := erase_timer (tm_id x) (clients_timeout l')\<rparr>,
                  send_notify_left pad1 pad2 now me (tm_client x))))"

text \<open>
  The loop; \<open>hbs n\<close> are the heartbeats that come in the window of the turn with fuel \<open>n\<close>.  Without any it is
  the undisturbed sweep; the theory of the monitor thread lets them come at any point.
\<close>

fun expire_loop ::
  "(nat \<Rightarrow> (nat \<times> address) list) \<Rightarrow> nat \<Rightarrow> nat \<Rightarrow> byte \<Rightarrow> byte \<Rightarrow> u64 \<Rightarrow> address \<Rightarrow> leader \<Rightarrow> (leader \<times> call list) option" where
  "expire_loop hbs 0 now pad1 pad2 ms me l = None"
| "expire_loop hbs (Suc fuel) now pad1 pad2 ms me l =
     (if clients_timeout l \<noteq> [] \<and> expiry (hd (clients_timeout l)) \<le> now
      then case expire_first pad1 pad2 ms me (hbs fuel) l of None \<Rightarrow> None
        | Some (l', cs) \<Rightarrow>
            (case expire_loop hbs fuel now pad1 pad2 ms me l' of None \<Rightarrow> None | Some (l'', cs') \<Rightarrow> Some (l'', cs @ cs'))
      else Some (l, []))"

section \<open>The membership invariant\<close>

definition leader_ok :: "leader \<Rightarrow> bool" where
  "leader_ok l \<longleftrightarrow> sorted (map expiry (clients_timeout l)) \<and> distinct (map tm_id (clients_timeout l)) \<and>
     (\<forall>x \<in> set (clients_timeout l). tm_id x < next_id l) \<and>
     (\<forall>c i. client_lookup l c = Some i \<longleftrightarrow> (\<exists>x \<in> set (clients_timeout l). tm_id x = i \<and> tm_client x = c))"

text \<open>The abstract membership table: when each client expires.\<close>

definition members :: "leader \<Rightarrow> address \<rightharpoonup> nat" where
  "members l = map_of (map (\<lambda>x. (tm_client x, expiry x)) (clients_timeout l))"

lemma leader_okD:
  assumes "leader_ok l"
  shows "sorted (map expiry (clients_timeout l))" "distinct (map tm_id (clients_timeout l))"
    "x \<in> set (clients_timeout l) \<Longrightarrow> tm_id x < next_id l"
    "client_lookup l c = Some i \<longleftrightarrow> (\<exists>x \<in> set (clients_timeout l). tm_id x = i \<and> tm_client x = c)"
  using assms unfolding leader_ok_def by blast+

lemma same_client:
  assumes "leader_ok l" "x \<in> set (clients_timeout l)" "y \<in> set (clients_timeout l)" "tm_client x = tm_client y"
  shows "x = y"
proof -
  have "client_lookup l (tm_client x) = Some (tm_id x)" "client_lookup l (tm_client x) = Some (tm_id y)"
    using leader_okD(4) [OF assms(1)] assms(2-4) by auto
  then have "tm_id x = tm_id y" by simp
  then show ?thesis using leader_okD(2) [OF assms(1)] assms(2,3) by (simp add: distinct_map inj_on_def)
qed

lemma distinct_clients: "leader_ok l \<Longrightarrow> distinct (map tm_client (clients_timeout l))"
  using leader_okD(2) same_client by (fastforce simp: distinct_map inj_on_def)

lemma members_iff:
  assumes "leader_ok l"
  shows "members l c = Some e \<longleftrightarrow> (\<exists>x \<in> set (clients_timeout l). tm_client x = c \<and> expiry x = e)"
proof -
  have "distinct (map fst (map (\<lambda>x. (tm_client x, expiry x)) (clients_timeout l)))"
    using distinct_clients [OF assms] by (simp add: comp_def)
  then show ?thesis unfolding members_def by (subst map_of_eq_Some_iff) auto
qed

lemma members_eqI:
  assumes "leader_ok l" "\<And>c e. m c = Some e \<longleftrightarrow> (\<exists>x \<in> set (clients_timeout l). tm_client x = c \<and> expiry x = e)"
  shows "members l = m"
proof
  fix c show "members l c = m c"
    using members_iff [OF assms(1), of c] assms(2) [of c] by (metis not_Some_eq)
qed

lemma set_emplace [simp]: "set (emplace x ts) = insert x (set ts)"
proof -
  have "set ts = set (takeWhile (\<lambda>y. expiry y \<le> expiry x) ts @ dropWhile (\<lambda>y. expiry y \<le> expiry x) ts)" by simp
  then show ?thesis unfolding emplace_def by (metis Un_insert_right list.simps(15) set_append)
qed

lemma distinct_insert_at: "distinct (map f (a @ x # b)) \<longleftrightarrow> distinct (map f (a @ b)) \<and> f x \<notin> f ` set (a @ b)"
  by auto

lemma distinct_emplace: "distinct (map tm_id (emplace x ts)) \<longleftrightarrow> distinct (map tm_id ts) \<and> tm_id x \<notin> tm_id ` set ts"
  unfolding emplace_def distinct_insert_at takeWhile_dropWhile_id ..

lemma sorted_emplace: "sorted (map expiry ts) \<Longrightarrow> sorted (map expiry (emplace x ts))"
proof (induction ts)
  case (Cons t ts)
  then show ?case using set_emplace [of x ts] by (auto simp: emplace_def)
qed (simp add: emplace_def)

lemma heartbeat_ok:
  assumes ok: "leader_ok l"
  shows "leader_ok (heartbeat_update now c l)"
    and "members (heartbeat_update now c l) = (members l)(c \<mapsto> now + TIMEOUT_MS)"
proof -
  let ?l = "heartbeat_update now c l"
  let ?x = "\<lparr>tm_id = next_id l, expiry = now + TIMEOUT_MS, tm_client = c\<rparr>"
  define ts where "ts = (case client_lookup l c of Some i \<Rightarrow> erase_timer i (clients_timeout l) | None \<Rightarrow> clients_timeout l)"
  have set_ts: "set ts = {x \<in> set (clients_timeout l). tm_client x \<noteq> c}"
  proof (cases "client_lookup l c")
    case None
    then show ?thesis using leader_okD(4) [OF ok, of c] by (auto simp: ts_def)
  next
    case (Some i)
    then obtain y where y: "y \<in> set (clients_timeout l)" "tm_id y = i" "tm_client y = c"
      using leader_okD(4) [OF ok, of c i] by auto
    then have "tm_id x \<noteq> i \<longleftrightarrow> tm_client x \<noteq> c" if "x \<in> set (clients_timeout l)" for x
      using same_client [OF ok that y(1)] leader_okD(2) [OF ok] that by (auto simp: distinct_map inj_on_def)
    then show ?thesis using Some by (auto simp: ts_def erase_timer_def)
  qed
  have sub: "sorted (map expiry ts)" "distinct (map tm_id ts)"
    using leader_okD(1,2) [OF ok] by (auto simp: ts_def erase_timer_def sorted_filter distinct_map_filter split: option.splits)
  have eq: "?l = l\<lparr>clients_timeout := emplace ?x ts, client_lookup := (client_lookup l)(c \<mapsto> next_id l), next_id := Suc (next_id l)\<rparr>"
    by (simp add: heartbeat_update_def ts_def Let_def)
  have fresh: "tm_id x \<noteq> next_id l" if "x \<in> set ts" for x using leader_okD(3) [OF ok] set_ts that by fastforce
  have "client_lookup ?l d = Some i \<longleftrightarrow> (\<exists>x \<in> set (clients_timeout ?l). tm_id x = i \<and> tm_client x = d)" for d i
    using leader_okD(4) [OF ok, of d i] unfolding eq by (auto simp: set_ts)
  moreover have "next_id l \<notin> tm_id ` set ts" using fresh by (metis imageE)
  moreover have "tm_id x < Suc (next_id l)" if "x \<in> set ts" for x
    using leader_okD(3) [OF ok] set_ts that by (auto simp: less_SucI)
  ultimately show ok': "leader_ok ?l"
    using sorted_emplace [OF sub(1)] sub(2) unfolding leader_ok_def eq
    by (simp add: distinct_emplace)
  show "members ?l = (members l)(c \<mapsto> now + TIMEOUT_MS)"
    by (rule members_eqI [OF ok']) (auto simp: eq set_ts members_iff [OF ok])
qed

lemma expire_first_ok:
  assumes ok: "leader_ok l" and ts: "clients_timeout l = x # ts"
  shows "\<exists>l'. expire_first p q ms me [] l = Some (l', send_notify_left p q ms me (tm_client x)) \<and> leader_ok l' \<and>
    clients_timeout l' = ts \<and> members l' = (members l)(tm_client x := None)"
proof -
  let ?l = "l\<lparr>client_lookup := (client_lookup l)(tm_client x := None), clients_timeout := ts\<rparr>"
  have ids: "tm_id y \<noteq> tm_id x" if "y \<in> set ts" for y using leader_okD(2) [OF ok] imageI [OF that, of tm_id] by (auto simp: ts)
  have cs: "tm_client y \<noteq> tm_client x" if "y \<in> set ts" for y
    using distinct_clients [OF ok] imageI [OF that, of tm_client] by (auto simp: ts)
  have "erase_timer (tm_id x) (x # ts) = ts" using ids by (simp add: erase_timer_def filter_id_conv)
  then have e: "expire_first p q ms me [] l = Some (?l, send_notify_left p q ms me (tm_client x))"
    by (simp add: expire_first_def ts Let_def)
  have "client_lookup ?l d = Some i \<longleftrightarrow> (\<exists>y \<in> set ts. tm_id y = i \<and> tm_client y = d)" for d i
    using leader_okD(4) [OF ok, of d i] cs by (auto simp: ts)
  then have ok': "leader_ok ?l"
    using leader_okD(1-3) [OF ok] unfolding leader_ok_def by (simp add: ts)
  moreover have "members ?l = (members l)(tm_client x := None)"
    using cs by (intro members_eqI [OF ok']) (auto simp: members_iff [OF ok] ts)
  ultimately show ?thesis using e by auto
qed

lemma restrict_map_upd_late:
  assumes "m a = Some e0" "\<not> now < (e0::nat)"
  shows "(m(a := None)) |` {c. \<forall>e. (m(a := None)) c = Some e \<longrightarrow> now < e} = m |` {c. \<forall>e. m c = Some e \<longrightarrow> now < e}"
proof
  fix c show "((m(a := None)) |` {c. \<forall>e. (m(a := None)) c = Some e \<longrightarrow> now < e}) c = (m |` {c. \<forall>e. m c = Some e \<longrightarrow> now < e}) c"
    using assms by (cases "c = a") (auto simp: restrict_map_def)
qed

lemma expire_loop_ok:
  assumes "leader_ok l" "length (clients_timeout l) < fuel"
  shows "\<exists>l' cs. expire_loop (\<lambda>_. []) fuel now p q ms me l = Some (l', cs) \<and> leader_ok l' \<and>
    members l' = members l |` {c. \<forall>e. members l c = Some e \<longrightarrow> now < e} \<and>
    length cs = length (filter (\<lambda>x. expiry x \<le> now) (clients_timeout l))"
  using assms
proof (induction fuel arbitrary: l)
  case (Suc fuel)
  show ?case
  proof (cases "clients_timeout l \<noteq> [] \<and> expiry (hd (clients_timeout l)) \<le> now")
    case False
    have late: "now < expiry x" if "x \<in> set (clients_timeout l)" for x
      using False that leader_okD(1) [OF Suc.prems(1)] by (cases "clients_timeout l") auto
    then have "now < e" if "members l c = Some e" for c e
      using that late unfolding members_iff [OF Suc.prems(1)] by auto
    then have "{c. \<forall>e. members l c = Some e \<longrightarrow> now < e} = UNIV" by blast
    moreover have "filter (\<lambda>x. expiry x \<le> now) (clients_timeout l) = []" using late by (simp add: filter_empty_conv not_le)
    moreover have "expire_loop (\<lambda>_. []) (Suc fuel) now p q ms me l = Some (l, [])" using False by auto
    ultimately show ?thesis using Suc.prems(1) by (simp only:) simp
  next
    case True
    then obtain x ts where ts: "clients_timeout l = x # ts" and x: "expiry x \<le> now" by (cases "clients_timeout l") auto
    obtain l1 where l1: "expire_first p q ms me [] l = Some (l1, send_notify_left p q ms me (tm_client x))"
        "leader_ok l1" "clients_timeout l1 = ts" "members l1 = (members l)(tm_client x := None)"
      using expire_first_ok [OF Suc.prems(1) ts] by blast
    have "length (clients_timeout l1) < fuel" using Suc.prems(2) ts l1(3) by simp
    then obtain l2 cs where l2: "expire_loop (\<lambda>_. []) fuel now p q ms me l1 = Some (l2, cs)" "leader_ok l2"
        "members l2 = members l1 |` {c. \<forall>e. members l1 c = Some e \<longrightarrow> now < e}"
        "length cs = length (filter (\<lambda>x. expiry x \<le> now) ts)"
      using Suc.IH [OF l1(2)] l1(3) by auto
    have "members l (tm_client x) = Some (expiry x)" using members_iff [OF Suc.prems(1)] ts by auto
    then have "members l2 = members l |` {c. \<forall>e. members l c = Some e \<longrightarrow> now < e}"
      unfolding l2(3) l1(4) by (rule restrict_map_upd_late) (use x in simp)
    then show ?thesis using True l1(1) l2 ts x by (simp add: send_notify_left_def)
  qed
qed simp

lemma sorted_late:
  "sorted (map expiry (x # xs)) \<Longrightarrow> now < expiry x \<Longrightarrow> y \<in> set (x # xs) \<Longrightarrow> now < expiry y"
  by auto

text \<open>The loop turns exactly once for every timer that has run out, and needs one more test to stop.\<close>

lemma expire_loop_exact:
  assumes "leader_ok l" "clients_timeout l = xs"
  shows "\<exists>l'. leader_ok l' \<and> clients_timeout l' = filter (\<lambda>x. now < expiry x) xs \<and>
    (\<forall>fuel. expire_loop (\<lambda>_. []) fuel now p q ms me l =
       (if fuel \<le> length (filter (\<lambda>x. expiry x \<le> now) xs) then None
        else Some (l', concat (map (\<lambda>x. send_notify_left p q ms me (tm_client x)) (filter (\<lambda>x. expiry x \<le> now) xs)))))"
  using assms
proof (induction xs arbitrary: l)
  case Nil
  have "expire_loop (\<lambda>_. []) fuel now p q ms me l = (if fuel \<le> 0 then None else Some (l, []))" for fuel
    using Nil.prems(2) by (cases fuel) auto
  then show ?case using Nil.prems by (intro exI [of _ l]) simp
next
  case (Cons x xs)
  show ?case
  proof (cases "expiry x \<le> now")
    case True
    obtain l1 where l1: "expire_first p q ms me [] l = Some (l1, send_notify_left p q ms me (tm_client x))"
        "leader_ok l1" "clients_timeout l1 = xs"
      using expire_first_ok [OF Cons.prems] by blast
    from Cons.IH [OF l1(2,3)] obtain l' where l': "leader_ok l'" "clients_timeout l' = filter (\<lambda>x. now < expiry x) xs"
        "\<And>fuel. expire_loop (\<lambda>_. []) fuel now p q ms me l1 = (if fuel \<le> length (filter (\<lambda>x. expiry x \<le> now) xs) then None
          else Some (l', concat (map (\<lambda>x. send_notify_left p q ms me (tm_client x)) (filter (\<lambda>x. expiry x \<le> now) xs))))"
      by blast
    have "expire_loop (\<lambda>_. []) fuel now p q ms me l = (if fuel \<le> Suc (length (filter (\<lambda>x. expiry x \<le> now) xs)) then None
        else Some (l', send_notify_left p q ms me (tm_client x) @
          concat (map (\<lambda>x. send_notify_left p q ms me (tm_client x)) (filter (\<lambda>x. expiry x \<le> now) xs))))" for fuel
      using True Cons.prems(2) l1(1) l'(3) by (cases fuel) auto
    then show ?thesis using l'(1,2) True by (intro exI [of _ l']) simp
  next
    case False
    have late: "now < expiry y" if "y \<in> set (x # xs)" for y
      using sorted_late [OF _ _ that] leader_okD(1) [OF Cons.prems(1)] Cons.prems(2) False by simp
    have e: "filter (\<lambda>x. expiry x \<le> now) (x # xs) = []" "filter (\<lambda>x. now < expiry x) (x # xs) = x # xs"
      using late by (auto simp only: filter_empty_conv filter_id_conv not_le)
    have "expire_loop (\<lambda>_. []) fuel now p q ms me l = (if fuel \<le> 0 then None else Some (l, []))" for fuel
      using False Cons.prems(2) by (cases fuel) auto
    then show ?thesis unfolding e using Cons.prems by (intro exI [of _ l]) simp
  qed
qed

section \<open>Membership as an interface\<close>

text \<open>What the monitor and the heartbeats need of the table: a map from clients to expiry times.\<close>

locale membership =
  fixes beat :: "nat \<Rightarrow> 'c \<Rightarrow> 's \<Rightarrow> 's"
    and sweep :: "nat \<Rightarrow> 's \<Rightarrow> 's"
    and table :: "'s \<Rightarrow> 'c \<rightharpoonup> nat"
    and invar :: "'s \<Rightarrow> bool"
    and timeout :: nat
  assumes beat_invar: "invar s \<Longrightarrow> invar (beat now c s)"
    and beat_table: "invar s \<Longrightarrow> table (beat now c s) = (table s)(c \<mapsto> now + timeout)"
    and sweep_invar: "invar s \<Longrightarrow> invar (sweep now s)"
    and sweep_table: "invar s \<Longrightarrow> table (sweep now s) = table s |` {c. \<forall>e. table s c = Some e \<longrightarrow> now < e}"
begin

lemma beats_invar: "invar s \<Longrightarrow> invar (fold (\<lambda>(t, c). beat t c) hbs s)"
  by (induction hbs arbitrary: s) (auto intro: beat_invar)

lemma beats_other:
  "invar s \<Longrightarrow> c \<notin> snd ` set hbs \<Longrightarrow> table (fold (\<lambda>(t, c). beat t c) hbs s) c = table s c"
  by (induction hbs arbitrary: s) (auto simp: beat_invar beat_table)

lemma survives_sweep:
  assumes "invar s" "c \<notin> snd ` set hbs"
  shows "c \<in> dom (table (sweep now (fold (\<lambda>(t, c). beat t c) hbs (beat t c s)))) \<longleftrightarrow> now < t + timeout"
  using beats_other [OF beat_invar [OF assms(1)] assms(2)] beats_invar [OF beat_invar [OF assms(1)]]
  by (auto simp: sweep_table beat_table [OF assms(1)] restrict_map_def dom_def)

end

text \<open>A whole sweep; the fuel is one more than the number of timers, which suffices.\<close>

definition sweep :: "byte \<Rightarrow> byte \<Rightarrow> u64 \<Rightarrow> address \<Rightarrow> nat \<Rightarrow> leader \<Rightarrow> leader" where
  "sweep p q ms me now l = fst (the (expire_loop (\<lambda>_. []) (Suc (length (clients_timeout l))) now p q ms me l))"

interpretation group: membership heartbeat_update "sweep p q ms me" members leader_ok TIMEOUT_MS
proof
  fix l now assume "leader_ok l"
  from expire_loop_ok [OF this lessI, where now = now and p = p and q = q and ms = ms and me = me]
  show "leader_ok (sweep p q ms me now l)"
    and "members (sweep p q ms me now l) = members l |` {c. \<forall>e. members l c = Some e \<longrightarrow> now < e}"
    unfolding sweep_def by (auto simp del: expire_loop.simps)
qed (simp_all add: heartbeat_ok)

section \<open>Properties\<close>

text \<open>
  The two tables under a heartbeat, and under a sweep during which none arrives: the clients whose time has come
  are gone, with one broadcast for each.  (Sweeps with heartbeats in between are in \<^verbatim>\<open>Group_Monitor\<close>.)
\<close>

theorem undisturbed_sweep:
  assumes "leader_ok l"
  shows "leader_ok (heartbeat_update now c l) \<and>
    members (heartbeat_update now c l) = (members l)(c \<mapsto> now + TIMEOUT_MS) \<and>
    (\<exists>l' cs. expire_loop (\<lambda>_. []) (Suc (length (clients_timeout l))) now p q ms me l = Some (l', cs) \<and> leader_ok l' \<and>
       members l' = members l |` {c. \<forall>e. members l c = Some e \<longrightarrow> now < e} \<and>
       length cs = length (filter (\<lambda>x. expiry x \<le> now) (clients_timeout l)))"
  using heartbeat_ok [OF assms] expire_loop_ok [OF assms lessI] by blast

lemma leader_init_ok: "leader_ok (fst (leader_init junk key))"
  by (simp add: leader_init_def leader_ok_def)

theorem undisturbed_sweep_witness:
  "members (heartbeat_update 100 (local 3) (fst (leader_init 0 7))) (local 3) = Some 110"
  using undisturbed_sweep [OF leader_init_ok, of 100 "local 3" 0 7 0 0 0 "local 1"] by (simp add: TIMEOUT_MS_def)

text \<open>
  A member stays in the group exactly as long as its last heartbeat is less than ten milliseconds
  old, whatever the heartbeats of the others.
\<close>

theorem member_survives:
  assumes "leader_ok l" "c \<notin> snd ` set hbs"
  shows "c \<in> dom (members (sweep p q ms me now (fold (\<lambda>(t, c). heartbeat_update t c) hbs (heartbeat_update t c l))))
    \<longleftrightarrow> now < t + TIMEOUT_MS"
  using assms by (rule group.survives_sweep)

theorem member_survives_witness:
  "local 3 \<notin> dom (members (sweep 0 0 0 (local 1) 20
     (fold (\<lambda>(t, c). heartbeat_update t c) [(15, local 4)] (heartbeat_update 10 (local 3) (fst (leader_init 0 7))))))"
  using member_survives [OF leader_init_ok, of "local 3" "[(15, local 4)]" 0 0 0 "local 1" 20 10 0 7]
  by (simp add: TIMEOUT_MS_def local_def)

text \<open>
  A sweep of the monitor ends: its loop takes one turn for every client whose time has come, no
  more and no fewer.  It leaves the clients that are still in time in their order, and it has sent one
  NOTIFY_LEFT for each of the others.
\<close>

theorem monitor_sweep_terminates:
  assumes "leader_ok l"
  shows "\<exists>l' expired. expired = filter (\<lambda>x. expiry x \<le> now) (clients_timeout l) \<and>
    clients_timeout l' = filter (\<lambda>x. now < expiry x) (clients_timeout l) \<and> leader_ok l' \<and>
    (\<forall>fuel. expire_loop (\<lambda>_. []) fuel now p q ms me l = (if fuel \<le> length expired then None
       else Some (l', replicate (length expired) (Send me all_stations (notify_left_segment p q ms)))))"
proof -
  have "concat (map (\<lambda>x. send_notify_left p q ms me (tm_client x)) xs)
      = replicate (length xs) (Send me all_stations (notify_left_segment p q ms))" for xs
    by (induction xs) (simp_all add: send_notify_left_def)
  from expire_loop_exact [OF assms refl, of now p q ms me, unfolded this] show ?thesis by blast
qed

theorem monitor_sweep_terminates_witness:
  "\<exists>l'. expire_loop (\<lambda>_. []) 2 20 0 0 5 (local 1) (heartbeat_update 15 (local 4) (heartbeat_update 10 (local 3) (fst (leader_init 0 7))))
     = Some (l', [Send (local 1) all_stations (notify_left_segment 0 0 5)]) \<and> map tm_client (clients_timeout l') = [local 4]"
proof -
  let ?l = "heartbeat_update 15 (local 4) (heartbeat_update 10 (local 3) (fst (leader_init 0 7)))"
  have ok: "leader_ok ?l" by (intro heartbeat_ok(1) leader_init_ok)
  have ts: "map (\<lambda>x. (tm_client x, expiry x)) (clients_timeout ?l) = [(local 3, 20), (local 4, 25)]"
    by (simp add: heartbeat_update_def leader_init_def Let_def emplace_def TIMEOUT_MS_def local_def)
  then obtain x y where xy: "clients_timeout ?l = [x, y]" "tm_client x = local 3" "expiry x = 20" "tm_client y = local 4" "expiry y = 25"
    by auto
  obtain l' where "clients_timeout l' = [y]"
      "\<forall>fuel. expire_loop (\<lambda>_. []) fuel 20 0 0 5 (local 1) ?l = (if fuel \<le> 1 then None
        else Some (l', [Send (local 1) all_stations (notify_left_segment 0 0 5)]))"
    using monitor_sweep_terminates [OF ok, of 20 0 0 5 "local 1"] xy by (auto simp del: expire_loop.simps)
  then show ?thesis using xy(4) by (intro exI [of _ l']) (simp del: expire_loop.simps)
qed

text \<open>
  If the client being expired sends a heartbeat while the monitor has released its lock for the
  broadcast, the monitor erases through an invalidated iterator.
\<close>

theorem expiry_race:
  assumes "leader_ok l" "clients_timeout l = x # ts"
  shows "expire_first p q ms me [(t, tm_client x)] l = None"
proof -
  have x: "client_lookup l (tm_client x) = Some (tm_id x)" "tm_id x < next_id l"
    using leader_okD(3,4) [OF assms(1)] assms(2) by auto
  then show ?thesis using assms(2)
    by (auto simp: expire_first_def heartbeat_update_def Let_def erase_timer_def)
qed

theorem expiry_race_witness:
  "expire_first 0 0 5 (local 1) [(15, local 3)] (heartbeat_update 10 (local 3) (fst (leader_init 0 7))) = None"
  using expiry_race [OF heartbeat_ok(1) [OF leader_init_ok], of 10 "local 3" 0 7
      "\<lparr>tm_id = 0, expiry = 20, tm_client = local 3\<rparr>" "[]" 0 0 5 "local 1" 15]
  by (simp add: heartbeat_update_def leader_init_def emplace_def TIMEOUT_MS_def)

text \<open>
  Key distribution: a member that handles the leader's answer to its JOIN stores the value of the
  leader's member variable, which the constructor never sets, and not the key the leader generated
  and uses itself; the two agree only if the uninitialised memory happens to hold the key.
\<close>

theorem key_distribution_sends_junk:
  "\<exists>l. leader_init junk key = (l, [Set_session_key key], None) \<and>
     (\<exists>l' seg. leader_handle now ns me [group_type_byte JOIN_REQUEST] 1 from l = (l', [Send me from seg], None) \<and>
        from \<in> dom (members l') \<and>
        member_handle (drop SEG_HEADER_SIZE seg) (length seg - SEG_HEADER_SIZE) me = [Set_session_key junk])"
proof -
  let ?l = "fst (leader_init junk key)"
  let ?l' = "heartbeat_update now from ?l"
  have "ld_session_key ?l' = junk" by (simp add: heartbeat_update_def leader_init_def Let_def)
  then have "send_key ns me from ?l' = [Send me from (group_segment ns (group_type_byte KEY_DISTRIBUTION # le_bytes 8 junk))]"
    by (simp add: send_key_def)
  moreover have "from \<in> dom (members ?l')" using heartbeat_ok(2) [OF leader_init_ok] by simp
  moreover have "member_handle (group_type_byte KEY_DISTRIBUTION # le_bytes 8 junk) 9 me = [Set_session_key junk]"
    by (simp add: member_handle_def wire_simps read_at_def)
  ultimately show ?thesis
    by (intro exI [of _ ?l]) (simp add: leader_init_def leader_handle_def Let_def group_segment_def wire_simps)
qed

text \<open>
  What a member makes of the leader's NOTIFY_LEFT broadcast does not depend on the client that
  left: it reads the padding byte as the type, so it ignores the message, or drops a station that
  never existed, or even installs a session key taken from the misread bytes.
\<close>

theorem notify_left_is_misread:
  "send_notify_left p q ms me client = [Send me all_stations (notify_left_segment p q ms)] \<and>
   member_handle (drop SEG_HEADER_SIZE (notify_left_segment p q ms)) (length (notify_left_segment p q ms) - SEG_HEADER_SIZE) me
     = (if p = 2 then [Unregister_nearby (MAC q 0 0 0 0 0)]
        else if p = 1 then [Set_session_key (le_word (group_type_byte NOTIFY_LEFT # q # [0, 0, 0, 0, 0, 0]))]
        else [])"
  by (simp add: send_notify_left_def notify_left_segment_def member_handle_def wire_simps address_image_def
      LOCAL_ADDR_def read_at_def mac_of_def numeral_eq_Suc)

end
