(* ===== verification/Shm_Ring.thy ===== *)
theory Shm_Ring
  imports Shm_Services
begin

text \<open>
  The multi-writer, multi-reader circular buffer of \<^verbatim>\<open>ShmEngine\<close> as a step relation: every load and
  store of a shared counter, flag or registry entry, every semaphore operation and the frame copy
  of \<^verbatim>\<open>send\<close>, \<^verbatim>\<open>receive_zerocopy\<close>, \<^verbatim>\<open>release_frame\<close>, \<^verbatim>\<open>_register_client\<close> and
  \<^verbatim>\<open>_deregister_client\<close> is one step, and the steps of all processes interleave freely.  Two history
  variables record the arguments of the \<^verbatim>\<open>send\<close> that drew a ticket and the frames each client was
  handed; no step reads them.
\<close>

section \<open>State\<close>

record send_args =
  sa_src :: mac
  sa_dst :: mac
  sa_proto :: u16
  sa_data :: bytes

definition write_frame :: "send_args \<Rightarrow> frame \<Rightarrow> frame" where
  "write_frame a f = f\<lparr>
     fr_header := \<lparr>dhost = sa_dst a, shost = sa_src a, eth_type = htons (sa_proto a)\<rparr>,
     data_length := of_nat (length (sa_data a)),
     fr_data := memcpy_at 0 (sa_data a) (fr_data f)\<rparr>"

definition frame_holds :: "send_args \<Rightarrow> frame \<Rightarrow> bool" where
  "frame_holds a f \<longleftrightarrow>
     fr_header f = \<lparr>dhost = sa_dst a, shost = sa_src a, eth_type = htons (sa_proto a)\<rparr> \<and>
     data_length f = of_nat (length (sa_data a)) \<and> take (length (sa_data a)) (fr_data f) = sa_data a"

lemma frame_holds_write [simp]: "frame_holds a (write_frame a f)"
  by (simp add: frame_holds_def write_frame_def memcpy_at_def)

text \<open>Where a writer is in \<^verbatim>\<open>send\<close>; the components are its local variables.\<close>

datatype wpc =
    W_idle
  | W_claiming send_args
  | W_loaded send_args nat
  | W_stored send_args nat
  | W_scan send_args nat nat nat bool
  | W_seen send_args nat nat nat
  | W_blocked send_args nat
  | W_write send_args nat
  | W_frame send_args nat
  | W_seq send_args nat
  | W_collect nat nat "nat list"

text \<open>A client slot, the receiver thread of its process, and a view handed to that process.\<close>

datatype cpc = C_absent | C_activating | C_loaded nat | C_active

datatype rpc = R_wait | R_check

datatype vpc = V_none | V_held | V_my | V_scan nat nat nat | V_seen nat nat nat | V_store bool | V_signal bool | V_done

record ring = ipc +
  wr :: "nat \<Rightarrow> wpc"
  cl :: "nat \<Rightarrow> cpc"
  rd :: "nat \<Rightarrow> rpc"
  nxt :: "nat \<Rightarrow> nat"
  vw :: "nat \<Rightarrow> nat \<Rightarrow> vpc"
  sent :: "nat \<Rightarrow> send_args"
  got :: "nat \<Rightarrow> frame list"

abbreviation claim :: "ring \<Rightarrow> nat" where "claim r \<equiv> claim_sequence_id (blk r)"
abbreviation publish :: "ring \<Rightarrow> nat" where "publish r \<equiv> publish_sequence_id (blk r)"
abbreviation active :: "ring \<Rightarrow> nat \<Rightarrow> bool" where "active r c \<equiv> cl_active (client_registry (blk r) c)"
abbreviation last_read :: "ring \<Rightarrow> nat \<Rightarrow> nat" where
  "last_read r c \<equiv> last_read_sequence_id (client_registry (blk r) c)"
abbreviation slot :: "ring \<Rightarrow> nat \<Rightarrow> message_slot" where "slot r q \<equiv> buffer (blk r) (q mod BUFFER_SLOTS)"

definition upd_slot :: "nat \<Rightarrow> (message_slot \<Rightarrow> message_slot) \<Rightarrow> shared_block \<Rightarrow> shared_block" where
  "upd_slot q f b = b\<lparr>buffer := (buffer b)(q mod BUFFER_SLOTS := f (buffer b (q mod BUFFER_SLOTS)))\<rparr>"

definition ring_init :: "ipc \<Rightarrow> (nat \<Rightarrow> send_args) \<Rightarrow> ring" where
  "ring_init s g = ipc.extend s \<lparr>wr = (\<lambda>_. W_idle), cl = (\<lambda>_. C_absent), rd = (\<lambda>_. R_wait), nxt = (\<lambda>_. 1),
     vw = (\<lambda>_ _. V_none), sent = g, got = (\<lambda>_. [])\<rparr>"

text \<open>
  The steps that the correctness argument constrains are labelled: a store of \<open>last_read\<close>, the load
  of the publish counter by a registering client, and a system call failing after the ticket was
  drawn.
\<close>

datatype ring_label = Tau | Rel_store nat nat | Reg_load nat | Ticket_lost

section \<open>Steps of a writer\<close>

inductive send_step :: "nat \<Rightarrow> nat \<Rightarrow> ring_label \<Rightarrow> ring \<Rightarrow> ring \<Rightarrow> bool" for N w where
  claim_acquire: "w < N \<Longrightarrow> wr r w = W_idle \<Longrightarrow> sems r CLAIM_SEM > 0 \<Longrightarrow>
    send_step N w Tau r (r\<lparr>sems := (sems r)(CLAIM_SEM := sems r CLAIM_SEM - 1),
      wr := (wr r)(w := W_claiming a)\<rparr>)"
| claim_load: "wr r w = W_claiming a \<Longrightarrow>
    send_step N w Tau r (r\<lparr>wr := (wr r)(w := W_loaded a (claim r))\<rparr>)"
| claim_store: "wr r w = W_loaded a t \<Longrightarrow>
    send_step N w Tau r (r\<lparr>blk := (blk r)\<lparr>claim_sequence_id := t + 1\<rparr>,
      wr := (wr r)(w := W_stored a t), sent := (sent r)(t := a)\<rparr>)"
| claim_release: "wr r w = W_stored a t \<Longrightarrow>
    send_step N w Tau r (r\<lparr>sems := (sems r)(CLAIM_SEM := sems r CLAIM_SEM + 1),
      wr := (wr r)(w := W_scan a t 0 t False)\<rparr>)"
| release_fails: "wr r w = W_stored a t \<Longrightarrow>
    send_step N w Ticket_lost r (r\<lparr>wr := (wr r)(w := W_idle)\<rparr>)"
| scan_active: "wr r w = W_scan a t i slow act \<Longrightarrow> i < MAX_CLIENTS \<Longrightarrow> active r i \<Longrightarrow>
    send_step N w Tau r (r\<lparr>wr := (wr r)(w := W_seen a t i slow)\<rparr>)"
| scan_read: "wr r w = W_seen a t i slow \<Longrightarrow>
    send_step N w Tau r (r\<lparr>wr := (wr r)(w := W_scan a t (Suc i) (min slow (last_read r i)) True)\<rparr>)"
| scan_inactive: "wr r w = W_scan a t i slow act \<Longrightarrow> i < MAX_CLIENTS \<Longrightarrow> \<not> active r i \<Longrightarrow>
    send_step N w Tau r (r\<lparr>wr := (wr r)(w := W_scan a t (Suc i) slow act)\<rparr>)"
| scan_pass: "wr r w = W_scan a t MAX_CLIENTS slow act \<Longrightarrow> \<not> act \<or> t - slow < BUFFER_SLOTS \<Longrightarrow>
    send_step N w Tau r (r\<lparr>blk := (blk r)\<lparr>writer_is_blocked := False\<rparr>,
      wr := (wr r)(w := W_write a t)\<rparr>)"
| scan_block: "wr r w = W_scan a t MAX_CLIENTS slow act \<Longrightarrow> \<not> (\<not> act \<or> t - slow < BUFFER_SLOTS) \<Longrightarrow>
    send_step N w Tau r (r\<lparr>blk := (blk r)\<lparr>writer_is_blocked := True\<rparr>,
      wr := (wr r)(w := W_blocked a t)\<rparr>)"
| wait_done: "wr r w = W_blocked a t \<Longrightarrow> sems r WRITER_WAIT_SEM > 0 \<Longrightarrow>
    send_step N w Tau r (r\<lparr>sems := (sems r)(WRITER_WAIT_SEM := sems r WRITER_WAIT_SEM - 1),
      wr := (wr r)(w := W_scan a t 0 t False)\<rparr>)"
| wait_eintr: "wr r w = W_blocked a t \<Longrightarrow>
    send_step N w Tau r (r\<lparr>wr := (wr r)(w := W_scan a t 0 t False)\<rparr>)"
| wait_fails: "wr r w = W_blocked a t \<Longrightarrow>
    send_step N w Ticket_lost r (r\<lparr>blk := (blk r)\<lparr>writer_is_blocked := False\<rparr>, wr := (wr r)(w := W_idle)\<rparr>)"
| write_data: "wr r w = W_write a t \<Longrightarrow>
    send_step N w Tau r (r\<lparr>blk := upd_slot t (\<lambda>m. m\<lparr>slot_frame := write_frame a (slot_frame m)\<rparr>) (blk r),
      wr := (wr r)(w := W_frame a t)\<rparr>)"
| write_seq: "wr r w = W_frame a t \<Longrightarrow>
    send_step N w Tau r (r\<lparr>blk := upd_slot t (\<lambda>m. m\<lparr>sequence_id := t\<rparr>) (blk r), wr := (wr r)(w := W_seq a t)\<rparr>)"
| publish_cas: "wr r w = W_seq a t \<Longrightarrow> publish r = t - 1 \<Longrightarrow>
    send_step N w Tau r (r\<lparr>blk := (blk r)\<lparr>publish_sequence_id := t\<rparr>, wr := (wr r)(w := W_collect t 0 [])\<rparr>)"
| collect: "wr r w = W_collect t i ops \<Longrightarrow> i < MAX_CLIENTS \<Longrightarrow>
    send_step N w Tau r (r\<lparr>wr := (wr r)(w := W_collect t (Suc i) (if active r i then ops @ [i] else ops))\<rparr>)"
| signal: "wr r w = W_collect t MAX_CLIENTS ops \<Longrightarrow>
    send_step N w Tau r (r\<lparr>sems := (\<lambda>k. sems r k + count_list (map ((+) CONTROL_SEMS) ops) k),
      wr := (wr r)(w := W_idle)\<rparr>)"
| signal_fails: "wr r w = W_collect t MAX_CLIENTS ops \<Longrightarrow>
    send_step N w Tau r (r\<lparr>wr := (wr r)(w := W_idle)\<rparr>)"

section \<open>Steps of a client\<close>

text \<open>
  Registration and deregistration hold the registry semaphore: they start only when no other
  registration is in progress.
\<close>

definition registry_free :: "ring \<Rightarrow> bool" where
  "registry_free r \<longleftrightarrow> (\<forall>d<MAX_CLIENTS. cl r d = C_absent \<or> cl r d = C_active)"

inductive client_step :: "nat \<Rightarrow> ring_label \<Rightarrow> ring \<Rightarrow> ring \<Rightarrow> bool" for c where
  reg_activate: "registry_free r \<Longrightarrow> free_client_slot (blk r) = Some c \<Longrightarrow>
    client_step c Tau r (r\<lparr>blk := set_client c (\<lambda>s. s\<lparr>cl_active := True, process_id := pid\<rparr>) (blk r),
      cl := (cl r)(c := C_activating)\<rparr>)"
| reg_load: "cl r c = C_activating \<Longrightarrow>
    client_step c (Reg_load c) r (r\<lparr>cl := (cl r)(c := C_loaded (publish r))\<rparr>)"
| reg_store: "cl r c = C_loaded p \<Longrightarrow>
    client_step c Tau r (r\<lparr>blk := set_client c (\<lambda>s. s\<lparr>last_read_sequence_id := p\<rparr>) (blk r),
      cl := (cl r)(c := C_active), rd := (rd r)(c := R_wait), nxt := (nxt r)(c := 1),
      vw := (vw r)(c := (\<lambda>_. V_none)), got := (got r)(c := [])\<rparr>)"
| dereg: "cl r c = C_active \<Longrightarrow> registry_free r \<Longrightarrow>
    client_step c Tau r (r\<lparr>blk := set_client c (\<lambda>s. s\<lparr>cl_active := False\<rparr>) (blk r),
      cl := (cl r)(c := C_absent)\<rparr>)"
| take_token: "cl r c = C_active \<Longrightarrow> rd r c = R_wait \<Longrightarrow> sems r (CONTROL_SEMS + c) > 0 \<Longrightarrow>
    client_step c Tau r (r\<lparr>sems := (sems r)(CONTROL_SEMS + c := sems r (CONTROL_SEMS + c) - 1),
      rd := (rd r)(c := R_check)\<rparr>)"
| deliver: "cl r c = C_active \<Longrightarrow> rd r c = R_check \<Longrightarrow> sequence_id (slot r (nxt r c)) = nxt r c \<Longrightarrow>
    client_step c Tau r (r\<lparr>rd := (rd r)(c := R_wait), nxt := (nxt r)(c := Suc (nxt r c)),
      vw := (vw r)(c := (vw r c)(nxt r c := V_held)),
      got := (got r)(c := got r c @ [slot_frame (slot r (nxt r c))])\<rparr>)"
| mismatch: "cl r c = C_active \<Longrightarrow> rd r c = R_check \<Longrightarrow> sequence_id (slot r (nxt r c)) \<noteq> nxt r c \<Longrightarrow>
    client_step c Tau r (r\<lparr>rd := (rd r)(c := R_wait)\<rparr>)"
| rel_flag: "cl r c = C_active \<Longrightarrow> vw r c q = V_held \<Longrightarrow>
    client_step c Tau r (r\<lparr>vw := (vw r)(c := (vw r c)(q :=
      (if writer_is_blocked (blk r) then V_my else V_store False)))\<rparr>)"
| rel_my: "cl r c = C_active \<Longrightarrow> vw r c q = V_my \<Longrightarrow>
    client_step c Tau r (r\<lparr>vw := (vw r)(c := (vw r c)(q := V_scan (last_read r c) 0 (last_read r c + 1)))\<rparr>)"
| rel_scan: "cl r c = C_active \<Longrightarrow> vw r c q = V_scan my i slow \<Longrightarrow> i < MAX_CLIENTS \<Longrightarrow>
    client_step c Tau r (r\<lparr>vw := (vw r)(c := (vw r c)(q :=
      (if i \<noteq> c \<and> active r i then V_seen my i slow else V_scan my (Suc i) slow)))\<rparr>)"
| rel_read: "cl r c = C_active \<Longrightarrow> vw r c q = V_seen my i slow \<Longrightarrow>
    client_step c Tau r (r\<lparr>vw := (vw r)(c := (vw r c)(q := V_scan my (Suc i) (min slow (last_read r i))))\<rparr>)"
| rel_scanned: "cl r c = C_active \<Longrightarrow> vw r c q = V_scan my MAX_CLIENTS slow \<Longrightarrow>
    client_step c Tau r (r\<lparr>vw := (vw r)(c := (vw r c)(q := V_store (my \<le> slow)))\<rparr>)"
| rel_store: "cl r c = C_active \<Longrightarrow> vw r c q = V_store b \<Longrightarrow>
    client_step c (Rel_store c q) r (r\<lparr>blk := set_client c (\<lambda>s. s\<lparr>last_read_sequence_id := q\<rparr>) (blk r),
      vw := (vw r)(c := (vw r c)(q := V_signal b))\<rparr>)"
| rel_signal: "cl r c = C_active \<Longrightarrow> vw r c q = V_signal b \<Longrightarrow>
    client_step c Tau r (r\<lparr>sems := (if b then (sems r)(WRITER_WAIT_SEM := sems r WRITER_WAIT_SEM + 1)
      else sems r), vw := (vw r)(c := (vw r c)(q := V_done))\<rparr>)"
| rel_signal_fails: "cl r c = C_active \<Longrightarrow> vw r c q = V_signal True \<Longrightarrow>
    client_step c Tau r (r\<lparr>vw := (vw r)(c := (vw r c)(q := V_done))\<rparr>)"

text \<open>One step of the system, with at most \<open>N\<close> threads inside \<^verbatim>\<open>send\<close> at a time.\<close>

inductive ring_step :: "nat \<Rightarrow> ring_label \<Rightarrow> ring \<Rightarrow> ring \<Rightarrow> bool" for N where
  writer: "send_step N w l r r' \<Longrightarrow> ring_step N l r r'"
| client: "c < MAX_CLIENTS \<Longrightarrow> client_step c l r r' \<Longrightarrow> ring_step N l r r'"

text \<open>
  The usage the engine relies on: a process releases its frames in the order it was handed them,
  clients register before the first message is published, and no system call fails once a ticket
  was drawn.
\<close>

definition disciplined :: "ring_label \<Rightarrow> ring \<Rightarrow> bool" where
  "disciplined l r = (case l of Tau \<Rightarrow> True | Rel_store c q \<Rightarrow> q = Suc (last_read r c)
     | Reg_load c \<Rightarrow> publish r = 0 | Ticket_lost \<Rightarrow> False)"

inductive ring_reach :: "nat \<Rightarrow> ring \<Rightarrow> ring \<Rightarrow> bool" for N r0 where
  start: "ring_reach N r0 r0"
| step: "ring_reach N r0 r \<Longrightarrow> ring_step N l r r' \<Longrightarrow> disciplined l r \<Longrightarrow> ring_reach N r0 r'"

end
