(* ===== verification/Protocol_Stack.thy ===== *)
theory Protocol_Stack
  imports Nic_Model Crypto_Xor Observer_Subjects Ptp_Sync Group_Handlers Shm_Ring
begin

text \<open>
  The protocol handler of \<^verbatim>\<open>protocol.hpp\<close>: building and sending packets, routing between the local
  (shared-memory) and the external (raw-socket) interface, system messages, authentication of what
  comes from outside, and delivery to the communicators of the process.  A component's protocol is
  the one without an external interface.  What the protocol asks of its engines and communicators is
  a list of actions, in order; its own state is explicit.  Exceptions are values.
\<close>

section \<open>State and actions\<close>

datatype synchronizer = Slave slave | Master

datatype group_handler = Member | Leader leader

record 'o protocol =
  local_block :: shared_block
  external_nic :: "ext_nic option"
  crypto :: "provider option"
  synchronizer :: synchronizer
  group_handler :: group_handler
  port_observed :: "('o, u16) observed"
  type_observed :: "('o, teds_type) observed"

text \<open>
  \<open>Queue\<close> hands the buffer to a communicator, which frees it after reading; the two \<open>Free\<close> actions
  give the buffer back to an interface.  \<open>Undefined_overflow\<close> marks a signed overflow of a handler: what the
  program does from there on the C++ standard leaves open, and the model goes on as the target does.
\<close>

datatype 'o action =
    Local_send send_args
  | Remote_send send_args
  | Queue 'o frame
  | Free_local
  | Free_external
  | Clock_call u64
  | Undefined_overflow

type_synonym 'o effect = "'o action list \<times> error option"

text \<open>The readings of the clocks and the success of setting one, for one incoming message.\<close>

record env =
  now_ms :: u64
  now_ms' :: u64
  clock_ok :: bool
  now_ns :: u64
  steady_ms :: nat

section \<open>Sending\<close>

definition TYPE_BASED_ROUTING_PORT :: u16 where "TYPE_BASED_ROUTING_PORT = 0"

text \<open>
  The frame data of \<^verbatim>\<open>_send_frame\<close>: header, payload, MAC over both.  Sizes are \<^verbatim>\<open>unsigned int\<close>, so a
  payload size close to \<open>2 ^ 32\<close> wraps past the check; the copy is then out of bounds.
\<close>

datatype built = Built bytes | Too_large | Out_of_bounds | Failed error

definition build_packet :: "provider option \<Rightarrow> u64 \<Rightarrow> quadrant \<Rightarrow> u16 \<Rightarrow> u16 \<Rightarrow> bytes \<Rightarrow> u32 \<Rightarrow> built" where
  "build_packet c key loc sp dp mem n =
     (let total_size = of_nat PACKET_HEADER_SIZE + n + of_nat MAC_SIZE
      in if unat total_size > ETH_MTU then Too_large
         else if unat n > length mem \<or> unat n > PACKET_MTU then Out_of_bounds
         else
           let body = packet_header loc sp dp @ take (unat n) mem
           in case service_generate_mac c body (PACKET_HEADER_SIZE + unat n) key of
                Inl e \<Rightarrow> Failed e
              | Inr m \<Rightarrow> Built (body @ le_bytes 8 m))"

definition frame_args :: "address \<Rightarrow> address \<Rightarrow> bytes \<Rightarrow> send_args" where
  "frame_args from to d = \<lparr>sa_src = paddr from, sa_dst = paddr to, sa_proto = ETHERNET_PROTOCOL_NUMBER, sa_data = d\<rparr>"

text \<open>The two instances of \<^verbatim>\<open>_send_frame\<close>; \<open>None\<close> is undefined behaviour.\<close>

definition send_local_frame :: "'o protocol \<Rightarrow> address \<Rightarrow> address \<Rightarrow> bytes \<Rightarrow> u32 \<Rightarrow> 'o effect option" where
  "send_local_frame p from to mem n =
     (case build_packet (crypto p) (session_key (local_block p)) (location (local_block p)) (port from) (port to) mem n of
        Built d \<Rightarrow> Some ([Local_send (frame_args from to d)], None)
      | Too_large \<Rightarrow> Some ([], None)
      | Out_of_bounds \<Rightarrow> None
      | Failed e \<Rightarrow> Some ([], Some e))"

definition send_remote_frame :: "'o protocol \<Rightarrow> ext_nic \<Rightarrow> address \<Rightarrow> address \<Rightarrow> bytes \<Rightarrow> u32 \<Rightarrow> 'o effect option" where
  "send_remote_frame p x from to mem n =
     (case build_packet (crypto p) (session_key (local_block p)) (nic_quadrant x) (port from) (port to) mem n of
        Built d \<Rightarrow> Some ([Remote_send (frame_args from to d)], None)
      | Too_large \<Rightarrow> Some ([], None)
      | Out_of_bounds \<Rightarrow> None
      | Failed e \<Rightarrow> Some ([], Some e))"

definition protocol_send :: "'o protocol \<Rightarrow> address \<Rightarrow> address \<Rightarrow> bytes \<Rightarrow> u32 \<Rightarrow> 'o effect option" where
  "protocol_send p from to mem n = (case external_nic p of
     Some x \<Rightarrow>
       (if paddr to \<noteq> nic_address x \<and> paddr to \<noteq> LOCAL_ADDR
        then send_remote_frame p x from to mem n else send_local_frame p from to mem n)
   | None \<Rightarrow> send_local_frame p from to mem n)"

section \<open>Receiving into a message\<close>

text \<open>The size is an \<^verbatim>\<open>unsigned int\<close>, to which callers narrow their \<^verbatim>\<open>size_t\<close>.\<close>

definition protocol_receive :: "frame \<Rightarrow> u32 \<Rightarrow> address \<times> bytes" where
  "protocol_receive f sz =
     (let data_size = data_length f - of_nat PACKET_HEADER_SIZE - of_nat MAC_SIZE;
          n = unat (min sz data_size)
      in (\<lparr>paddr = shost (fr_header f), port = sport (fr_data f)\<rparr>, take n (packet_data (fr_data f))))"

section \<open>Delivery inside the process\<close>

definition queue_action :: "'o \<Rightarrow> 'c \<Rightarrow> frame \<Rightarrow> 'o action list \<Rightarrow> 'o action list" where
  "queue_action ob c f acts = acts @ [Queue ob f]"

definition notify_or_free :: "('o, 'c) observed \<Rightarrow> 'c \<Rightarrow> frame \<Rightarrow> 'o action list" where
  "notify_or_free s c f = (case notify queue_action s c f [] of (True, acts) \<Rightarrow> acts | (False, acts) \<Rightarrow> acts @ [Free_local])"

definition notify_communicator :: "'o protocol \<Rightarrow> u16 \<Rightarrow> frame \<Rightarrow> 'o action list" where
  "notify_communicator p pt f =
     (if pt = TYPE_BASED_ROUTING_PORT then
        (let seg = packet_data (fr_data f);
             t = extract_teds_type (read_seg_header seg) (drop SEG_HEADER_SIZE seg)
                   (data_length f - of_nat PACKET_HEADER_SIZE - of_nat MAC_SIZE - of_nat SEG_HEADER_SIZE)
         in if t \<noteq> INVALID then notify_or_free (type_observed p) t f else [Free_local])
      else notify_or_free (port_observed p) pt f)"

section \<open>Running the calls of a handler\<close>

definition run_call :: "call \<Rightarrow> 'o protocol \<Rightarrow> ('o protocol \<times> 'o effect) option" where
  "run_call c p = (case c of
     Send from to seg \<Rightarrow> map_option (\<lambda>e. (p, e)) (protocol_send p from to seg (of_nat (length seg)))
   | Set_session_key k \<Rightarrow> Some (p\<lparr>local_block := set_session_key k (local_block p)\<rparr>, [], None)
   | Unregister_nearby m \<Rightarrow> Some (p\<lparr>local_block := unregister_nearby_entity m (local_block p)\<rparr>, [], None)
   | Set_clock t \<Rightarrow> Some (p, [Clock_call t], None)
   | Overflow \<Rightarrow> Some (p, [Undefined_overflow], None))"

primrec run_calls :: "call list \<Rightarrow> 'o protocol \<Rightarrow> ('o protocol \<times> 'o effect) option" where
  "run_calls [] p = Some (p, [], None)"
| "run_calls (c # cs) p = (case run_call c p of None \<Rightarrow> None
     | Some (p', acts, Some e) \<Rightarrow> Some (p', acts, Some e)
     | Some (p', acts, None) \<Rightarrow> (case run_calls cs p' of None \<Rightarrow> None
         | Some (p'', acts', e) \<Rightarrow> Some (p'', acts @ acts', e)))"

definition external_address :: "ext_nic \<Rightarrow> address" where
  "external_address x = \<lparr>paddr = nic_address x, port = 0\<rparr>"

definition finish_handler :: "call list \<Rightarrow> error option \<Rightarrow> 'o protocol \<Rightarrow> ('o protocol \<times> 'o effect) option" where
  "finish_handler cs err p = (case run_calls cs p of None \<Rightarrow> None
     | Some (p', acts, Some e) \<Rightarrow> Some (p', acts, Some e)
     | Some (p', acts, None) \<Rightarrow> Some (p', acts, err))"

section \<open>System messages\<close>

definition handle_ptp_message ::
  "env \<Rightarrow> ext_nic \<Rightarrow> bytes \<Rightarrow> nat \<Rightarrow> address \<Rightarrow> address \<Rightarrow> 'o protocol \<Rightarrow> ('o protocol \<times> 'o effect) option" where
  "handle_ptp_message e x pl n from to p = (case synchronizer p of
     Slave s \<Rightarrow> (case slave_handle (now_ms e) (now_ms' e) (clock_ok e) pl n from to s of
        (s', cs, err) \<Rightarrow> finish_handler cs err (p\<lparr>synchronizer := Slave s'\<rparr>))
   | Master \<Rightarrow> (case master_handle (external_address x) (now_ms e) pl n from to of
        (_, cs, err) \<Rightarrow> finish_handler cs err p))"

definition handle_group_message ::
  "env \<Rightarrow> ext_nic \<Rightarrow> bytes \<Rightarrow> nat \<Rightarrow> address \<Rightarrow> 'o protocol \<Rightarrow> ('o protocol \<times> 'o effect) option" where
  "handle_group_message e x pl n from p = (case group_handler p of
     Member \<Rightarrow> finish_handler (member_handle pl n from) None p
   | Leader l \<Rightarrow> (case leader_handle (steady_ms e) (now_ns e) (external_address x) pl n from l of
        (l', cs, err) \<Rightarrow> finish_handler cs err (p\<lparr>group_handler := Leader l'\<rparr>)))"

text \<open>The result says whether the message was one for the system; its last call is never reached.\<close>

definition filter_system_messages ::
  "env \<Rightarrow> ext_nic \<Rightarrow> frame \<Rightarrow> address \<Rightarrow> address \<Rightarrow> 'o protocol \<Rightarrow> ('o protocol \<times> 'o effect \<times> bool) option" where
  "filter_system_messages e x f from to p =
     (if nic_address x = paddr to \<or> BROADCAST_ADDR = paddr to then
        (let seg = packet_data (fr_data f);
             segment_size = ucast (data_length f) - of_nat PACKET_HEADER_SIZE - of_nat MAC_SIZE :: u64;
             payload = drop SEG_HEADER_SIZE seg;
             payload_size = unat (segment_size - of_nat SEG_HEADER_SIZE)
         in case msg_type_of (seg_type (read_seg_header seg)) of
              Some PTP \<Rightarrow> map_option (\<lambda>(p', eff). (p', eff, True)) (handle_ptp_message e x payload payload_size from to p)
            | Some GROUP \<Rightarrow> map_option (\<lambda>(p', eff). (p', eff, True)) (handle_group_message e x payload payload_size from p)
            | _ \<Rightarrow> Some (p, ([], None), False))
      else Some (p, ([], None), False))"

section \<open>Incoming frames\<close>

definition payload_length :: "frame \<Rightarrow> u32" where
  "payload_length f = data_length f - of_nat PACKET_HEADER_SIZE - of_nat MAC_SIZE"

definition update_local :: "frame \<Rightarrow> 'o protocol \<Rightarrow> 'o effect option" where
  "update_local f p =
     (let dp = dport (fr_data f) in
      if dhost (fr_header f) = BROADCAST_ADDR then
        (let forwarded = (case external_nic p of
             Some x \<Rightarrow> protocol_send p \<lparr>paddr = nic_address x, port = sport (fr_data f)\<rparr>
                \<lparr>paddr = dhost (fr_header f), port = dp\<rparr> (packet_data (fr_data f)) (payload_length f)
           | None \<Rightarrow> Some ([], None))
         in case forwarded of None \<Rightarrow> None
            | Some (acts, Some err) \<Rightarrow> Some (acts, Some err)
            | Some (acts, None) \<Rightarrow>
                Some (acts @ (if dp = TYPE_BASED_ROUTING_PORT then notify_communicator p dp f else [Free_local]), None))
      else Some (notify_communicator p dp f, None))"

definition forward_inside :: "frame \<Rightarrow> address \<Rightarrow> 'o protocol \<Rightarrow> 'o effect option" where
  "forward_inside f from p =
     (if unat (data_length f) > length (fr_data f) then None
      else
        let n = unat (data_length f) - MAC_SIZE
        in case service_generate_mac (crypto p) (fr_data f) n (session_key (local_block p)) of
             Inl err \<Rightarrow> Some ([], Some err)
           | Inr expected \<Rightarrow>
               (if expected \<noteq> le_word (read_at n 8 (fr_data f)) then Some ([Free_external], None)
                else case protocol_send p from \<lparr>paddr = LOCAL_ADDR, port = dport (fr_data f)\<rparr>
                       (packet_data (fr_data f)) (payload_length f) of
                  None \<Rightarrow> None
                | Some (acts, Some err) \<Rightarrow> Some (acts, Some err)
                | Some (acts, None) \<Rightarrow> Some (acts @ [Free_external], None)))"

definition update_external :: "env \<Rightarrow> ext_nic \<Rightarrow> frame \<Rightarrow> 'o protocol \<Rightarrow> ('o protocol \<times> 'o effect) option" where
  "update_external e x f p =
     (let from = \<lparr>paddr = shost (fr_header f), port = sport (fr_data f)\<rparr>;
          to = \<lparr>paddr = dhost (fr_header f), port = dport (fr_data f)\<rparr>;
          p1 = p\<lparr>local_block := register_nearby_entity (paddr from) (local_block p)\<rparr>
      in if unat (data_length f) < PACKET_HEADER_SIZE + MAC_SIZE then Some (p1, [Free_external], None)
         else case filter_system_messages e x f from to p1 of
           None \<Rightarrow> None
         | Some (p2, (acts, Some err), _) \<Rightarrow> Some (p2, acts @ [Free_external], None)
         | Some (p2, (acts, None), True) \<Rightarrow> Some (p2, acts @ [Free_external], None)
         | Some (p2, (acts, None), False) \<Rightarrow> map_option (\<lambda>eff. (p2, eff)) (forward_inside f from p2))"

section \<open>Changing quadrants, and initialisation\<close>

definition notify_location_change :: "u64 \<Rightarrow> ext_nic \<Rightarrow> 'o protocol \<Rightarrow> ('o protocol \<times> 'o effect) option" where
  "notify_location_change now x p = (case group_handler p of
     Member \<Rightarrow> finish_handler (member_notify_location_change now (external_address x)) None p
   | Leader l \<Rightarrow> Some (p, [], None))"

definition update_quadrant_change :: "u64 \<Rightarrow> ext_nic \<Rightarrow> 'o protocol \<Rightarrow> ('o protocol \<times> 'o effect) option" where
  "update_quadrant_change now x p = (case notify_location_change now x p of None \<Rightarrow> None
     | Some (p1, acts, Some err) \<Rightarrow> Some (p1, acts, Some err)
     | Some (p1, acts, None) \<Rightarrow>
         Some (p1\<lparr>local_block := set_location (nic_quadrant x) (reset_entities_nearby (local_block p1))\<rparr>,
               acts @ [Free_external], None))"

definition update_quadrant :: "u64 \<Rightarrow> quadrant \<Rightarrow> ext_nic \<Rightarrow> 'o protocol \<Rightarrow> ('o protocol \<times> 'o effect) option" where
  "update_quadrant now q x p =
     notify_location_change now (nic_set_location q x)
       (p\<lparr>local_block := set_location q (local_block p), external_nic := Some (nic_set_location q x)\<rparr>)"

datatype ptp_role = PTP_SLAVE | PTP_MASTER

datatype group_role = LEADER | MEMBER

definition init_clock_synchronization :: "ptp_role \<Rightarrow> 'o protocol \<Rightarrow> 'o protocol" where
  "init_clock_synchronization r p = p\<lparr>synchronizer := (case r of PTP_SLAVE \<Rightarrow> Slave slave_init | PTP_MASTER \<Rightarrow> Master)\<rparr>"

definition init_group_role :: "u64 \<Rightarrow> u64 \<Rightarrow> group_role \<Rightarrow> ext_nic \<Rightarrow> 'o protocol \<Rightarrow> ('o protocol \<times> 'o effect) option" where
  "init_group_role junk key r x p = (case r of
     MEMBER \<Rightarrow> Some (p\<lparr>group_handler := Member, external_nic := Some (x\<lparr>fixed_location := False\<rparr>)\<rparr>, [], None)
   | LEADER \<Rightarrow> (case leader_init junk key of (l, cs, err) \<Rightarrow>
        finish_handler cs err (p\<lparr>group_handler := Leader l, external_nic := Some (x\<lparr>fixed_location := True\<rparr>)\<rparr>)))"

definition init_gateway ::
  "u64 \<Rightarrow> u64 \<Rightarrow> u64 \<Rightarrow> quadrant \<Rightarrow> ptp_role \<Rightarrow> group_role \<Rightarrow> ext_nic \<Rightarrow> 'o protocol \<Rightarrow> ('o protocol \<times> 'o effect) option" where
  "init_gateway now junk key q pr gr x p =
     (case init_group_role junk key gr x (init_clock_synchronization pr (p\<lparr>external_nic := Some x\<rparr>)) of
        None \<Rightarrow> None
      | Some (p1, acts, Some err) \<Rightarrow> Some (p1, acts, Some err)
      | Some (p1, acts, None) \<Rightarrow>
          (case external_nic p1 of None \<Rightarrow> None
           | Some x1 \<Rightarrow> (case update_quadrant now q x1 p1 of None \<Rightarrow> None
               | Some (p2, acts', err) \<Rightarrow> Some (p2, acts @ acts', err))))"

definition init_component :: "'o protocol \<Rightarrow> 'o protocol" where
  "init_component p = p\<lparr>external_nic := None\<rparr>"

end
