(* ===== verification/Protocol_Props.thy ===== *)
theory Protocol_Props
  imports Protocol_Stack
begin

text \<open>
  What the protocol layer guarantees and what it does not: packets survive the way through two
  gateways, tampered ones stop at the second, buffers have one owner, components stay inside; and
  the system messages, which no MAC protects.
\<close>

section \<open>Packets\<close>

definition packet :: "u64 \<Rightarrow> quadrant \<Rightarrow> u16 \<Rightarrow> u16 \<Rightarrow> bytes \<Rightarrow> bytes" where
  "packet key loc sp dp seg = packet_header loc sp dp @ seg @
     le_bytes 8 (generate_mac (packet_header loc sp dp @ seg) (PACKET_HEADER_SIZE + length seg) key)"

lemma length_packet [simp]: "length (packet key loc sp dp seg) = 13 + length seg"
  by (simp add: packet_def)

lemma xor_service_mac [simp]: "service_generate_mac (Some XorCryptoProvider) d n k = Inr (generate_mac d n k)"
  by (simp add: service_generate_mac_def getProvider_def XorCryptoProvider_def)

lemma unat_small_u32: "k < 4294967296 \<Longrightarrow> unat (of_nat k :: u32) = k"
  by (rule unat_of_nat_small) simp

lemma build_packet_ok:
  assumes "length seg \<le> PACKET_MTU" "length seg \<le> length mem" "take (length seg) mem = seg"
  shows "build_packet (Some XorCryptoProvider) key loc sp dp mem (of_nat (length seg)) = Built (packet key loc sp dp seg)"
proof -
  have "length seg \<le> 1487" using assms(1) by (simp add: PACKET_MTU_def wire_simps)
  then have "unat (of_nat PACKET_HEADER_SIZE + of_nat (length seg) + of_nat MAC_SIZE :: u32) = 13 + length seg"
      "unat (of_nat (length seg) :: u32) = length seg"
    using unat_small_u32 [of "13 + length seg"] unat_small_u32 [of "length seg"]
    by (simp_all add: wire_simps add.commute add.left_commute)
  then show ?thesis using assms \<open>length seg \<le> 1487\<close>
    by (simp add: build_packet_def Let_def packet_def ETH_MTU_def)
qed

lemma xor_right_cancel:
  assumes "(a :: u64) XOR c = b XOR c"
  shows "a = b"
proof -
  have "(a XOR c) XOR c = (b XOR c) XOR c" unfolding assms ..
  then show ?thesis by (simp only: xor.assoc xor_self_eq xor.right_neutral)
qed

lemma mac_bytewise_cong: "(\<And>i. i < n \<Longrightarrow> d ! i = d' ! i) \<Longrightarrow> mac_bytewise n d = mac_bytewise n d'"
  by (induction n) auto

lemma generate_mac_prefix:
  assumes "n \<le> length d" "n \<le> length d'" "take n d = take n d'"
  shows "generate_mac d n key = generate_mac d' n key"
proof -
  have "d ! i = d' ! i" if "i < n" for i using assms(3) that by (metis nth_take)
  then have "mac_bytewise n d = mac_bytewise n d'" by (rule mac_bytewise_cong)
  then show ?thesis unfolding generate_mac_bytewise [OF assms(1)] generate_mac_bytewise [OF assms(2)] by simp
qed

text \<open>A frame that carries a packet, whatever lies behind it in the buffer.\<close>

definition carries :: "frame \<Rightarrow> bytes \<Rightarrow> bool" where
  "carries f d \<longleftrightarrow> length (fr_data f) = ETH_MTU \<and> length d \<le> ETH_MTU \<and> take (length d) (fr_data f) = d \<and>
     data_length f = of_nat (length d)"

lemma carriesE:
  assumes "carries f d"
  obtains rest where "fr_data f = d @ rest" "length d + length rest = 1500" "data_length f = of_nat (length d)"
    "unat (data_length f) = length d"
proof -
  have "fr_data f = d @ drop (length d) (fr_data f)" using assms unfolding carries_def by (metis append_take_drop_id)
  moreover have "length d + length (drop (length d) (fr_data f)) = 1500"
    using assms by (simp add: carries_def wire_simps)
  ultimately show ?thesis using that assms unat_small_u32 [of "length d"] by (simp add: carries_def wire_simps)
qed

lemma carries_fields:
  assumes "carries f (packet key loc sp dp seg)"
  shows "packet_location (fr_data f) = quadrant_byte loc" "sport (fr_data f) = sp" "dport (fr_data f) = dp"
    "take (length seg) (packet_data (fr_data f)) = seg" "length seg \<le> PACKET_MTU"
    "length (packet_data (fr_data f)) = 1495" "payload_length f = of_nat (length seg)"
    "unat (data_length f) = 13 + length seg" "unat (payload_length f) = length seg"
proof -
  obtain rest where r: "fr_data f = packet key loc sp dp seg @ rest" "length (packet key loc sp dp seg) + length rest = 1500"
    "data_length f = of_nat (length (packet key loc sp dp seg))" "unat (data_length f) = length (packet key loc sp dp seg)"
    using assms by (rule carriesE)
  show "packet_location (fr_data f) = quadrant_byte loc" "sport (fr_data f) = sp" "dport (fr_data f) = dp"
    "take (length seg) (packet_data (fr_data f)) = seg" by (simp_all add: r(1) packet_def)
  show "length seg \<le> PACKET_MTU" using r(2) by (simp add: PACKET_MTU_def wire_simps)
  show "length (packet_data (fr_data f)) = 1495" using r(1,2) by (simp add: packet_data_def wire_simps)
  show "payload_length f = of_nat (length seg)" by (simp add: payload_length_def r(3) wire_simps)
  then show "unat (payload_length f) = length seg" using r(2) unat_small_u32 [of "length seg"] by simp
  show "unat (data_length f) = 13 + length seg" using r(4) by simp
qed

lemma forward_inside_ok:
  assumes "crypto p = Some XorCryptoProvider" "session_key (local_block p) = key" "external_nic p \<noteq> None"
    and f: "carries f (packet key loc sp dp seg)"
  shows "forward_inside f from p = Some ([Local_send (frame_args from \<lparr>paddr = LOCAL_ADDR, port = dp\<rparr>
      (packet key (location (local_block p)) (port from) dp seg)), Free_external], None)"
proof -
  obtain rest where r: "fr_data f = packet key loc sp dp seg @ rest" "length (packet key loc sp dp seg) + length rest = 1500"
    using f by (rule carriesE)
  note F = carries_fields [OF f]
  have n: "unat (data_length f) - MAC_SIZE = 5 + length seg" using F(8) by (simp add: wire_simps)
  have "generate_mac (fr_data f) (5 + length seg) key = generate_mac (packet_header loc sp dp @ seg) (5 + length seg) key"
    by (rule generate_mac_prefix) (simp_all add: r(1) packet_def)
  moreover have "le_word (read_at (5 + length seg) 8 (fr_data f))
      = generate_mac (packet_header loc sp dp @ seg) (5 + length seg) key"
    by (simp add: r(1) packet_def read_at_def wire_simps le_word_le_bytes_full)
  moreover have "send_local_frame p from \<lparr>paddr = LOCAL_ADDR, port = dp\<rparr> (packet_data (fr_data f)) (payload_length f)
      = Some ([Local_send (frame_args from \<lparr>paddr = LOCAL_ADDR, port = dp\<rparr>
          (packet key (location (local_block p)) (port from) dp seg))], None)"
    using build_packet_ok [OF F(5) _ F(4), of key "location (local_block p)" "port from" dp] F(5,6) assms(1,2)
    by (simp add: send_local_frame_def F(7) PACKET_MTU_def wire_simps)
  moreover have "unat (data_length f) \<le> length (fr_data f)" using F(8) r by simp
  ultimately show ?thesis using assms(1-3) F(3) n
    by (auto simp: forward_inside_def Let_def protocol_send_def)
qed

section \<open>Inside the gateway\<close>

lemma register_nearby_frame [simp]:
  "session_key (register_nearby_entity a b) = session_key b"
  "location (register_nearby_entity a b) = location b"
  by (simp_all add: register_nearby_entity_def)

definition system_message :: "ext_nic \<Rightarrow> frame \<Rightarrow> bool" where
  "system_message x f \<longleftrightarrow> (dhost (fr_header f) = nic_address x \<or> dhost (fr_header f) = BROADCAST_ADDR) \<and>
     msg_type_of (seg_type (read_seg_header (packet_data (fr_data f)))) \<in> {Some PTP, Some GROUP}"

lemma filter_passes:
  assumes "\<not> system_message x f" "paddr to = dhost (fr_header f)"
  shows "filter_system_messages e x f from to p = Some (p, ([], None), False)"
  using assms by (auto simp: filter_system_messages_def system_message_def Let_def split: option.splits msg_type.splits)

lemma update_external_user:
  assumes "\<not> system_message x f" "13 \<le> unat (data_length f)"
  shows "update_external e x f p = map_option (\<lambda>eff. (p\<lparr>local_block := register_nearby_entity (shost (fr_header f)) (local_block p)\<rparr>, eff))
    (forward_inside f \<lparr>paddr = shost (fr_header f), port = sport (fr_data f)\<rparr>
      (p\<lparr>local_block := register_nearby_entity (shost (fr_header f)) (local_block p)\<rparr>))"
  using assms by (simp add: update_external_def Let_def filter_passes wire_simps)

text \<open>
  C11. A packet from a station with the same session key that is no system message is passed on
  inside: the gateway sends exactly one local frame, from the original sender and to the local
  address, with the same ports and payload under the gateway's own location, and then gives the
  buffer back.
\<close>

theorem external_packet_forwarded:
  assumes "crypto p = Some XorCryptoProvider" "session_key (local_block p) = key" "external_nic p = Some x"
    and "carries f (packet key loc sp dp seg)" "\<not> system_message x f"
  shows "update_external e x f p =
    Some (p\<lparr>local_block := register_nearby_entity (shost (fr_header f)) (local_block p)\<rparr>,
      [Local_send (frame_args \<lparr>paddr = shost (fr_header f), port = sp\<rparr> \<lparr>paddr = LOCAL_ADDR, port = dp\<rparr>
         (packet key (location (local_block p)) sp dp seg)), Free_external], None)"
proof -
  note F = carries_fields [OF assms(4)]
  let ?p = "p\<lparr>local_block := register_nearby_entity (shost (fr_header f)) (local_block p)\<rparr>"
  have "forward_inside f \<lparr>paddr = shost (fr_header f), port = sp\<rparr> ?p =
      Some ([Local_send (frame_args \<lparr>paddr = shost (fr_header f), port = sp\<rparr> \<lparr>paddr = LOCAL_ADDR, port = dp\<rparr>
        (packet key (location (local_block p)) sp dp seg)), Free_external], None)"
    using forward_inside_ok [of ?p key f loc sp dp seg] assms(1-4) by simp
  then show ?thesis using F(2,8) assms(5) by (simp add: update_external_user)
qed

lemma mac_check_fails:
  assumes "crypto p = Some XorCryptoProvider" "carries f (packet key loc sp dp seg)"
    and "i < 5 + length seg" "b \<noteq> fr_data f ! i \<and> session_key (local_block p) = key \<or>
      b = fr_data f ! i \<and> session_key (local_block p) \<noteq> key"
  shows "forward_inside (f\<lparr>fr_data := (fr_data f)[i := b]\<rparr>) from p = Some ([Free_external], None)"
proof -
  obtain rest where r: "fr_data f = packet key loc sp dp seg @ rest" "length (packet key loc sp dp seg) + length rest = 1500"
    using assms(2) by (rule carriesE)
  let ?n = "5 + length seg" and ?d = "(fr_data f)[i := b]" and ?k = "session_key (local_block p)"
  have len: "?n \<le> length (fr_data f)" "unat (data_length f) - MAC_SIZE = ?n" "unat (data_length f) \<le> length (fr_data f)"
    using r carries_fields(8) [OF assms(2)] by (simp_all add: wire_simps)
  have mac: "generate_mac (fr_data f) ?n key = generate_mac (packet_header loc sp dp @ seg) ?n key"
    by (rule generate_mac_prefix) (simp_all add: r(1) packet_def)
  have "read_at ?n 8 ?d = read_at ?n 8 (fr_data f)" using assms(3) by (simp add: read_at_def)
  also have "le_word \<dots> = generate_mac (packet_header loc sp dp @ seg) ?n key"
    by (simp add: r(1) packet_def read_at_def wire_simps le_word_le_bytes_full)
  finally have rec: "le_word (read_at ?n 8 ?d) = generate_mac (fr_data f) ?n key" using mac by simp
  have "generate_mac ?d ?n ?k \<noteq> generate_mac (fr_data f) ?n key"
    using assms(4)
  proof
    assume "b \<noteq> fr_data f ! i \<and> ?k = key"
    then show ?thesis using mac_single_byte [OF assms(3) len(1)] by simp
  next
    assume k: "b = fr_data f ! i \<and> ?k \<noteq> key"
    have "generate_mac (fr_data f) ?n ?k \<noteq> generate_mac (fr_data f) ?n key"
    proof
      assume "generate_mac (fr_data f) ?n ?k = generate_mac (fr_data f) ?n key"
      then have "?k = key" unfolding generate_mac_bytewise [OF len(1)] by (rule xor_right_cancel)
      then show False using k by simp
    qed
    then show ?thesis using k by simp
  qed
  then show ?thesis using assms(1) len rec by (simp add: forward_inside_def Let_def)
qed

lemma fold_queue_action: "fold (\<lambda>ob. queue_action ob c f) obs acts = acts @ map (\<lambda>ob. Queue ob f) obs"
  by (induction obs arbitrary: acts) (simp_all add: queue_action_def)

lemma notify_or_free_targets:
  "observed_ok s \<Longrightarrow>
   notify_or_free s c f = (if targets s c = [] then [Free_local] else map (\<lambda>ob. Queue ob f) (targets s c))"
  by (simp add: notify_or_free_def notify_targets fold_queue_action)

text \<open>
  C12. A packet that is no system message as it arrives is dropped when a byte of its protocol header or payload
  was changed on the way, or when it was made under another session key: the gateway puts nothing into
  its shared memory and sends nothing, it gives the buffer back, and all that is left is the hardware
  address of the sender in the list of nearby stations.  (The check comes after the filter for system
  messages: a packet whose type byte was changed to that of a system message is none of these.)
\<close>

theorem tampered_packet_dropped:
  assumes "crypto p = Some XorCryptoProvider" "carries f (packet key loc sp dp seg)"
    and "i < 5 + length seg" "b \<noteq> fr_data f ! i \<and> session_key (local_block p) = key \<or>
      b = fr_data f ! i \<and> session_key (local_block p) \<noteq> key"
    and "\<not> system_message x (f\<lparr>fr_data := (fr_data f)[i := b]\<rparr>)"
  shows "update_external e x (f\<lparr>fr_data := (fr_data f)[i := b]\<rparr>) p =
    Some (p\<lparr>local_block := register_nearby_entity (shost (fr_header f)) (local_block p)\<rparr>, [Free_external], None)"
proof -
  let ?p = "p\<lparr>local_block := register_nearby_entity (shost (fr_header f)) (local_block p)\<rparr>"
  have "session_key (local_block ?p) = session_key (local_block p)" by simp
  then show ?thesis
    using mac_check_fails [of ?p, OF _ assms(2,3)] assms(1,4) carries_fields(8) [OF assms(2)]
    by (simp add: update_external_user [OF assms(5)])
qed

text \<open>
  Delivery inside a process: a message for a port goes to the communicators listening on that
  port, one for the routing port 0 to those subscribed to its TEDS type, in registration order and
  once each; with no taker, or no TEDS type to be read, the buffer goes back to the interface, and
  a buffer that was queued is not given back.
\<close>

theorem notify_communicator_delivers:
  assumes "observed_ok (port_observed p)" "observed_ok (type_observed p)"
  shows "notify_communicator p pt f =
    (let t = extract_teds_type (read_seg_header (packet_data (fr_data f))) (drop SEG_HEADER_SIZE (packet_data (fr_data f)))
               (payload_length f - of_nat SEG_HEADER_SIZE);
         obs = (if pt \<noteq> 0 then targets (port_observed p) pt else if t = INVALID then [] else targets (type_observed p) t)
     in if obs = [] then [Free_local] else map (\<lambda>ob. Queue ob f) obs)"
  using notify_or_free_targets [OF assms(1)] notify_or_free_targets [OF assms(2)]
  by (auto simp: notify_communicator_def TYPE_BASED_ROUTING_PORT_def payload_length_def Let_def)

lemma system_payload_size:
  assumes "31 \<le> unat (w :: u32)"
  shows "unat (ucast w - 5 - 8 - 9 :: u64) = unat w - 22"
proof -
  have "unat w < 2 ^ LENGTH(32)" by (rule unsigned_less)
  then have k: "unat w < 2 ^ 32" by simp
  have "(ucast w :: u64) = of_nat (unat w)" by (simp add: unsigned_of_nat)
  then have "(ucast w - 5 - 8 - 9 :: u64) = of_nat (unat w) - of_nat 22" by simp
  also have "\<dots> = of_nat (unat w - 22)" using assms by (subst of_nat_diff) simp_all
  finally show ?thesis using unat_of_nat_small [of "unat w - 22", where 'a = 64] k by simp
qed

text \<open>
  C40. System messages are acted upon before the MAC is looked at: a member gateway that receives a
  group message of type KEY_DISTRIBUTION, addressed to it or broadcast, takes the eight bytes that
  follow for its session key, whoever sent it and whatever its last eight bytes are.
\<close>

theorem unauthenticated_key_installation:
  assumes "group_handler p = Member" "dhost (fr_header f) = nic_address x \<or> dhost (fr_header f) = BROADCAST_ADDR"
    and "31 \<le> unat (data_length f)" "fr_data f ! 5 = msg_type_byte GROUP"
    and "fr_data f ! 14 = group_type_byte KEY_DISTRIBUTION" "length (fr_data f) = ETH_MTU"
  shows "\<exists>p'. update_external e x f p = Some (p', [Free_external], None) \<and>
    session_key (local_block p') = le_word (read_at 15 8 (fr_data f))"
proof -
  let ?from = "\<lparr>paddr = shost (fr_header f), port = sport (fr_data f)\<rparr>"
  let ?to = "\<lparr>paddr = dhost (fr_header f), port = dport (fr_data f)\<rparr>"
  let ?p = "p\<lparr>local_block := register_nearby_entity (shost (fr_header f)) (local_block p)\<rparr>"
  let ?pl = "drop SEG_HEADER_SIZE (packet_data (fr_data f))"
  let ?n = "unat (ucast (data_length f) - of_nat PACKET_HEADER_SIZE - of_nat MAC_SIZE - of_nat SEG_HEADER_SIZE :: u64)"
  have "?n = unat (data_length f) - 22" using system_payload_size [OF assms(3)] by (simp add: wire_simps)
  then have n: "\<not> ?n < KEY_PAYLOAD_SIZE" using assms(3) by (simp add: wire_simps)
  have hd: "?pl ! 0 = group_type_byte KEY_DISTRIBUTION" "read_at 1 8 ?pl = read_at 15 8 (fr_data f)"
      "msg_type_of (seg_type (read_seg_header (packet_data (fr_data f)))) = Some GROUP"
    using assms(4-6) by (simp_all add: packet_data_def read_at_def read_seg_header_def wire_simps msg_type_of_def)
  have "member_handle ?pl ?n ?from = [Set_session_key (le_word (read_at 15 8 (fr_data f)))]"
    unfolding member_handle_def hd(2) [symmetric] using n hd(1) by simp
  then have "handle_group_message e x ?pl ?n ?from ?p
      = Some (?p\<lparr>local_block := set_session_key (le_word (read_at 15 8 (fr_data f))) (local_block ?p)\<rparr>, [], None)"
    using assms(1) by (simp add: handle_group_message_def finish_handler_def run_call_def)
  then have "filter_system_messages e x f ?from ?to ?p
      = Some (?p\<lparr>local_block := set_session_key (le_word (read_at 15 8 (fr_data f))) (local_block ?p)\<rparr>, ([], None), True)"
    using assms(2) hd(3) by (auto simp: filter_system_messages_def Let_def)
  then show ?thesis using assms(3)
    by (simp add: update_external_def Let_def wire_simps set_session_key_def)
qed

section \<open>Routing\<close>

lemma protocol_send_built:
  assumes "crypto p = Some XorCryptoProvider" "length seg \<le> PACKET_MTU"
  shows "protocol_send p from to seg (of_nat (length seg)) =
    Some ([case external_nic p of
        None \<Rightarrow> Local_send (frame_args from to (packet (session_key (local_block p)) (location (local_block p)) (port from) (port to) seg))
      | Some x \<Rightarrow> if paddr to \<noteq> nic_address x \<and> paddr to \<noteq> LOCAL_ADDR
          then Remote_send (frame_args from to (packet (session_key (local_block p)) (nic_quadrant x) (port from) (port to) seg))
          else Local_send (frame_args from to (packet (session_key (local_block p)) (location (local_block p)) (port from) (port to) seg))],
      None)"
  using build_packet_ok [OF assms(2) order_refl, of "session_key (local_block p)" _ "port from" "port to"] assms(1)
  by (simp add: protocol_send_def send_local_frame_def send_remote_frame_def split: option.split)

text \<open>
  Sending: a payload of up to 1487 bytes leaves as exactly one packet carrying it, the ports, the
  location of the interface used and the MAC under the current session key.  A component uses the
  shared memory for every destination; a gateway uses the network exactly for destinations that are
  neither itself nor local.  A longer payload is not sent.
\<close>

theorem protocol_send_routes:
  assumes "crypto p = Some XorCryptoProvider" "length seg < 4000000000"
  shows "if length seg \<le> PACKET_MTU
    then protocol_send p from to seg (of_nat (length seg)) =
        Some ([if \<exists>x. external_nic p = Some x \<and> paddr to \<noteq> nic_address x \<and> paddr to \<noteq> LOCAL_ADDR
          then Remote_send (frame_args from to (packet (session_key (local_block p))
                 (nic_quadrant (the (external_nic p))) (port from) (port to) seg))
          else Local_send (frame_args from to (packet (session_key (local_block p))
                 (location (local_block p)) (port from) (port to) seg))], None)
    else protocol_send p from to seg (of_nat (length seg)) = Some ([], None)"
proof (cases "length seg \<le> PACKET_MTU")
  case True
  then show ?thesis using protocol_send_built [OF assms(1) True, of "from" to] by (auto split: option.splits)
next
  case False
  then have l: "1487 < length seg" by (simp add: PACKET_MTU_def wire_simps)
  have "unat (of_nat PACKET_HEADER_SIZE + of_nat (length seg) + of_nat MAC_SIZE :: u32) = 13 + length seg"
    using unat_small_u32 [of "13 + length seg"] assms(2) by (simp add: wire_simps add.commute add.left_commute)
  then have "build_packet c key loc sp dp seg (of_nat (length seg)) = Too_large" for c key loc sp dp
    using l by (simp add: build_packet_def Let_def ETH_MTU_def)
  then show ?thesis using False
    by (auto simp: protocol_send_def send_local_frame_def send_remote_frame_def split: option.split)
qed

lemma notify_no_remote: "Remote_send a \<notin> set (notify_communicator p pt f)"
proof -
  have "Remote_send a \<notin> set (snd (fold (notify_step queue_action s c f) is (b, acts)))"
    if "Remote_send a \<notin> set acts" for s :: "('a, 'c) observed" and c b acts "is"
    using that by (induction "is" arbitrary: b acts)
      (auto simp: notify_step_def queue_action_def split: option.splits)
  note fold = this
  have "Remote_send a \<notin> set (notify_or_free s c f)" for s :: "('a, 'c) observed" and c
  proof -
    obtain b acts where n: "notify queue_action s c f [] = (b, acts)" by fastforce
    then have "Remote_send a \<notin> set acts"
      using fold [of "[]" s c "[0..<length (observers s)]" False] by (simp add: notify_def)
    then show ?thesis by (cases b) (simp_all add: notify_or_free_def n)
  qed
  note free = this
  show ?thesis by (simp add: notify_communicator_def Let_def free)
qed

text \<open>
  A component never touches the network, whatever it sends or receives; what it receives of a
  broadcast it ignores unless it is a type-routed message, and the gateway alone passes it on.
\<close>

theorem component_stays_inside:
  "(protocol_send (init_component p) from to mem n = Some (acts, err) \<longrightarrow> Remote_send a \<notin> set acts) \<and>
   (update_local f (init_component p) = Some (acts, err) \<longrightarrow> Remote_send a \<notin> set acts) \<and>
   (dhost (fr_header f) = BROADCAST_ADDR \<and> dport (fr_data f) \<noteq> 0 \<longrightarrow>
      update_local f (init_component p) = Some ([Free_local], None))"
  using notify_no_remote [of a]
  by (auto simp: init_component_def protocol_send_def send_local_frame_def update_local_def Let_def
      TYPE_BASED_ROUTING_PORT_def split: built.splits)

lemma broadcast_goes_out:
  assumes "crypto p = Some XorCryptoProvider" "external_nic p = Some x" "nic_address x \<noteq> BROADCAST_ADDR"
    and "carries f (packet k loc sp dp seg)"
  shows "protocol_send p \<lparr>paddr = nic_address x, port = sp\<rparr> \<lparr>paddr = BROADCAST_ADDR, port = dp\<rparr>
      (packet_data (fr_data f)) (payload_length f) =
    Some ([Remote_send (frame_args \<lparr>paddr = nic_address x, port = sp\<rparr> \<lparr>paddr = BROADCAST_ADDR, port = dp\<rparr>
      (packet (session_key (local_block p)) (nic_quadrant x) sp dp seg))], None)"
proof -
  note F = carries_fields [OF assms(4)]
  show ?thesis
    using build_packet_ok [OF F(5) _ F(4), of "session_key (local_block p)" "nic_quadrant x" sp dp] F(5,6) assms(1-3)
    by (simp add: protocol_send_def send_remote_frame_def F(7) PACKET_MTU_def wire_simps)
qed

text \<open>
  A broadcast written to the shared memory by a component leaves the gateway as one network
  packet from the gateway's address with the component's port and payload, in the gateway's
  quadrant.
\<close>

theorem gateway_forwards_broadcast:
  assumes "crypto p = Some XorCryptoProvider" "external_nic p = Some x" "nic_address x \<noteq> BROADCAST_ADDR"
    and "carries f (packet k loc sp dp seg)" "dhost (fr_header f) = BROADCAST_ADDR"
  shows "\<exists>acts. update_local f p = Some (Remote_send (frame_args \<lparr>paddr = nic_address x, port = sp\<rparr>
      \<lparr>paddr = BROADCAST_ADDR, port = dp\<rparr> (packet (session_key (local_block p)) (nic_quadrant x) sp dp seg)) # acts, None) \<and>
    (dp \<noteq> 0 \<longrightarrow> acts = [Free_local])"
  using broadcast_goes_out [OF assms(1-4)] carries_fields(2,3) [OF assms(4)] assms(2,5)
  by (simp add: update_local_def Let_def TYPE_BASED_ROUTING_PORT_def)

text \<open>
  Moving to another quadrant: a member gateway announces itself with one JOIN packet in the new
  quadrant, forgets the stations it knew nearby and tells its components the new location.
\<close>

theorem quadrant_change_rejoins:
  assumes "crypto p = Some XorCryptoProvider" "external_nic p = Some x" "group_handler p = Member"
    and "nic_address x \<noteq> BROADCAST_ADDR"
  shows "\<exists>p'. update_quadrant_change now x p = Some (p',
      [Remote_send (frame_args (external_address x) all_stations
        (packet (session_key (local_block p)) (nic_quadrant x) 0 0 (group_segment now [group_type_byte JOIN_REQUEST]))),
       Free_external], None) \<and>
    get_entities_nearby (local_block p') = [] \<and> location (local_block p') = nic_quadrant x"
proof -
  let ?seg = "group_segment now [group_type_byte JOIN_REQUEST]"
  have "length ?seg \<le> PACKET_MTU" by (simp add: group_segment_def PACKET_MTU_def wire_simps)
  from protocol_send_built [OF assms(1) this, of "external_address x" all_stations]
  have "protocol_send p (external_address x) all_stations ?seg (of_nat (length ?seg)) =
      Some ([Remote_send (frame_args (external_address x) all_stations
        (packet (session_key (local_block p)) (nic_quadrant x) 0 0 ?seg))], None)"
    using assms(2,4) by (simp add: all_stations_def external_address_def)
  then show ?thesis using assms(3)
    by (simp add: update_quadrant_change_def notify_location_change_def member_notify_location_change_def
        finish_handler_def run_call_def get_entities_nearby_def reset_entities_nearby_def set_location_def)
qed

section \<open>A concrete gateway\<close>

definition sample_gateway :: "nat protocol" where
  "sample_gateway = \<lparr>local_block = (init_block sample_block)\<lparr>session_key := 99\<rparr>, external_nic = Some sample_nic,
     crypto = Some XorCryptoProvider, synchronizer = Slave slave_init, group_handler = Member,
     port_observed = attach observed_empty (Some 1) 1000, type_observed = observed_empty\<rparr>"

definition sample_frame :: "bytes \<Rightarrow> frame" where
  "sample_frame d = \<lparr>fr_header = \<lparr>dhost = BROADCAST_ADDR, shost = my_mac sample_engine, eth_type = 0xB588\<rparr>,
     fr_data = d @ replicate (1500 - length d) 0xEE, data_length = of_nat (length d)\<rparr>"

lemma sample_frame_carries: "length d \<le> 1500 \<Longrightarrow> carries (sample_frame d) d"
  by (simp add: carries_def sample_frame_def wire_simps)

definition sample_env :: env where
  "sample_env = \<lparr>now_ms = 1000, now_ms' = 1001, clock_ok = True, now_ns = 1000000000, steady_ms = 5\<rparr>"

definition sample_segment :: bytes where
  "sample_segment = get_bytes (make_segment TEDS 5 [1, 2, 3])"

lemma sample_segment_eq: "sample_segment = [1, 5, 0, 0, 0, 0, 0, 0, 0, 1, 2, 3]"
  by code_simp

lemma sample_gateway_fields:
  "crypto sample_gateway = Some XorCryptoProvider" "session_key (local_block sample_gateway) = 99"
  "external_nic sample_gateway = Some sample_nic" "group_handler sample_gateway = Member"
  "nic_address sample_nic = MAC 2 0 0 0 0 2" "nic_quadrant sample_nic = EAST"
  by (simp_all add: sample_gateway_def sample_nic_def nic_address_def)

lemma sample_not_system: "\<not> system_message sample_nic (sample_frame (packet 99 EAST 7 1000 sample_segment))"
  by (simp add: system_message_def sample_frame_def packet_def sample_segment_eq read_seg_header_def msg_type_of_def)

theorem external_packet_forwarded_witness:
  "\<exists>p'. update_external sample_env sample_nic (sample_frame (packet 99 EAST 7 1000 sample_segment)) sample_gateway = Some (p',
      [Local_send (frame_args \<lparr>paddr = MAC 2 0 0 0 0 1, port = 7\<rparr> \<lparr>paddr = LOCAL_ADDR, port = 1000\<rparr>
         (packet 99 (location (local_block sample_gateway)) 7 1000 sample_segment)), Free_external], None)"
  using external_packet_forwarded [OF sample_gateway_fields(1-3) sample_frame_carries sample_not_system, of sample_env]
  by (simp add: sample_segment_eq sample_frame_def sample_engine_def)

theorem tampered_packet_dropped_witness:
  "\<exists>p' f. update_external sample_env sample_nic f sample_gateway = Some (p', [Free_external], None) \<and>
     f = (sample_frame (packet 99 EAST 7 1000 sample_segment))
       \<lparr>fr_data := (fr_data (sample_frame (packet 99 EAST 7 1000 sample_segment)))[3 := 0xFF]\<rparr>"
proof -
  let ?f = "sample_frame (packet 99 EAST 7 1000 sample_segment)"
  have c: "carries ?f (packet 99 EAST 7 1000 sample_segment)" by (rule sample_frame_carries) (simp add: sample_segment_eq)
  have "fr_data ?f ! 3 = 0xE8" by code_simp
  then have b: "0xFF \<noteq> fr_data ?f ! 3 \<and> session_key (local_block sample_gateway) = 99 \<or>
      0xFF = fr_data ?f ! 3 \<and> session_key (local_block sample_gateway) \<noteq> 99" by (simp add: sample_gateway_fields)
  have "\<not> system_message sample_nic (?f\<lparr>fr_data := (fr_data ?f)[3 := 0xFF]\<rparr>)"
    using sample_not_system by (simp add: system_message_def packet_data_def read_seg_header_def drop_update_cancel wire_simps)
  from tampered_packet_dropped [OF sample_gateway_fields(1) c _ b this, of sample_env] show ?thesis by auto
qed

theorem notify_communicator_delivers_witness:
  "notify_communicator sample_gateway 1000 (sample_frame []) = [Queue 1 (sample_frame [])]"
  using notify_communicator_delivers [of sample_gateway 1000 "sample_frame []"]
  by (simp add: sample_gateway_def observed_ok_def attach_def observed_empty_def targets_def Let_def)

definition forged_key_frame :: frame where
  "forged_key_frame = sample_frame ([1, 0, 0, 0, 0] @ group_segment 0 (1 # [7, 7, 7, 7, 7, 7, 7, 7]) @ replicate 8 0)"

theorem unauthenticated_key_installation_witness:
  "\<exists>p'. update_external sample_env sample_nic forged_key_frame sample_gateway = Some (p', [Free_external], None) \<and>
     session_key (local_block p') = 0x0707070707070707"
proof -
  have v: "unat (data_length forged_key_frame) = 31" "fr_data forged_key_frame ! 5 = msg_type_byte GROUP"
      "fr_data forged_key_frame ! 14 = group_type_byte KEY_DISTRIBUTION" "length (fr_data forged_key_frame) = ETH_MTU"
      "le_word (read_at 15 8 (fr_data forged_key_frame)) = (0x0707070707070707 :: u64)"
    by code_simp+
  then show ?thesis
    using unauthenticated_key_installation [of sample_gateway forged_key_frame sample_nic sample_env] sample_gateway_fields(4)
    by (simp add: forged_key_frame_def sample_frame_def)
qed

theorem protocol_send_routes_witness:
  "protocol_send sample_gateway (local 7) (broadcast 1000) sample_segment 12 =
    Some ([Remote_send (frame_args (local 7) (broadcast 1000) (packet 99 EAST 7 1000 sample_segment))], None)"
  using protocol_send_routes [of sample_gateway sample_segment "local 7" "broadcast 1000"] sample_gateway_fields
  by (simp add: sample_segment_eq PACKET_MTU_def wire_simps broadcast_def local_def BROADCAST_ADDR_def LOCAL_ADDR_def)

theorem component_stays_inside_witness:
  "\<exists>acts err. protocol_send (init_component sample_gateway) (local 7) (broadcast 1000) [] 0 = Some (acts, err) \<and>
     Remote_send (frame_args (local 7) (broadcast 1000) []) \<notin> set acts"
proof -
  have "\<exists>acts err. protocol_send (init_component sample_gateway) (local 7) (broadcast 1000) [] 0 = Some (acts, err)"
    using protocol_send_built [of "init_component sample_gateway" "[]" "local 7" "broadcast 1000"]
    by (simp add: init_component_def sample_gateway_fields)
  then show ?thesis using component_stays_inside [of sample_gateway "local 7" "broadcast 1000" "[]" 0] by blast
qed

theorem gateway_forwards_broadcast_witness:
  "update_local (sample_frame (packet 99 EAST 7 1000 sample_segment)) sample_gateway =
    Some ([Remote_send (frame_args \<lparr>paddr = MAC 2 0 0 0 0 2, port = 7\<rparr> \<lparr>paddr = BROADCAST_ADDR, port = 1000\<rparr>
      (packet 99 EAST 7 1000 sample_segment)), Free_local], None)"
  using gateway_forwards_broadcast [OF sample_gateway_fields(1,3) _ sample_frame_carries, of 99 EAST 7 1000 sample_segment]
  by (auto simp: sample_gateway_fields BROADCAST_ADDR_def sample_segment_eq sample_frame_def)

theorem quadrant_change_rejoins_witness:
  "\<exists>p' a. update_quadrant_change 8 sample_nic sample_gateway = Some (p', [Remote_send a, Free_external], None) \<and>
     location (local_block p') = EAST"
  using quadrant_change_rejoins [OF sample_gateway_fields(1,3,4), of 8]
  by (auto simp: sample_gateway_fields BROADCAST_ADDR_def)

end
