(* ===== verification/Communicator_Model.thy ===== *)
theory Communicator_Model
  imports Protocol_Props
begin

text \<open>
  The end point of the application: messages (\<^verbatim>\<open>message.hpp\<close>) and the communicator
  (\<^verbatim>\<open>communicator.hpp\<close>), which turns messages into segments and back, registers with the protocol for
  its port and for TEDS types, and queues the frames it is notified of.  The communicator object is
  known to the protocol by an identity \<open>ob\<close>, its \<^verbatim>\<open>this\<close> pointer.
\<close>

section \<open>Messages\<close>

text \<open>
  The payload vector is its elements and its capacity.  What a constructor leaves uninitialised is a
  parameter.
\<close>

record message =
  m_source :: address
  m_destination :: address
  m_type :: byte
  m_payload :: bytes
  m_capacity :: nat
  m_timestamp :: u64

definition no_address :: address where
  "no_address = \<lparr>paddr = MAC 0 0 0 0 0 0, port = 0\<rparr>"

definition message_of :: "u64 \<Rightarrow> address \<Rightarrow> msg_type \<Rightarrow> bytes \<Rightarrow> message" where
  "message_of ts dest t pl = \<lparr>m_source = no_address, m_destination = dest, m_type = msg_type_byte t,
     m_payload = pl, m_capacity = length pl, m_timestamp = ts\<rparr>"

definition message_response_at :: "u64 \<Rightarrow> address \<Rightarrow> teds_type \<Rightarrow> u32 \<Rightarrow> message" where
  "message_response_at ts dest t value_bits = message_of ts dest TEDS (create_response_payload t value_bits)"

definition message_response :: "int \<Rightarrow> address \<Rightarrow> teds_type \<Rightarrow> u32 \<Rightarrow> message" where
  "message_response ns dest t value_bits =
     message_of (word_of_int (getCurrentTimeNanos ns)) dest TEDS (create_response_payload t value_bits)"

definition message_control_at :: "u64 \<Rightarrow> address \<Rightarrow> bytes \<Rightarrow> message" where
  "message_control_at ts dest d = message_of ts dest CONTROL d"

definition message_control :: "address \<Rightarrow> bytes \<Rightarrow> message" where
  "message_control dest d = message_of 0 dest CONTROL d"

definition message_buffer :: "u64 \<Rightarrow> nat \<Rightarrow> message" where
  "message_buffer junk n = \<lparr>m_source = no_address, m_destination = no_address, m_type = msg_type_byte CONTROL,
     m_payload = replicate n 0, m_capacity = n, m_timestamp = junk\<rparr>"

definition message_empty :: "u64 \<Rightarrow> message" where
  "message_empty junk = message_buffer junk 0"

text \<open>The setters; a vector that is assigned a longer one takes over its size as capacity.\<close>

definition set_type :: "byte \<Rightarrow> message \<Rightarrow> message" where [simp]: "set_type t m = m\<lparr>m_type := t\<rparr>"
definition set_source :: "address \<Rightarrow> message \<Rightarrow> message" where [simp]: "set_source a m = m\<lparr>m_source := a\<rparr>"
definition set_destination :: "address \<Rightarrow> message \<Rightarrow> message" where [simp]: "set_destination a m = m\<lparr>m_destination := a\<rparr>"
definition set_timestamp :: "u64 \<Rightarrow> message \<Rightarrow> message" where [simp]: "set_timestamp ts m = m\<lparr>m_timestamp := ts\<rparr>"
definition set_payload :: "bytes \<Rightarrow> message \<Rightarrow> message" where
  "set_payload pl m = m\<lparr>m_payload := pl, m_capacity := max (m_capacity m) (length pl)\<rparr>"

text \<open>Bytes written through \<^verbatim>\<open>data()\<close>: those behind the last element are not part of the vector.\<close>

definition overwrite :: "bytes \<Rightarrow> bytes \<Rightarrow> bytes" where
  "overwrite src dst = take (length dst) (src @ drop (length src) dst)"

lemma length_overwrite [simp]: "length (overwrite src dst) = length dst"
  by (simp add: overwrite_def)

lemma take_overwrite [simp]: "take (length src) (overwrite src dst) = take (length dst) src"
  by (cases "length src \<le> length dst") (simp_all add: overwrite_def)

text \<open>\<^verbatim>\<open>std::vector::resize\<close>: new elements are zero.\<close>

definition resize :: "nat \<Rightarrow> message \<Rightarrow> message" where
  "resize n m = m\<lparr>m_payload := take n (m_payload m) @ replicate (n - length (m_payload m)) 0,
     m_capacity := max n (m_capacity m)\<rparr>"

section \<open>The communicator\<close>

record communicator =
  c_address :: address
  c_inbox :: "frame queue_observer"
  c_types :: "teds_type list"

text \<open>The registrations the protocol offers.\<close>

definition attach_port_listener :: "'o \<Rightarrow> u16 \<Rightarrow> 'o protocol \<Rightarrow> 'o protocol" where [simp]:
  "attach_port_listener ob pt p = p\<lparr>port_observed := attach (port_observed p) (Some ob) pt\<rparr>"

definition detach_port_listener :: "'o \<Rightarrow> u16 \<Rightarrow> 'o protocol \<Rightarrow> 'o protocol" where [simp]:
  "detach_port_listener ob pt p = p\<lparr>port_observed := detach (port_observed p) (Some ob) pt\<rparr>"

definition attach_type_listener :: "'o \<Rightarrow> teds_type \<Rightarrow> 'o protocol \<Rightarrow> 'o protocol" where [simp]:
  "attach_type_listener ob t p = p\<lparr>type_observed := attach (type_observed p) (Some ob) t\<rparr>"

definition detach_type_listener :: "'o \<Rightarrow> teds_type \<Rightarrow> 'o protocol \<Rightarrow> 'o protocol" where [simp]:
  "detach_type_listener ob t p = p\<lparr>type_observed := detach (type_observed p) (Some ob) t\<rparr>"

definition comm_new :: "'o \<Rightarrow> address \<Rightarrow> 'o protocol \<Rightarrow> communicator \<times> 'o protocol" where
  "comm_new ob a p = (\<lparr>c_address = a, c_inbox = qo_init, c_types = []\<rparr>,
     attach_port_listener ob (port a) p)"

definition detach_type :: "'o \<Rightarrow> teds_type \<Rightarrow> 'o protocol \<Rightarrow> 'o protocol" where
  "detach_type ob t p = detach_type_listener ob t p"

definition comm_destroy :: "'o \<Rightarrow> communicator \<Rightarrow> 'o protocol \<Rightarrow> 'o protocol" where
  "comm_destroy ob c p = fold (detach_type ob) (c_types c)
     (detach_port_listener ob (port (c_address c)) p)"

text \<open>
  \<^verbatim>\<open>send\<close>: what the protocol does, and the value returned.  \<open>io_ok\<close> says whether the interface reported a
  positive number of bytes for a frame it was handed.
\<close>

definition comm_send ::
  "bool \<Rightarrow> 'o protocol \<Rightarrow> communicator \<Rightarrow> message \<Rightarrow> ('o effect \<times> bool) option" where
  "comm_send io_ok p c m =
     (let seg = \<lparr>s_header = \<lparr>seg_type = m_type m, seg_timestamp = m_timestamp m\<rparr>, s_payload = m_payload m\<rparr>;
          d = get_bytes seg
      in map_option (\<lambda>eff. (eff, fst eff \<noteq> [] \<and> snd eff = None \<and> io_ok))
           (protocol_send p (c_address c) (m_destination m) d (of_nat (length d))))"

definition queue_incoming_buffer :: "frame \<Rightarrow> communicator \<Rightarrow> communicator" where
  "queue_incoming_buffer f c = c\<lparr>c_inbox := qo_update f (c_inbox c)\<rparr>"

text \<open>
  \<^verbatim>\<open>receive\<close> writes behind the elements of the vector, up to its capacity, moves the payload to the
  front and only then resizes.  \<open>Blocks\<close> waits on the semaphore; \<open>None\<close> is a copy beyond the frame.
\<close>

datatype received = Blocks | Got message communicator bool

definition comm_receive :: "message \<Rightarrow> communicator \<Rightarrow> received option" where
  "comm_receive m c = (case sem_p (qo_semaphore (c_inbox c)) of None \<Rightarrow> Some Blocks
     | Some k \<Rightarrow> (case qo_data (c_inbox c) of
         [] \<Rightarrow> Some (Got m (c\<lparr>c_inbox := (c_inbox c)\<lparr>qo_semaphore := k\<rparr>\<rparr>) False)
       | f # fs \<Rightarrow>
           (let c' = c\<lparr>c_inbox := \<lparr>qo_semaphore = k, qo_data = fs\<rparr>\<rparr>;
                sz = of_nat (m_capacity m) :: u32;
                n = unat (min sz (payload_length f))
            in if m_capacity m = 0 then Some (Got m c' False)
               else if n > length (packet_data (fr_data f)) then None
               else (case protocol_receive f sz of (src, raw) \<Rightarrow>
                 (let written = overwrite raw (m_payload m);
                      moved = overwrite (drop SEG_HEADER_SIZE raw) written;
                      h = read_seg_header raw
                  in if n = 0 then Some (Got m c' False)
                     else if n < SEG_HEADER_SIZE then Some (Got (m\<lparr>m_payload := written\<rparr>) c' False)
                     else Some (Got (set_timestamp (seg_timestamp h) (set_source src (set_type (seg_type h)
                         (resize (n - SEG_HEADER_SIZE) (m\<lparr>m_payload := moved\<rparr>))))) c' True))))))"

section \<open>Subscriptions\<close>

definition subscribe_to_type :: "'o \<Rightarrow> teds_type \<Rightarrow> communicator \<Rightarrow> 'o protocol \<Rightarrow> communicator \<times> 'o protocol" where
  "subscribe_to_type ob t c p =
     (c\<lparr>c_types := (if t \<in> set (c_types c) then c_types c else insort t (c_types c))\<rparr>,
      attach_type_listener ob t p)"

definition subscribe_to_requests :: "'o \<Rightarrow> teds_type \<Rightarrow> communicator \<Rightarrow> 'o protocol \<Rightarrow> communicator \<times> 'o protocol" where
  "subscribe_to_requests ob t c p = subscribe_to_type ob (make_request_type t) c p"

definition send_interest_message :: "communicator \<Rightarrow> 'o protocol \<Rightarrow> teds_type \<Rightarrow> period \<Rightarrow> 'o effect option" where
  "send_interest_message c p t interval =
     (let d = get_bytes (make_segment TEDS 0 (create_request_payload t interval))
      in protocol_send p (c_address c) (broadcast TYPE_BASED_ROUTING_PORT) d (of_nat (length d)))"

definition subscribe_to_responses ::
  "'o \<Rightarrow> teds_type \<Rightarrow> period \<Rightarrow> communicator \<Rightarrow> 'o protocol \<Rightarrow> (communicator \<times> 'o protocol \<times> 'o effect) option" where
  "subscribe_to_responses ob t interval c p =
     (case subscribe_to_type ob (make_response_type t) c p of (c', p') \<Rightarrow>
        map_option (\<lambda>eff. (c', p', eff)) (send_interest_message c' p' t interval))"

section \<open>Receiving\<close>

lemma read_segment_prefix:
  assumes "SEG_HEADER_SIZE \<le> n"
  shows "read_seg_header (take n (get_bytes s)) = s_header s"
    "drop SEG_HEADER_SIZE (take n (get_bytes s)) = take (n - SEG_HEADER_SIZE) (s_payload s)"
proof -
  have "take n (get_bytes s) = seg_header_bytes (s_header s) @ take (n - SEG_HEADER_SIZE) (s_payload s)"
    using assms by (simp add: get_bytes_eq wire_simps)
  then show "read_seg_header (take n (get_bytes s)) = s_header s"
    "drop SEG_HEADER_SIZE (take n (get_bytes s)) = take (n - SEG_HEADER_SIZE) (s_payload s)"
    by (simp_all add: wire_simps)
qed

text \<open>The number of bytes copied: the capacity is narrowed to 32 bits.\<close>

lemma unat_min_narrowed:
  "unat (min (of_nat k :: u32) x) = min (k mod 2 ^ 32) (unat x)"
  by (simp add: min_def word_le_nat_alt unat_of_nat)

lemma comm_receive_frame:
  assumes f: "carries f (packet k loc sp dp (get_bytes s))"
    and "qo_ok (c_inbox c)" "qo_data (c_inbox c) = f # fs"
    and cap: "9 \<le> m_capacity m mod 2 ^ 32" "length (m_payload m) \<le> m_capacity m"
  defines "q \<equiv> min (m_capacity m mod 2 ^ 32 - 9) (length (s_payload s))"
  shows "comm_receive m c = Some (Got \<lparr>m_source = \<lparr>paddr = shost (fr_header f), port = sp\<rparr>,
      m_destination = m_destination m, m_type = seg_type (s_header s),
      m_payload = take (min q (length (m_payload m))) (s_payload s) @ replicate (q - length (m_payload m)) 0,
      m_capacity = m_capacity m, m_timestamp = seg_timestamp (s_header s)\<rparr>
    (c\<lparr>c_inbox := \<lparr>qo_semaphore = int (length fs), qo_data = fs\<rparr>\<rparr>) True)"
proof -
  note F = carries_fields [OF f]
  let ?n = "min (m_capacity m mod 2 ^ 32) (9 + length (s_payload s))"
  have pos: "m_capacity m \<noteq> 0" "q \<le> m_capacity m" using cap(1) mod_less_eq_dividend [of "m_capacity m" "2 ^ 32"]
    by (auto simp: q_def)
  have len: "unat (payload_length f) = 9 + length (s_payload s)" "length (s_payload s) \<le> 1478"
    using F(5,9) by (simp_all add: PACKET_MTU_def wire_simps)
  have n: "?n = 9 + q" using cap by (simp add: q_def)
  have raw: "take ?n (packet_data (fr_data f)) = take ?n (get_bytes s)"
  proof -
    have "take ?n (packet_data (fr_data f)) = take ?n (take (length (get_bytes s)) (packet_data (fr_data f)))"
      by (simp add: wire_simps)
    then show ?thesis by (simp only: F(4))
  qed
  have h: "read_seg_header (take ?n (get_bytes s)) = s_header s"
    "drop 9 (take ?n (get_bytes s)) = take q (s_payload s)"
    using read_segment_prefix [of ?n s] cap n by (simp_all add: wire_simps)
  have rcv: "protocol_receive f (of_nat (m_capacity m)) = (\<lparr>paddr = shost (fr_header f), port = sp\<rparr>, take ?n (get_bytes s))"
    using len(1) F(2) raw by (simp add: protocol_receive_def payload_length_def Let_def unat_min_narrowed)
  have inbox: "sem_p (qo_semaphore (c_inbox c)) = Some (int (length fs))"
    using assms(2,3) by (simp add: qo_ok_def sem_p_def)
  have len_q: "length (take q (s_payload s)) = q" by (simp add: q_def)
  have keep: "take q (overwrite (take q (s_payload s)) w) = take (min q (length w)) (s_payload s)" for w
    using take_overwrite [of "take q (s_payload s)" w] unfolding len_q by (simp add: min.commute)
  have "q \<le> 1478" using len(2) by (simp add: q_def)
  then show ?thesis
    using assms(3) pos len(1) n h rcv F(6) inbox keep
    by (simp add: comm_receive_def Let_def resize_def unat_min_narrowed wire_simps)
qed

text \<open>Too small a size: the frame is lost.\<close>

lemma comm_receive_short:
  assumes f: "carries f (packet k loc sp dp (get_bytes s))"
    and "qo_ok (c_inbox c)" "qo_data (c_inbox c) = f # fs" "m_capacity m mod 2 ^ 32 < 9"
  shows "\<exists>got. comm_receive m c = Some (Got got (c\<lparr>c_inbox := \<lparr>qo_semaphore = int (length fs), qo_data = fs\<rparr>\<rparr>) False)"
proof -
  note F = carries_fields [OF f]
  have "sem_p (qo_semaphore (c_inbox c)) = Some (int (length fs))" using assms(2,3) by (simp add: qo_ok_def sem_p_def)
  moreover have "unat (payload_length f) \<le> length (packet_data (fr_data f))" using F(5,6,9) by (simp add: PACKET_MTU_def wire_simps)
  moreover have "min (m_capacity m mod 2 ^ 32) (unat (payload_length f)) < SEG_HEADER_SIZE" using assms(4) by (simp add: wire_simps)
  ultimately show ?thesis using assms(3)
    by (auto simp: comm_receive_def Let_def unat_min_narrowed split: prod.split)
qed

text \<open>
  C24. What arrives is what was sent.  A fresh message buffer of \<open>b\<close> bytes receives the type, the
  timestamp, the source and the first \<open>b - 9\<close> payload bytes of the segment in the oldest queued frame,
  which leaves the queue.  The size that counts is \<open>b\<close> modulo \<open>2 ^ 32\<close>, because the protocol takes it as an
  \<^verbatim>\<open>unsigned int\<close>; if it is below the nine bytes of a segment header, the call reports failure and the
  frame is lost.
\<close>

theorem communicator_receives:
  assumes "carries f (packet k loc sp dp (get_bytes s))" "qo_ok (c_inbox c)" "qo_data (c_inbox c) = f # fs"
  shows "\<exists>got c' ok. comm_receive (message_buffer junk b) c = Some (Got got c' ok) \<and>
      (ok \<longleftrightarrow> 9 \<le> b mod 2 ^ 32) \<and> qo_ok (c_inbox c') \<and> qo_data (c_inbox c') = fs \<and>
      (ok \<longrightarrow> m_type got = seg_type (s_header s) \<and> m_timestamp got = seg_timestamp (s_header s) \<and>
        m_source got = \<lparr>paddr = shost (fr_header f), port = sp\<rparr> \<and> m_payload got = take (b mod 2 ^ 32 - 9) (s_payload s))"
proof (cases "9 \<le> b mod 2 ^ 32")
  case True
  have le: "b mod 2 ^ 32 \<le> b" by (rule mod_less_eq_dividend)
  let ?q = "min (b mod 2 ^ 32 - 9) (length (s_payload s))"
  have "min ?q b = ?q" "?q - b = 0" using le by auto
  moreover have "take ?q (s_payload s) = take (b mod 2 ^ 32 - 9) (s_payload s)" by (simp add: min_def)
  ultimately show ?thesis
    using comm_receive_frame [OF assms, of "message_buffer junk b"] True
    by (auto simp: message_buffer_def qo_ok_def)
next
  case False
  then obtain got where "comm_receive (message_buffer junk b) c =
      Some (Got got (c\<lparr>c_inbox := \<lparr>qo_semaphore = int (length fs), qo_data = fs\<rparr>\<rparr>) False)"
    using comm_receive_short [OF assms, of "message_buffer junk b"] by (auto simp: message_buffer_def)
  then show ?thesis using False by (intro exI conjI) (assumption, auto simp: qo_ok_def)
qed

text \<open>
  A message that is used for receiving a second time, and has fewer elements left than the new
  payload, gets only as many payload bytes as it has elements, and zeros for the rest, although its
  buffer is large enough and \<^verbatim>\<open>receive\<close> reports success.
\<close>

theorem reused_message_loses_payload:
  assumes "carries f (packet k loc sp dp (get_bytes s))" "qo_ok (c_inbox c)" "qo_data (c_inbox c) = f # fs"
    and "length (m_payload m) < length (s_payload s)" "9 + length (s_payload s) \<le> m_capacity m mod 2 ^ 32"
  shows "\<exists>got c'. comm_receive m c = Some (Got got c' True) \<and> m_payload got =
      take (length (m_payload m)) (s_payload s) @ replicate (length (s_payload s) - length (m_payload m)) 0"
proof -
  have "min (m_capacity m mod 2 ^ 32 - 9) (length (s_payload s)) = length (s_payload s)"
    "min (length (s_payload s)) (length (m_payload m)) = length (m_payload m)"
    using assms(4,5) by auto
  moreover have "9 \<le> m_capacity m mod 2 ^ 32" using assms(5) by simp
  moreover have "length (m_payload m) \<le> m_capacity m"
    using assms(4,5) mod_less_eq_dividend [of "m_capacity m" "2 ^ 32"] by linarith
  ultimately show ?thesis using comm_receive_frame [OF assms(1-3), of m] by simp
qed

section \<open>Being registered\<close>

definition registered :: "'o \<Rightarrow> 'o protocol \<Rightarrow> bool" where
  "registered ob p \<longleftrightarrow> (\<exists>pt. ob \<in> set (targets (port_observed p) pt)) \<or> (\<exists>t. ob \<in> set (targets (type_observed p) t))"

definition observers_ok :: "'o protocol \<Rightarrow> bool" where
  "observers_ok p \<longleftrightarrow> observed_ok (port_observed p) \<and> observed_ok (type_observed p)"

lemma destroy_types:
  assumes "observed_ok (type_observed p)"
  shows "observed_ok (type_observed (fold (detach_type ob) ts p)) \<and>
    port_observed (fold (detach_type ob) ts p) = port_observed p \<and>
    targets (type_observed (fold (detach_type ob) ts p)) t
      = filter (\<lambda>x. t \<in> set ts \<longrightarrow> x \<noteq> ob) (targets (type_observed p) t)"
  using assms
proof (induction ts arbitrary: p)
  case (Cons u ts)
  let ?p = "detach_type ob u p"
  have "observed_ok (type_observed ?p)" using Cons.prems by (simp add: detach_type_def zip_detach(1))
  from Cons.IH [OF this] show ?case using Cons.prems
    by (auto simp: detach_type_def targets_detach intro!: filter_cong)
qed simp

lemma subscribe_fields:
  assumes "subscribe_to_type ob t c p = (c', p')"
  shows "set (c_types c') = insert t (set (c_types c))" "c_address c' = c_address c"
    "port_observed p' = port_observed p" "type_observed p' = attach (type_observed p) (Some ob) t"
  using assms by (auto simp: subscribe_to_type_def set_insort_key split: if_splits)

lemma subscriptions_fields:
  assumes "observers_ok p"
    and "fold (\<lambda>t (c, p). subscribe_to_type ob t c p) ts (c, p) = (c', p')"
  shows "observers_ok p' \<and> set (c_types c') = set ts \<union> set (c_types c) \<and> c_address c' = c_address c \<and>
    port_observed p' = port_observed p \<and>
    (\<forall>t. filter (\<lambda>x. x \<noteq> ob) (targets (type_observed p') t) = filter (\<lambda>x. x \<noteq> ob) (targets (type_observed p) t)) \<and>
    (\<forall>t. ob \<in> set (targets (type_observed p') t) \<longleftrightarrow> t \<in> set ts \<or> ob \<in> set (targets (type_observed p) t))"
  using assms
proof (induction ts arbitrary: c p)
  case (Cons u ts)
  obtain c1 p1 where s: "subscribe_to_type ob u c p = (c1, p1)" by fastforce
  note F = subscribe_fields [OF s]
  have "observers_ok p1" using Cons.prems(1) F by (simp add: observers_ok_def observed_ok_def attach_def)
  from Cons.IH [OF this] Cons.prems(2) s show ?case by (auto simp: F targets_attach)
qed simp

text \<open>
  C31. The life of a communicator: created for a port and subscribed to any types, it is notified for
  exactly that port and those types; destroyed, it leaves the protocol with exactly the registrations
  of the other communicators, in their order, so no frame is ever handed to a dead object.
\<close>

theorem communicator_lifetime:
  assumes "observers_ok p" "\<not> registered ob p" "comm_new ob a p = (c, p1)"
    and "fold (\<lambda>t (c, p). subscribe_to_type ob t c p) ts (c, p1) = (c2, p2)"
  shows "(ob \<in> set (targets (port_observed p2) pt) \<longleftrightarrow> pt = port a) \<and>
    (ob \<in> set (targets (type_observed p2) t) \<longleftrightarrow> t \<in> set ts) \<and>
    targets (port_observed (comm_destroy ob c2 p2)) pt = targets (port_observed p) pt \<and>
    targets (type_observed (comm_destroy ob c2 p2)) t = targets (type_observed p) t"
proof -
  have new: "c_types c = []" "c_address c = a" "type_observed p1 = type_observed p"
      "port_observed p1 = attach (port_observed p) (Some ob) (port a)" "observers_ok p1"
    using assms(1,3) by (auto simp: comm_new_def observers_ok_def observed_ok_def attach_def)
  note S = subscriptions_fields [OF new(5) assms(4)]
  have ok: "observed_ok (port_observed p1)" "observed_ok (type_observed p2)"
    using new(5) S by (auto simp: observers_ok_def)
  have out: "ob \<notin> set (targets (port_observed p) pt)" "ob \<notin> set (targets (type_observed p) t)" for pt t
    using assms(2) by (auto simp: registered_def)
  then have id: "filter (\<lambda>x. x \<noteq> ob) (targets (port_observed p) pt) = targets (port_observed p) pt"
      "filter (\<lambda>x. x \<noteq> ob) (targets (type_observed p) t) = targets (type_observed p) t" for pt t
    by (auto simp: filter_id_conv)
  let ?p = "p2\<lparr>port_observed := detach (port_observed p2) (Some ob) (port a)\<rparr>"
  have D: "port_observed (comm_destroy ob c2 p2) = detach (port_observed p1) (Some ob) (port a)"
      "targets (type_observed (comm_destroy ob c2 p2)) t
        = filter (\<lambda>x. t \<in> set (c_types c2) \<longrightarrow> x \<noteq> ob) (targets (type_observed p2) t)"
    using destroy_types [of ?p ob "c_types c2"] ok(2) S new(2) by (simp_all add: comm_destroy_def)
  have "targets (port_observed (comm_destroy ob c2 p2)) pt = targets (port_observed p) pt"
    using out(1) [of pt] targets_detach [OF ok(1), of ob "port a" pt]
    by (auto simp: D(1) new(4) targets_attach filter_id_conv)
  moreover have "targets (type_observed (comm_destroy ob c2 p2)) t = targets (type_observed p) t"
  proof (cases "t \<in> set ts")
    case True
    then show ?thesis unfolding D(2) using S id(2) [of t] new(3) by simp
  next
    case False
    then have "ob \<notin> set (targets (type_observed p2) t)" using S new(3) out(2) by simp
    then have "filter (\<lambda>x. x \<noteq> ob) (targets (type_observed p2) t) = targets (type_observed p2) t"
      by (auto simp: filter_id_conv)
    moreover have "filter (\<lambda>x. x \<noteq> ob) (targets (type_observed p2) t) = filter (\<lambda>x. x \<noteq> ob) (targets (type_observed p1) t)"
      using S by blast
    moreover have "t \<notin> set (c_types c2)" using S new(1) False by simp
    ultimately show ?thesis unfolding D(2) using id(2) [of t] new(3) by simp
  qed
  moreover have "ob \<in> set (targets (port_observed p2) pt) \<longleftrightarrow> pt = port a"
  proof -
    have "port_observed p2 = attach (port_observed p) (Some ob) (port a)" using S new(4) by simp
    then show ?thesis using out(1) [of pt] by (auto simp: targets_attach)
  qed
  moreover have "ob \<in> set (targets (type_observed p2) t) \<longleftrightarrow> t \<in> set ts" using S out(2) [of t] new(3) by simp
  ultimately show ?thesis by (simp only: simp_thms)
qed

section \<open>Concrete communicators\<close>

definition sample_comm :: communicator where
  "sample_comm = queue_incoming_buffer (sample_frame (packet 99 EAST 7 1000 sample_segment))
     (fst (comm_new 1 \<lparr>paddr = LOCAL_ADDR, port = 1000\<rparr> (init_component sample_gateway)))"

lemma sample_comm_inbox:
  "qo_ok (c_inbox sample_comm)" "qo_data (c_inbox sample_comm) = [sample_frame (packet 99 EAST 7 1000 sample_segment)]"
  by (simp_all add: sample_comm_def queue_incoming_buffer_def comm_new_def qo_ok_def qo_update_def qo_init_def sem_v_def)

lemma sample_comm_carries:
  "carries (sample_frame (packet 99 EAST 7 1000 sample_segment)) (packet 99 EAST 7 1000 (get_bytes (make_segment TEDS 5 [1, 2, 3])))"
  unfolding sample_segment_def by (rule sample_frame_carries) (simp add: wire_simps make_segment_def)

theorem communicator_receives_witness:
  "\<exists>got c'. comm_receive (message_buffer 0 1024) sample_comm = Some (Got got c' True) \<and>
     m_type got = msg_type_byte TEDS \<and> m_payload got = [1, 2, 3] \<and> qo_data (c_inbox c') = []"
  using communicator_receives [OF sample_comm_carries sample_comm_inbox, of 0 1024]
  by (auto simp: make_segment_def)

theorem reused_message_loses_payload_witness:
  "\<exists>got c'. comm_receive ((message_buffer 0 1024)\<lparr>m_payload := [9]\<rparr>) sample_comm = Some (Got got c' True) \<and>
     m_payload got = [1, 0, 0]"
  using reused_message_loses_payload [OF sample_comm_carries sample_comm_inbox, of "(message_buffer 0 1024)\<lparr>m_payload := [9]\<rparr>"]
  by (simp add: make_segment_def message_buffer_def wire_simps)

lemma sample_gateway_observers:
  "observers_ok sample_gateway" "ob \<noteq> 1 \<Longrightarrow> \<not> registered ob sample_gateway"
  "targets (port_observed sample_gateway) pt = (if pt = 1000 then [1] else [])"
  "targets (type_observed sample_gateway) t = []"
  by (simp_all add: observers_ok_def registered_def sample_gateway_def observed_ok_def attach_def observed_empty_def targets_def)

theorem communicator_lifetime_witness:
  "\<exists>c2 p2. fold (\<lambda>t (c, p). subscribe_to_type 2 t c p) [make_request_type PRESSURE]
      (comm_new 2 (local 1001) sample_gateway) = (c2, p2) \<and>
    2 \<in> set (targets (port_observed p2) 1001) \<and>
    targets (port_observed (comm_destroy 2 c2 p2)) 1000 = [1]"
proof -
  obtain c p1 where n: "comm_new 2 (local 1001) sample_gateway = (c, p1)" by fastforce
  obtain c2 p2 where s: "fold (\<lambda>t (c, p). subscribe_to_type 2 t c p) [make_request_type PRESSURE] (c, p1) = (c2, p2)"
    by fastforce
  show ?thesis
    using communicator_lifetime [OF sample_gateway_observers(1) sample_gateway_observers(2) n s, of 1001]
      communicator_lifetime [OF sample_gateway_observers(1) sample_gateway_observers(2) n s, of 1000] n s
    by (simp add: sample_gateway_observers local_def)
qed

end
