(* ===== verification/App_Handlers.thy ===== *)
theory App_Handlers
  imports Communicator_Model
begin

text \<open>
  Control messages: the envelope of \<^verbatim>\<open>control_envelope.hpp\<close> (packed five-byte header), the latency
  test packet of \<^verbatim>\<open>latency_test.hpp\<close> (not packed: 24 bytes, four of them padding whose content is a
  parameter) and the handler of \<^verbatim>\<open>latency_test_handler.hpp\<close>, which echoes pings and measures round
  trips.  Reading beyond a vector is undefined, the result \<open>None\<close>.
\<close>

section \<open>ControlEnvelope\<close>

datatype control_type = LATENCY | CONTROL_UNDEFINED

primrec control_type_byte :: "control_type \<Rightarrow> byte" where
  "control_type_byte LATENCY = 1"
| "control_type_byte CONTROL_UNDEFINED = 9"

record envelope =
  env_type :: byte
  env_len :: u32
  env_payload :: bytes

definition ENVELOPE_HEADER_SIZE :: nat where [wire_simps]: "ENVELOPE_HEADER_SIZE = 5"

definition envelope_header :: "envelope \<Rightarrow> bytes" where
  "envelope_header e = env_type e # le_bytes 4 (env_len e)"

definition total_size :: "envelope \<Rightarrow> nat" where
  "total_size e = ENVELOPE_HEADER_SIZE + length (env_payload e)"

definition serialize :: "envelope \<Rightarrow> bytes \<Rightarrow> bytes" where
  "serialize e dst = memcpy_at ENVELOPE_HEADER_SIZE (env_payload e) (memcpy_at 0 (envelope_header e) dst)"

definition from_buffer :: "bytes \<Rightarrow> envelope option" where
  "from_buffer src =
     (if length src < ENVELOPE_HEADER_SIZE then None
      else
        let t = src ! 0; n = (le_word (read_at 1 4 src) :: u32);
            packet_payload_size = unat n;
            actual_payload_size = (if length src > ENVELOPE_HEADER_SIZE then length src - ENVELOPE_HEADER_SIZE else 0);
            bytes_to_copy = (if packet_payload_size \<le> actual_payload_size then packet_payload_size else actual_payload_size)
        in Some \<lparr>env_type = t, env_len = n, env_payload = read_at ENVELOPE_HEADER_SIZE bytes_to_copy src\<rparr>)"

definition create_envelope :: "bytes \<Rightarrow> control_type \<Rightarrow> envelope" where
  "create_envelope pod t = \<lparr>env_type = control_type_byte t, env_len = of_nat (length pod), env_payload = pod\<rparr>"

section \<open>LatencyTest packets\<close>

datatype latency_type = PING | ECHO | LATENCY_UNDEFINED

primrec latency_type_word :: "latency_type \<Rightarrow> u32" where
  "latency_type_word PING = 1"
| "latency_type_word ECHO = 2"
| "latency_type_word LATENCY_UNDEFINED = 3"

definition LATENCY_HEADER_SIZE :: nat where [wire_simps]: "LATENCY_HEADER_SIZE = 16"
definition LATENCY_PACKET_SIZE :: nat where [wire_simps]: "LATENCY_PACKET_SIZE = 24"

definition latency_packet :: "bytes \<Rightarrow> latency_type \<Rightarrow> u64 \<Rightarrow> u64 \<Rightarrow> bytes" where
  "latency_packet pad t sid ts = le_bytes 4 (latency_type_word t) @ take 4 pad @ le_bytes 8 sid @ le_bytes 8 ts"

definition lat_type :: "bytes \<Rightarrow> u32" where "lat_type d = le_word (read_at 0 4 d)"
definition lat_sender :: "bytes \<Rightarrow> u64" where "lat_sender d = le_word (read_at 8 8 d)"
definition lat_timestamp :: "bytes \<Rightarrow> u64" where "lat_timestamp d = le_word (read_at LATENCY_HEADER_SIZE 8 d)"

section \<open>LatencyTestHandler\<close>

text \<open>\<^verbatim>\<open>send_ping\<close> and \<^verbatim>\<open>send_echo\<close> differ in the type, the time stamp and the sender they name.\<close>

definition control_message :: "address \<Rightarrow> address \<Rightarrow> bytes \<Rightarrow> message" where
  "control_message src dest pod =
     (let e = create_envelope pod LATENCY
      in (message_control dest (serialize e (replicate (total_size e) 0)))\<lparr>m_source := src\<rparr>)"

definition ping_message :: "bytes \<Rightarrow> u64 \<Rightarrow> u64 \<Rightarrow> communicator \<Rightarrow> address \<Rightarrow> message" where
  "ping_message pad now my_id c dest = control_message (c_address c) dest (latency_packet pad PING my_id now)"

definition echo_message :: "bytes \<Rightarrow> communicator \<Rightarrow> address \<Rightarrow> u64 \<Rightarrow> u64 \<Rightarrow> message" where
  "echo_message pad c dest ts sid = control_message (c_address c) dest (latency_packet pad ECHO sid ts)"

definition compute_rtt :: "u64 \<Rightarrow> u64 \<Rightarrow> u64" where
  "compute_rtt now payload_timestamp = now - payload_timestamp"

datatype latency_result = Send_echo message | Round_trip u64 address | No_reaction

definition handleControlMessage :: "bytes \<Rightarrow> u64 \<Rightarrow> u64 \<Rightarrow> communicator \<Rightarrow> message \<Rightarrow> latency_result option" where
  "handleControlMessage pad now my_id c m = (case from_buffer (m_payload m) of None \<Rightarrow> None
     | Some e \<Rightarrow>
         (let d = env_payload e in
          if env_type e \<noteq> control_type_byte LATENCY then Some No_reaction
          else if length d < LATENCY_HEADER_SIZE then None
          else if lat_type d = latency_type_word PING then
            (if length d < LATENCY_PACKET_SIZE then None
             else
               let dst = (if paddr (m_source m) = LOCAL_ADDR then local 1000 else broadcast 1000)
               in Some (Send_echo (echo_message pad c dst (lat_timestamp d) (lat_sender d))))
          else if lat_type d = latency_type_word ECHO \<and> lat_sender d = my_id then
            (if length d < LATENCY_PACKET_SIZE then None
             else Some (Round_trip (compute_rtt now (lat_timestamp d)) (m_source m)))
          else Some No_reaction))"

section \<open>Round trips\<close>

lemma serialize_eq:
  assumes "length dst = total_size e"
  shows "serialize e dst = envelope_header e @ env_payload e"
proof -
  have "memcpy_at 0 (envelope_header e) dst = envelope_header e @ drop 5 dst"
    by (simp add: memcpy_at_def envelope_header_def)
  then show ?thesis using assms
    by (simp add: serialize_def memcpy_at_def total_size_def wire_simps envelope_header_def)
qed

lemma from_buffer_serialize:
  assumes "length dst = total_size e" "length (env_payload e) = unat (env_len e)"
  shows "from_buffer (serialize e dst @ rest) = Some e"
proof -
  let ?b = "serialize e dst @ rest"
  have b: "?b = env_type e # le_bytes 4 (env_len e) @ env_payload e @ rest"
    by (simp add: serialize_eq [OF assms(1)] envelope_header_def)
  have "read_at 1 4 ?b = le_bytes 4 (env_len e)" "read_at 5 (length (env_payload e)) ?b = env_payload e"
    unfolding b by (simp_all add: read_at_def)
  moreover have "length ?b = 5 + length (env_payload e) + length rest" unfolding b by simp
  ultimately show ?thesis using assms(2) b by (simp add: from_buffer_def Let_def wire_simps)
qed

text \<open>
  The envelope: what is serialised into a buffer of \<open>total_size\<close> bytes is read back, whatever
  follows it; reading never takes more than the buffer holds or the header announces; and only a
  buffer shorter than the header is read beyond its end.
\<close>

theorem envelope_roundtrip:
  assumes "length dst = total_size e" "length (env_payload e) = unat (env_len e)"
  shows "from_buffer (serialize e dst @ rest) = Some e \<and>
    (from_buffer src = None \<longleftrightarrow> length src < ENVELOPE_HEADER_SIZE) \<and>
    (\<forall>e'. from_buffer src = Some e' \<longrightarrow>
       length (env_payload e') = min (unat (env_len e')) (length src - ENVELOPE_HEADER_SIZE))"
  using from_buffer_serialize [OF assms] by (auto simp: from_buffer_def Let_def wire_simps)

theorem envelope_roundtrip_witness:
  "from_buffer (serialize (create_envelope [7, 8] LATENCY) (replicate 7 0) @ [9]) = Some (create_envelope [7, 8] LATENCY) \<and>
   from_buffer [1, 2, 0, 0] = None"
  using envelope_roundtrip [of "replicate 7 0" "create_envelope [7, 8] LATENCY" "[9]" "[1, 2, 0, 0]"]
  by (simp add: create_envelope_def total_size_def wire_simps)

lemma length_latency_packet: "4 \<le> length pad \<Longrightarrow> length (latency_packet pad t sid ts) = 24"
  by (simp add: latency_packet_def)

lemma latency_packet_fields:
  assumes "4 \<le> length pad"
  shows "lat_type (latency_packet pad t sid ts) = latency_type_word t" "lat_sender (latency_packet pad t sid ts) = sid"
    "lat_timestamp (latency_packet pad t sid ts) = ts"
  using assms
  by (simp_all add: latency_packet_def lat_type_def lat_sender_def lat_timestamp_def read_at_def wire_simps min_def
      le_word_le_bytes_full)

lemma control_message_fields [simp]:
  "m_source (control_message src dest pk) = src" "m_destination (control_message src dest pk) = dest"
  "m_type (control_message src dest pk) = msg_type_byte CONTROL"
  by (simp_all add: control_message_def Let_def message_control_def message_of_def)

lemma from_buffer_control_message:
  assumes "length pk = 24"
  shows "from_buffer (m_payload (control_message src dest pk)) = Some (create_envelope pk LATENCY)"
  using from_buffer_serialize [of "replicate 29 0" "create_envelope pk LATENCY" "[]"] assms
  by (simp add: control_message_def Let_def message_control_def message_of_def create_envelope_def total_size_def wire_simps)

text \<open>
  C32. Measuring latency: a ping delivered unchanged to any component (which may have seen it come from
  another address) is answered by one echo, to the local port or broadcast according to where it came
  from; the echo delivered back to the component that pinged yields exactly the time elapsed, modulo
  \<open>2 ^ 64\<close> nanoseconds; any other component ignores it.  Padding bytes play no part.
\<close>

theorem latency_exchange:
  assumes "4 \<le> length pad" "4 \<le> length pad'" "m_payload pinged = m_payload (ping_message pad t0 my_id c dest)"
    and "m_payload echoed = m_payload (echo_message pad' d dst t0 my_id)"
  shows "handleControlMessage pad' now' other_id d pinged =
      Some (Send_echo (echo_message pad' d (if paddr (m_source pinged) = LOCAL_ADDR then local 1000 else broadcast 1000) t0 my_id)) \<and>
    handleControlMessage pad now2 my_id c echoed = Some (Round_trip (now2 - t0) (m_source echoed)) \<and>
    (other_id \<noteq> my_id \<longrightarrow> handleControlMessage pad now2 other_id c echoed = Some No_reaction)"
proof -
  note len = length_latency_packet [OF assms(1)] length_latency_packet [OF assms(2)]
  note fields = latency_packet_fields [OF assms(1)] latency_packet_fields [OF assms(2)]
  have env: "env_payload (create_envelope pk LATENCY) = pk" "env_type (create_envelope pk LATENCY) = 1" for pk
    by (simp_all add: create_envelope_def)
  show ?thesis
    by (simp add: handleControlMessage_def assms(3,4) ping_message_def echo_message_def from_buffer_control_message len
        env fields compute_rtt_def wire_simps)
qed

theorem latency_exchange_witness:
  "handleControlMessage [0, 0, 0, 0] 500 7 sample_comm (echo_message [1, 2, 3, 4] sample_comm (local 1000) 300 7)
     = Some (Round_trip 200 (c_address sample_comm))"
  using latency_exchange [of "[0, 0, 0, 0]" "[1, 2, 3, 4]" "ping_message [0, 0, 0, 0] 300 7 sample_comm (local 1000)" 300 7
      sample_comm "local 1000" "echo_message [1, 2, 3, 4] sample_comm (local 1000) 300 7" sample_comm "local 1000" 0 9 500]
  by (simp add: echo_message_def)

section \<open>The send routine of a component\<close>

text \<open>
  One turn of \<^verbatim>\<open>active_send\<close>: unless the drawn number is divisible by six a ping goes out, and the next
  one goes the other way.  A turn is given by the padding, the clock and the number drawn.
\<close>

definition active_send_turn ::
  "u64 \<Rightarrow> communicator \<Rightarrow> bytes \<times> u64 \<times> nat \<Rightarrow> bool \<times> message list \<Rightarrow> bool \<times> message list" where
  "active_send_turn my_id c turn acc = (case (turn, acc) of ((pad, now, r), (external_ping, out)) \<Rightarrow>
     (let dst = (if external_ping then broadcast 1000 else local 1000)
      in if r mod 6 \<noteq> 0 then (\<not> external_ping, out @ [ping_message pad now my_id c dst]) else (external_ping, out)))"

definition active_send :: "u64 \<Rightarrow> communicator \<Rightarrow> (bytes \<times> u64 \<times> nat) list \<Rightarrow> message list" where
  "active_send my_id c turns = snd (fold (active_send_turn my_id c) turns (True, []))"

lemma ping_destination [simp]: "m_destination (ping_message pad now my_id c dst) = dst"
  by (simp add: ping_message_def control_message_def message_control_def message_of_def Let_def)

text \<open>Pings to all vehicles and pings inside the vehicle alternate, whatever turns are left out.\<close>

lemma active_send_alternates:
  "map m_destination (active_send my_id c turns) =
   map (\<lambda>i. if even i then broadcast 1000 else local 1000) [0..<length (filter (\<lambda>(_, _, r). r mod 6 \<noteq> 0) turns)]"
proof -
  have "map m_destination (snd (fold (active_send_turn my_id c) turns (even (length out), out))) =
      map m_destination out @ map (\<lambda>i. if even i then broadcast 1000 else local 1000)
        [length out..<length out + length (filter (\<lambda>(_, _, r). r mod 6 \<noteq> 0) turns)]" for out
  proof (induction turns arbitrary: out)
    case (Cons t ts)
    obtain pad now r where t: "t = (pad, now, r)" by (cases t)
    let ?m = "ping_message pad now my_id c (if even (length out) then broadcast 1000 else local 1000)"
    show ?case
      using Cons.IH [of out] Cons.IH [of "out @ [?m]"]
      by (simp add: t active_send_turn_def Let_def upt_conv_Cons del: upt_Suc)
  qed simp
  from this [of "[]"] show ?thesis by (simp add: active_send_def)
qed

end
