(* ===== verification/Teds_Service.thy ===== *)
theory Teds_Service
  imports App_Handlers
begin

text \<open>
  The application side of a component: the smart data chain from generator to reader
  (\<^verbatim>\<open>transducer.hpp\<close>, \<^verbatim>\<open>local_smartdata.hpp\<close>), the component with its response thread
  (\<^verbatim>\<open>component.hpp\<close>) and the handler that keeps the subscribers of each TEDS type
  (\<^verbatim>\<open>teds_handler.hpp\<close>).  Values have a type \<open>'v\<close>, the float conversions of the target are
  parameters.  A fault is a read beyond a vector or a call of \<^verbatim>\<open>std::terminate\<close>.
\<close>

datatype fault = Out_of_range | Terminated

type_synonym 'a run = "fault + 'a"

section \<open>Smart data\<close>

record 'v smart_data =
  transducer_value :: 'v
  updated_value :: 'v

text \<open>The generator notifies the transducer, which stores the value and notifies the smart data.\<close>

definition transducer_update :: "'v \<Rightarrow> 'v smart_data \<Rightarrow> 'v smart_data" where
  "transducer_update d s = s\<lparr>transducer_value := d, updated_value := d\<rparr>"

definition sense :: "'v smart_data \<Rightarrow> 'v" where
  "sense s = transducer_value s"

text \<open>\<^verbatim>\<open>Transducer::actuate\<close> has an empty body.\<close>

definition actuate :: "'v \<Rightarrow> 'v smart_data \<Rightarrow> 'v smart_data" where
  "actuate d s = s"

section \<open>The component\<close>

record 'v component =
  response_running :: bool
  responses_interval :: period
  response_type :: teds_type
  thread_joinable :: bool
  smart :: "'v smart_data"

definition component_init :: "teds_type \<Rightarrow> 'v smart_data \<Rightarrow> 'v component" where
  "component_init junk s = \<lparr>response_running = False, responses_interval = 0, response_type = junk,
     thread_joinable = False, smart = s\<rparr>"

definition period_gcd :: "period \<Rightarrow> period \<Rightarrow> period" where
  "period_gcd a b = of_nat (gcd (unat a) (unat b))"

text \<open>
  Assigning a new thread to a \<^verbatim>\<open>std::thread\<close> that is still joinable terminates the program; nothing
  ever joins the response thread.
\<close>

definition notify_interest_request :: "period \<Rightarrow> teds_type \<Rightarrow> bool \<Rightarrow> 'v component \<Rightarrow> 'v component run" where
  "notify_interest_request requested_interval t reset c =
     (if requested_interval = 0 then Inr (c\<lparr>response_running := False, responses_interval := 0\<rparr>)
      else
        let interval = (if reset then requested_interval
              else if responses_interval c \<noteq> requested_interval then period_gcd (responses_interval c) requested_interval
              else responses_interval c);
            c1 = c\<lparr>responses_interval := interval, response_type := t\<rparr>
        in if \<not> response_running c1 then
             (if thread_joinable c1 then Inl Terminated
              else Inr (c1\<lparr>response_running := True, thread_joinable := True\<rparr>))
           else Inr c1)"

definition apply_value_from_payload :: "(u32 \<Rightarrow> 'v) \<Rightarrow> bytes \<Rightarrow> 'v component \<Rightarrow> 'v component run" where
  "apply_value_from_payload of_float pl c =
     (if length pl < TEDS_HEADER_SIZE + TEDS_DATA_SIZE then Inl Out_of_range
      else Inr (c\<lparr>smart := actuate (of_float (teds_data_word pl)) (smart c)\<rparr>))"

definition get_value :: "'v component \<Rightarrow> 'v" where
  "get_value c = updated_value (smart c)"

section \<open>TEDSHandler\<close>

type_synonym subscriber = "address \<times> period"

type_synonym subscriptions = "(teds_type \<times> subscriber list) list"

text \<open>\<^verbatim>\<open>std::map::operator[]\<close> on the entries in key order.\<close>

primrec map_upsert :: "teds_type \<Rightarrow> (subscriber list \<Rightarrow> subscriber list) \<Rightarrow> subscriptions \<Rightarrow> subscriptions" where
  "map_upsert k f [] = [(k, f [])]"
| "map_upsert k f (x # xs) =
     (if fst x = k then (k, f (snd x)) # xs
      else if k < fst x then (k, f []) # x # xs
      else x # map_upsert k f xs)"

primrec subscribe :: "address \<Rightarrow> period \<Rightarrow> subscriber list \<Rightarrow> subscriber list" where
  "subscribe src p [] = [(src, p)]"
| "subscribe src p (x # xs) = (if address_eq (fst x) src then (fst x, p) # xs else x # subscribe src p xs)"

record 'v teds_handler =
  subscribers :: subscriptions
  bridge :: "'v component"

definition handleTEDSMessage :: "(u32 \<Rightarrow> 'v) \<Rightarrow> message \<Rightarrow> 'v teds_handler \<Rightarrow> 'v teds_handler run" where
  "handleTEDSMessage of_float m h =
     (let pl = m_payload m in
      if length pl < TEDS_HEADER_SIZE then Inl Out_of_range
      else
        let t = teds_header_type pl in
        if is_request t then
          (if length pl < TEDS_HEADER_SIZE + TEDS_DATA_SIZE then Inl Out_of_range
           else
             let period = teds_data_word pl;
                 subs = map_upsert t (subscribe (m_source m) period) (subscribers h)
             in map_sum id (\<lambda>c. \<lparr>subscribers = subs, bridge = c\<rparr>) (notify_interest_request period t False (bridge h)))
        else if is_response t then
          map_sum id (\<lambda>c. h\<lparr>bridge := c\<rparr>) (apply_value_from_payload of_float pl (bridge h))
        else Inr h)"

definition gcd_periods :: "subscriber list \<Rightarrow> period" where
  "gcd_periods l = (case l of [] \<Rightarrow> 0 | x # xs \<Rightarrow> foldl (\<lambda>g s. period_gcd g (snd s)) (snd x) xs)"

text \<open>One pass of \<^verbatim>\<open>cleanup_loop\<close> over the map.\<close>

primrec cleanup :: "(address \<Rightarrow> bool) \<Rightarrow> subscriptions \<Rightarrow> 'v component \<Rightarrow> (subscriptions \<times> 'v component) run" where
  "cleanup nearby [] c = Inr ([], c)"
| "cleanup nearby (x # xs) c =
     (let t = fst x; l = filter (\<lambda>s. nearby (fst s)) (snd x);
          list_changed = (length l \<noteq> length (snd x))
      in case (if list_changed then notify_interest_request (if l = [] then 0 else gcd_periods l) t True c else Inr c) of
           Inl e \<Rightarrow> Inl e
         | Inr c1 \<Rightarrow> (case cleanup nearby xs c1 of Inl e \<Rightarrow> Inl e
             | Inr (ys, c2) \<Rightarrow> Inr (if l = [] then ys else (t, l) # ys, c2)))"

definition cleanup_pass :: "shared_block \<Rightarrow> 'v teds_handler \<Rightarrow> 'v teds_handler run" where
  "cleanup_pass b h = map_sum id (\<lambda>(subs, c). \<lparr>subscribers = subs, bridge = c\<rparr>)
     (cleanup (\<lambda>a. is_entity_nearby (paddr a) b) (subscribers h) (bridge h))"

section \<open>Answering\<close>

text \<open>A float is true in a condition unless it is a zero of either sign.\<close>

definition float_nonzero :: "u32 \<Rightarrow> bool" where
  "float_nonzero v \<longleftrightarrow> v AND 0x7FFFFFFF \<noteq> 0"

definition send_response :: "int \<Rightarrow> address \<Rightarrow> address \<Rightarrow> teds_type \<Rightarrow> u32 \<Rightarrow> message option" where
  "send_response ns my_address dest t sensor_data =
     (if float_nonzero sensor_data then Some ((message_response ns dest t sensor_data)\<lparr>m_source := my_address\<rparr>) else None)"

definition response_thread_turn :: "('v \<Rightarrow> u32) \<Rightarrow> int \<Rightarrow> address \<Rightarrow> 'v component \<Rightarrow> message option" where
  "response_thread_turn to_float ns my_address c =
     (if response_running c
      then send_response ns my_address (broadcast TYPE_BASED_ROUTING_PORT) (response_type c) (to_float (get_value c))
      else None)"

section \<open>Dispatch and start\<close>

datatype 'v reaction = Teds_state "'v teds_handler run" | Control "latency_result option" | Unknown_type

definition receiver_turn ::
  "(u32 \<Rightarrow> 'v) \<Rightarrow> bytes \<Rightarrow> u64 \<Rightarrow> u64 \<Rightarrow> communicator \<Rightarrow> message \<Rightarrow> 'v teds_handler \<Rightarrow> 'v reaction" where
  "receiver_turn of_float pad now sender_id c m h = (case msg_type_of (m_type m) of
     Some TEDS \<Rightarrow> Teds_state (handleTEDSMessage of_float m h)
   | Some CONTROL \<Rightarrow> Control (handleControlMessage pad now sender_id c m)
   | _ \<Rightarrow> Unknown_type)"

datatype transducer_type = ACTUATOR | SENSOR

text \<open>
  The constructor: a port from the directory, the communicator on it, the protocol without an
  external interface, and the subscription of its kind.
\<close>

definition registerAndGetPort ::
  "bool \<Rightarrow> nat \<Rightarrow> string \<Rightarrow> u32 \<Rightarrow> 'o protocol \<Rightarrow> (u16 \<times> 'o protocol) result" where
  "registerAndGetPort sem_ok pid name type_id p = (case registerService sem_ok pid name type_id (local_block p) of (pt, b) \<Rightarrow>
     if pt = 0 then Inl (Runtime_error (''Failed to register component '' @ name))
     else Inr (pt, p\<lparr>local_block := b\<rparr>))"

definition component_start ::
  "bool \<Rightarrow> nat \<Rightarrow> 'o \<Rightarrow> string \<Rightarrow> u32 \<Rightarrow> mac \<Rightarrow> transducer_type \<Rightarrow> teds_type \<Rightarrow> period \<Rightarrow> 'o protocol \<Rightarrow>
    (communicator \<times> 'o protocol \<times> 'o effect) option result" where
  "component_start sem_ok pid ob name type_id nic_addr tt u interval p =
     (case registerAndGetPort sem_ok pid name type_id p of Inl e \<Rightarrow> Inl e
      | Inr (pt, p1) \<Rightarrow>
         (case comm_new ob \<lparr>paddr = nic_addr, port = pt\<rparr> p1 of (c, p2) \<Rightarrow>
            Inr (case tt of
                ACTUATOR \<Rightarrow> subscribe_to_responses ob u interval c (init_component p2)
              | SENSOR \<Rightarrow> (case subscribe_to_requests ob u c (init_component p2) of (c', p3) \<Rightarrow> Some (c', p3, [], None)))))"

section \<open>Subscribers as a map\<close>





lemma subscribe_nonempty [simp]: "subscribe src p l \<noteq> []"
  by (cases l) simp_all


section \<open>Greatest common divisors of periods\<close>

lemma unat_period_gcd: "unat (period_gcd a b) = gcd (unat a) (unat b)"
proof -
  have "gcd (unat a) (unat b) < 2 ^ LENGTH(32)"
  proof (cases "unat a = 0")
    case True
    then show ?thesis using unsigned_less [of b] by simp
  next
    case False
    then have "gcd (unat a) (unat b) \<le> unat a" by (simp add: gcd_le1_nat)
    also have "\<dots> < 2 ^ LENGTH(32)" by (rule unsigned_less)
    finally show ?thesis .
  qed
  then show ?thesis by (simp add: period_gcd_def unat_of_nat_small)
qed

lemma period_gcd_zero: "period_gcd a b = 0 \<longleftrightarrow> a = 0 \<and> b = 0"
  by (simp add: unat_period_gcd flip: unat_eq_0)

lemma foldl_gcd:
  "unat (foldl (\<lambda>g s. period_gcd g (snd s)) g xs) dvd unat g \<and>
   (\<forall>s\<in>set xs. unat (foldl (\<lambda>g s. period_gcd g (snd s)) g xs) dvd unat (snd s)) \<and>
   (g \<noteq> 0 \<longrightarrow> foldl (\<lambda>g s. period_gcd g (snd s)) g xs \<noteq> 0)"
proof (induction xs arbitrary: g)
  case (Cons x xs)
  show ?case using Cons.IH [of "period_gcd g (snd x)"]
    by (auto simp: unat_period_gcd period_gcd_zero)
qed simp

lemma gcd_periods_dvd:
  assumes "l \<noteq> []" "\<forall>s\<in>set l. snd s \<noteq> 0"
  shows "gcd_periods l \<noteq> 0" "s \<in> set l \<Longrightarrow> unat (gcd_periods l) dvd unat (snd s)"
  using assms foldl_gcd [of "snd (hd l)" "tl l"] by (auto simp: gcd_periods_def split: list.splits)

section \<open>The service of one sensor\<close>

text \<open>
  A sensor is subscribed to one type \<open>t\<close>.  Its map of subscribers is then empty or has one entry, and
  the response interval divides every subscriber's period.
\<close>

definition serving :: "teds_type \<Rightarrow> subscriber list \<Rightarrow> 'v component \<Rightarrow> bool" where
  "serving t l c \<longleftrightarrow> response_running c \<and> thread_joinable c \<and> response_type c = t \<and> responses_interval c \<noteq> 0 \<and>
     distinct (map fst l) \<and> (\<forall>s\<in>set l. snd s \<noteq> 0 \<and> unat (responses_interval c) dvd unat (snd s))"

definition teds_ok :: "teds_type \<Rightarrow> 'v teds_handler \<Rightarrow> bool" where
  "teds_ok t h \<longleftrightarrow>
     (if subscribers h = [] then \<not> response_running (bridge h) \<and> responses_interval (bridge h) = 0
      else \<exists>l. subscribers h = [(t, l)] \<and> l \<noteq> [] \<and> serving t l (bridge h))"

definition subscriber_map :: "'v teds_handler \<Rightarrow> teds_type \<Rightarrow> address \<rightharpoonup> period" where
  "subscriber_map h t = (case map_of (subscribers h) t of None \<Rightarrow> Map.empty | Some l \<Rightarrow> map_of l)"

definition interest_in :: "teds_type \<Rightarrow> message \<Rightarrow> bool" where
  "interest_in t m \<longleftrightarrow> 8 \<le> length (m_payload m) \<and> teds_header_type (m_payload m) = t \<and>
     teds_data_word (m_payload m) \<noteq> 0"

lemma handle_interest:
  assumes "is_request t" "interest_in t m"
  shows "handleTEDSMessage of_float m h =
    map_sum id (\<lambda>c. \<lparr>subscribers = map_upsert t (subscribe (m_source m) (teds_data_word (m_payload m))) (subscribers h),
        bridge = c\<rparr>) (notify_interest_request (teds_data_word (m_payload m)) t False (bridge h))"
  using assms by (simp add: handleTEDSMessage_def interest_in_def Let_def wire_simps)

lemma interest_first:
  assumes "is_request t" "interest_in t m" "subscribers h = []" "teds_ok t h"
  shows "handleTEDSMessage of_float m h =
    (if thread_joinable (bridge h) then Inl Terminated
     else Inr \<lparr>subscribers = [(t, [(m_source m, teds_data_word (m_payload m))])],
       bridge = (bridge h)\<lparr>responses_interval := teds_data_word (m_payload m), response_type := t,
         response_running := True, thread_joinable := True\<rparr>\<rparr>)"
proof -
  have "period_gcd 0 p = p" for p
    using unat_period_gcd [of 0 p] by (simp add: word_unat_eq_iff)
  then show ?thesis using assms(2-4)
    by (simp add: handle_interest [OF assms(1,2)] notify_interest_request_def interest_in_def teds_ok_def Let_def)
qed


lemma cleanup_one:
  fixes nearby :: "address \<Rightarrow> bool"
  assumes "serving t l c" "l \<noteq> []"
  defines "l' \<equiv> filter (\<lambda>s. nearby (fst s)) l"
  shows "\<exists>c'. cleanup nearby [(t, l)] c = Inr (if l' = [] then [] else [(t, l')], c') \<and>
    thread_joinable c' \<and> (if l' = [] then \<not> response_running c' \<and> responses_interval c' = 0 else serving t l' c')"
proof (cases "length l' = length l")
  case True
  then have "l' = l" unfolding l'_def by (metis filter_True length_filter_less linorder_neq_iff)
  then show ?thesis using assms(1,2) by (auto simp: l'_def [symmetric] serving_def)
next
  case False
  show ?thesis
  proof (cases "l' = []")
    case True
    then show ?thesis using False assms(1) by (simp add: l'_def [symmetric] notify_interest_request_def serving_def)
  next
    case ne: False
    have per: "\<forall>s\<in>set l'. snd s \<noteq> 0" using assms(1) by (auto simp: l'_def serving_def)
    note g = gcd_periods_dvd [OF ne per]
    have "distinct (map fst l')" using assms(1) by (simp add: l'_def serving_def distinct_map_filter)
    then have "serving t l' (c\<lparr>responses_interval := gcd_periods l', response_type := t\<rparr>)"
      using assms(1) per g by (simp add: serving_def)
    moreover have "notify_interest_request (gcd_periods l') t True c
        = Inr (c\<lparr>responses_interval := gcd_periods l', response_type := t\<rparr>)"
      using g(1) assms(1) by (simp add: notify_interest_request_def Let_def serving_def)
    ultimately show ?thesis using False ne by (simp add: l'_def [symmetric] serving_def)
  qed
qed

section \<open>Interests and sweeps in any order\<close>

datatype teds_event = Interest message | Sweep shared_block


primrec teds_step :: "(u32 \<Rightarrow> 'v) \<Rightarrow> teds_event \<Rightarrow> 'v teds_handler \<Rightarrow> 'v teds_handler run" where
  "teds_step of_float (Interest m) h = handleTEDSMessage of_float m h"
| "teds_step of_float (Sweep b) h = cleanup_pass b h"

primrec teds_run :: "(u32 \<Rightarrow> 'v) \<Rightarrow> teds_event list \<Rightarrow> 'v teds_handler \<Rightarrow> 'v teds_handler run" where
  "teds_run of_float [] h = Inr h"
| "teds_run of_float (e # es) h = (case teds_step of_float e h of Inl x \<Rightarrow> Inl x | Inr h' \<Rightarrow> teds_run of_float es h')"




definition teds_init :: "teds_type \<Rightarrow> 'v smart_data \<Rightarrow> 'v teds_handler" where
  "teds_init junk s = \<lparr>subscribers = [], bridge = component_init junk s\<rparr>"

lemma teds_init_ok: "teds_ok t (teds_init junk s)" "subscriber_map (teds_init junk s) t = Map.empty"
  by (simp_all add: teds_ok_def teds_init_def component_init_def subscriber_map_def)


lemma left_sensor_terminates:
  assumes "is_request t" "interest_in t m" "interest_in t m'" "\<not> is_entity_nearby (paddr (m_source m)) b"
  shows "\<exists>h1 h2. handleTEDSMessage of_float m (teds_init junk s) = Inr h1 \<and>
    subscriber_map h1 t = [m_source m \<mapsto> teds_data_word (m_payload m)] \<and>
    cleanup_pass b h1 = Inr h2 \<and> subscribers h2 = [] \<and> handleTEDSMessage of_float m' h2 = Inl Terminated"
proof -
  have "teds_ok t (teds_init junk s)" by (rule teds_init_ok)
  from interest_first [OF assms(1,2) _ this, where of_float = of_float] obtain h where
    h: "handleTEDSMessage of_float m (teds_init junk s) = Inr h" "subscribers h = [(t, [(m_source m, teds_data_word (m_payload m))])]"
       "serving t [(m_source m, teds_data_word (m_payload m))] (bridge h)"
    using assms(2) by (simp add: teds_init_def component_init_def serving_def interest_in_def)
  from cleanup_one [OF h(3), of "\<lambda>a. is_entity_nearby (paddr a) b"] assms(4) obtain h' where
    h': "cleanup_pass b h = Inr h'" "subscribers h' = []" "thread_joinable (bridge h')" "\<not> response_running (bridge h')"
        "responses_interval (bridge h') = 0"
    by (auto simp: cleanup_pass_def h(2))
  then have "teds_ok t h'" by (simp add: teds_ok_def)
  from interest_first [OF assms(1,3) h'(2) this, where of_float = of_float] show ?thesis
    using h h' by (simp add: subscriber_map_def)
qed

text \<open>
  The response thread is never joined: once all subscribers of a sensor have left its range, the
  next interest assigns a new thread to a joinable one, and the process is terminated.
\<close>

theorem second_interest_terminates:
  assumes "is_request t" "interest_in t m" "interest_in t m'" "\<not> is_entity_nearby (paddr (m_source m)) b"
  shows "teds_run of_float [Interest m, Sweep b, Interest m'] (teds_init junk s) = Inl Terminated"
  using left_sensor_terminates [OF assms, of of_float junk s] by auto

section \<open>Type routing\<close>

lemma type_routed:
  assumes "observers_ok p" "carries f (packet k loc sp 0 (get_bytes (make_segment TEDS ts pl)))" "4 \<le> length pl"
  shows "notify_communicator p 0 f =
    (let t = teds_header_type pl in
     if t = INVALID \<or> targets (type_observed p) t = [] then [Free_local]
     else map (\<lambda>ob. Queue ob f) (targets (type_observed p) t))"
proof -
  let ?g = "get_bytes (make_segment TEDS ts pl)"
  note F = carries_fields [OF assms(2)]
  have g: "?g = seg_header_bytes \<lparr>seg_type = msg_type_byte TEDS, seg_timestamp = ts\<rparr> @ pl"
    by (simp add: get_bytes_eq make_segment_def)
  obtain rest where d: "packet_data (fr_data f) = ?g @ rest"
    using F(4) by (metis append_take_drop_id)
  have "unat (payload_length f - of_nat SEG_HEADER_SIZE) = length pl"
  proof -
    have "payload_length f = of_nat (9 + length pl)" using F(7) by (simp add: wire_simps make_segment_def)
    then have "payload_length f - of_nat SEG_HEADER_SIZE = of_nat (length pl)" by (simp add: wire_simps)
    moreover have "length pl < 4294967296" using F(5) by (simp add: make_segment_def PACKET_MTU_def wire_simps)
    ultimately show ?thesis by (simp add: unat_small_u32)
  qed
  moreover have "drop SEG_HEADER_SIZE (?g @ rest) = pl @ rest" "read_seg_header (?g @ rest) = \<lparr>seg_type = 1, seg_timestamp = ts\<rparr>"
    unfolding g by (simp_all add: wire_simps)
  moreover have "teds_header_type (pl @ rest) = teds_header_type pl"
    using assms(3) by (simp add: teds_header_type_def read_at_append_left)
  ultimately have "extract_teds_type (read_seg_header (?g @ rest)) (drop SEG_HEADER_SIZE (?g @ rest))
      (payload_length f - of_nat SEG_HEADER_SIZE) = teds_header_type pl"
    using assms(3) msg_type_of_byte [of TEDS] by (simp add: extract_teds_type_def wire_simps)
  then show ?thesis using assms(1) unfolding observers_ok_def
    by (simp add: notify_communicator_def d Let_def TYPE_BASED_ROUTING_PORT_def payload_length_def notify_or_free_targets)
qed

lemma same_response: "make_response_type u = make_response_type u' \<longleftrightarrow> u' AND 0x7FFFFFFF = u AND 0x7FFFFFFF"
proof
  have m: "(t OR PURPOSE_MASK) AND 0x7FFFFFFF = t AND 0x7FFFFFFF" "(t AND 0x7FFFFFFF) OR PURPOSE_MASK = t OR PURPOSE_MASK" for t
  proof -
    have "PURPOSE_MASK AND 0x7FFFFFFF = 0" "0x7FFFFFFF OR PURPOSE_MASK = -1" by (simp_all add: PURPOSE_MASK_def)
    then show "(t OR PURPOSE_MASK) AND 0x7FFFFFFF = t AND 0x7FFFFFFF" "(t AND 0x7FFFFFFF) OR PURPOSE_MASK = t OR PURPOSE_MASK"
      by (simp_all add: bit.conj_disj_distrib2 bit.disj_conj_distrib2)
  qed
  show "u' AND 0x7FFFFFFF = u AND 0x7FFFFFFF" if "make_response_type u = make_response_type u'"
    using that m(1) [of u] m(1) [of u'] by (simp add: make_response_type_def)
  show "make_response_type u = make_response_type u'" if "u' AND 0x7FFFFFFF = u AND 0x7FFFFFFF"
    using that m(2) [of u] m(2) [of u'] by (simp add: make_response_type_def)
qed

text \<open>
  C28. Type routing brings sensors and actuators together.  A communicator subscribed to the requests of
  unit \<open>u\<close> is handed exactly the interest messages for units with the base type of \<open>u\<close>; one subscribed
  to its responses exactly the responses for units that agree with \<open>u\<close> in all bits but the purpose bit
  (format and modifier bits count here, and do not count for requests); neither is ever handed the
  other kind.
\<close>

theorem type_routing_separates:
  assumes "observers_ok p" "\<not> registered ob p" "u' AND TYPE_MASK \<noteq> 0"
    and "carries f (packet k loc sp 0 (get_bytes (make_segment TEDS ts (create_request_payload u' interval))))"
    and "carries g (packet k loc sp 0 (get_bytes (make_segment TEDS ts (create_response_payload u' v))))"
    and "subscribe_to_requests ob u c p = (c1, p1)" "subscribe_to_type ob (make_response_type u) c p = (c2, p2)"
  shows "(Queue ob f \<in> set (notify_communicator p1 0 f) \<longleftrightarrow> get_base_type u' = get_base_type u) \<and>
    (Queue ob g \<in> set (notify_communicator p2 0 g) \<longleftrightarrow> u' AND 0x7FFFFFFF = u AND 0x7FFFFFFF) \<and>
    Queue ob g \<notin> set (notify_communicator p1 0 g) \<and> Queue ob f \<notin> set (notify_communicator p2 0 f)"
proof -
  note S = subscribe_fields [OF assms(6) [unfolded subscribe_to_requests_def]] subscribe_fields [OF assms(7)]
  have ok: "observers_ok p1" "observers_ok p2"
    using assms(1) S by (simp_all add: observers_ok_def observed_ok_def attach_def)
  have out: "ob \<notin> set (targets (type_observed p) t)" for t using assms(2) by (auto simp: registered_def)
  have T: "targets (type_observed p1) t = (if make_request_type u = t then [ob] else []) @ targets (type_observed p) t"
      "targets (type_observed p2) t = (if make_response_type u = t then [ob] else []) @ targets (type_observed p) t" for t
    using S by (simp_all add: targets_attach)
  have hd: "teds_header_type (create_request_payload u' interval) = make_request_type u'"
      "teds_header_type (create_response_payload u' v) = make_response_type u'"
      "4 \<le> length (create_request_payload u' interval)" "4 \<le> length (create_response_payload u' v)"
    by (simp_all add: create_request_payload_eq create_response_payload_eq teds_header_type_def read_at_def wire_simps)
  have inv: "make_request_type u' \<noteq> INVALID" "make_response_type u' \<noteq> INVALID"
    using assms(3) make_response_is_response [of u'] by (auto simp: make_request_type_def INVALID_def is_response_def)
  have req: "make_request_type x = x AND TYPE_MASK" "get_base_type x = x AND TYPE_MASK" for x
    by (simp_all add: make_request_type_def get_base_type_def)
  have base: "make_request_type u = make_request_type u' \<longleftrightarrow> get_base_type u' = get_base_type u"
    unfolding req by auto
  have base': "make_response_type u = make_response_type u' \<longleftrightarrow> u' AND 0x7FFFFFFF = u AND 0x7FFFFFFF"
    by (rule same_response)
  have apart: "make_request_type x \<noteq> make_response_type y" for x y
    using make_request_is_request [of x] make_response_is_response [of y] request_xor_response by metis
  show ?thesis
    unfolding type_routed [OF ok(1) assms(4) hd(3)] type_routed [OF ok(2) assms(4) hd(3)]
      type_routed [OF ok(1) assms(5) hd(4)] type_routed [OF ok(2) assms(5) hd(4)] hd(1,2) Let_def
    using inv base base' apart apart [symmetric] out by (simp add: T image_iff)
qed

section \<open>A concrete sensor\<close>

definition sample_interest :: "address \<Rightarrow> period \<Rightarrow> message" where
  "sample_interest a p = (message_empty 0)\<lparr>m_source := a, m_payload := create_request_payload PRESSURE p\<rparr>"

definition sample_smart :: "u32 smart_data" where
  "sample_smart = \<lparr>transducer_value = 0, updated_value = 0\<rparr>"

lemma sample_interest_in: "p \<noteq> 0 \<Longrightarrow> interest_in (make_request_type PRESSURE) (sample_interest a p)"
  by (simp add: interest_in_def sample_interest_def create_request_payload_eq teds_header_type_def teds_data_word_def
      read_at_def wire_simps)


theorem second_interest_terminates_witness:
  "teds_run id [Interest (sample_interest (local 7) 3000), Sweep sample_block, Interest (sample_interest (local 8) 2000)]
     (teds_init 0 sample_smart) = Inl Terminated"
proof (rule second_interest_terminates [OF make_request_is_request sample_interest_in sample_interest_in])
  show "\<not> is_entity_nearby (paddr (m_source (sample_interest (local 7) 3000))) sample_block"
    by (simp add: sample_interest_def is_entity_nearby_def sample_block_def nearby_index_def)
qed simp_all

theorem type_routing_separates_witness:
  "\<exists>c p. subscribe_to_requests 5 PRESSURE sample_comm sample_gateway = (c, p) \<and>
    Queue 5 (sample_frame (packet 99 EAST 7 0 (get_bytes (make_segment TEDS 0 (create_request_payload PRESSURE 3000)))))
      \<in> set (notify_communicator p 0
        (sample_frame (packet 99 EAST 7 0 (get_bytes (make_segment TEDS 0 (create_request_payload PRESSURE 3000))))))"
proof -
  let ?f = "sample_frame (packet 99 EAST 7 0 (get_bytes (make_segment TEDS 0 (create_request_payload PRESSURE 3000))))"
  obtain c1 p1 where s: "subscribe_to_requests 5 PRESSURE sample_comm sample_gateway = (c1, p1)" by fastforce
  obtain c2 p2 where s2: "subscribe_to_type 5 (make_response_type PRESSURE) sample_comm sample_gateway = (c2, p2)" by fastforce
  have "PRESSURE AND TYPE_MASK \<noteq> 0" by code_simp
  moreover have "carries ?f (packet 99 EAST 7 0 (get_bytes (make_segment TEDS 0 (create_request_payload PRESSURE 3000))))"
    by (rule sample_frame_carries) (simp add: make_segment_def create_request_payload_eq wire_simps)
  moreover have "carries (sample_frame (packet 99 EAST 7 0 (get_bytes (make_segment TEDS 0 (create_response_payload PRESSURE 0)))))
      (packet 99 EAST 7 0 (get_bytes (make_segment TEDS 0 (create_response_payload PRESSURE 0))))"
    by (rule sample_frame_carries) (simp add: make_segment_def create_response_payload_eq wire_simps)
  ultimately show ?thesis using type_routing_separates [OF sample_gateway_observers(1) sample_gateway_observers(2) _ _ _ s s2] s by simp
qed

end
