(* ===== verification/Sensor_Pipeline.thy ===== *)
theory Sensor_Pipeline
  imports Teds_Service
begin

text \<open>
  Where the values of a component come from: \<^verbatim>\<open>DataGenerator\<close>, \<^verbatim>\<open>Transducer\<close> and \<^verbatim>\<open>LocalSmartData\<close>, linked
  by the by-value observers of \<^verbatim>\<open>value_conditionally_data_observed.hpp\<close>.  The component model works with
  the two stored values only; here the whole chain is there, and shown to behave as that model says.
  The conversion of a drawn number to the value type is a parameter.
\<close>

section \<open>Types chosen by the tag\<close>

datatype value_type = Float_value | Int_value

definition value_type :: "teds_type \<Rightarrow> value_type" where
  "value_type tag = (if tag AND FORMAT_MASK = FORMAT_FLOAT then Float_value else Int_value)"

definition unit_tag_type :: "teds_type \<Rightarrow> teds_type" where
  "unit_tag_type tag = tag AND TYPE_MASK"

section \<open>The by-value subject\<close>

text \<open>Its code is that of \<^verbatim>\<open>Conditionally_Data_Observed\<close> with the data passed by value.\<close>

definition value_attach :: "('o, teds_type) observed \<Rightarrow> 'o option \<Rightarrow> teds_type \<Rightarrow> ('o, teds_type) observed" where
  "value_attach s ob c = s\<lparr>observers := ob # observers s, conditions := c # conditions s\<rparr>"

definition value_detach :: "('o, teds_type) observed \<Rightarrow> 'o option \<Rightarrow> teds_type \<Rightarrow> ('o, teds_type) observed" where
  "value_detach s ob c = detach_loop (length (observers s)) ob c s"

definition value_notify ::
  "('o \<Rightarrow> teds_type \<Rightarrow> 'v \<Rightarrow> 's \<Rightarrow> 's) \<Rightarrow> ('o, teds_type) observed \<Rightarrow> teds_type \<Rightarrow> 'v \<Rightarrow> 's \<Rightarrow> bool \<times> 's" where
  "value_notify update s c d env = fold (notify_step update s c d) [0..<length (observers s)] (False, env)"

lemma value_subject_is_subject:
  "value_attach = attach" "value_detach = detach" "value_notify = notify"
  by (intro ext, simp add: value_attach_def attach_def)
    (intro ext, simp add: value_detach_def detach_def, intro ext, simp add: value_notify_def notify_def)

section \<open>The chain\<close>

text \<open>The observers of the generator and of the transducer are the objects themselves.\<close>

datatype chain_object = Transducer_object | Smart_data_object

record 'v chain =
  generator_observed :: "(chain_object, teds_type) observed"
  transducer_observed :: "(chain_object, teds_type) observed"
  transducer_data :: 'v
  local_value :: 'v

definition local_update :: "chain_object \<Rightarrow> teds_type \<Rightarrow> 'v \<Rightarrow> 'v chain \<Rightarrow> 'v chain" where
  "local_update ob c d s = s\<lparr>local_value := d\<rparr>"

definition chain_update :: "teds_type \<Rightarrow> chain_object \<Rightarrow> teds_type \<Rightarrow> 'v \<Rightarrow> 'v chain \<Rightarrow> 'v chain" where
  "chain_update tag ob c d s =
     (let s' = s\<lparr>transducer_data := d\<rparr>
      in snd (value_notify local_update (transducer_observed s') (unit_tag_type tag) (transducer_data s') s'))"

text \<open>One turn of the generator's thread on a drawn number.\<close>

definition generator_turn :: "(nat \<Rightarrow> 'v) \<Rightarrow> teds_type \<Rightarrow> nat \<Rightarrow> 'v chain \<Rightarrow> 'v chain" where
  "generator_turn of_draw tag n s =
     snd (value_notify (chain_update tag) (generator_observed s) (unit_tag_type tag) (of_draw n) s)"

definition data_generator_new :: "teds_type \<Rightarrow> (chain_object, teds_type) observed" where [simp]:
  "data_generator_new tag = value_attach observed_empty (Some Transducer_object) (unit_tag_type tag)"

definition transducer_new :: "teds_type \<Rightarrow> 'v \<Rightarrow> 'v \<Rightarrow> 'v chain" where
  "transducer_new tag zero junk =
     \<lparr>generator_observed = data_generator_new tag,
      transducer_observed = observed_empty, transducer_data = zero, local_value = junk\<rparr>"

text \<open>
  The generator's thread starts in the constructor of the member, before the smart data attaches
  itself: \<open>early\<close> are the numbers it draws in between.
\<close>

definition local_smart_data_new :: "(nat \<Rightarrow> 'v) \<Rightarrow> teds_type \<Rightarrow> 'v \<Rightarrow> 'v \<Rightarrow> nat list \<Rightarrow> 'v chain" where
  "local_smart_data_new of_draw tag zero junk early =
     (let s = fold (generator_turn of_draw tag) early (transducer_new tag zero junk)
      in s\<lparr>transducer_observed := value_attach (transducer_observed s) (Some Smart_data_object) (unit_tag_type tag)\<rparr>)"

definition local_smart_data_delete :: "teds_type \<Rightarrow> 'v chain \<Rightarrow> 'v chain" where
  "local_smart_data_delete tag s =
     s\<lparr>transducer_observed := value_detach (transducer_observed s) (Some Smart_data_object) (unit_tag_type tag)\<rparr>"

definition chain_sense :: "'v chain \<Rightarrow> 'v" where
  "chain_sense s = transducer_data s"

definition chain_assign :: "'v \<Rightarrow> 'v chain \<Rightarrow> 'v chain" where
  "chain_assign v s = s"

definition chain_read :: "'v chain \<Rightarrow> 'v" where
  "chain_read s = local_value s"

text \<open>The generator's thread has no way out of its loop, so joining it has no result.\<close>

partial_function (option) gen_data_thread :: "(nat \<Rightarrow> 'v) \<Rightarrow> teds_type \<Rightarrow> (nat \<Rightarrow> nat) \<Rightarrow> nat \<Rightarrow> 'v chain \<Rightarrow> 'v chain option" where
  "gen_data_thread of_draw tag draws i s = gen_data_thread of_draw tag draws (i + 1) (generator_turn of_draw tag (draws i) s)"

definition data_generator_delete :: "(nat \<Rightarrow> 'v) \<Rightarrow> teds_type \<Rightarrow> (nat \<Rightarrow> nat) \<Rightarrow> nat \<Rightarrow> 'v chain \<Rightarrow> 'v chain option" where
  "data_generator_delete of_draw tag draws i s =
     gen_data_thread of_draw tag draws i
       (s\<lparr>generator_observed := value_detach (generator_observed s) (Some Transducer_object) (unit_tag_type tag)\<rparr>)"

lemma gen_data_thread_None: "gen_data_thread of_draw tag draws i s = None"
proof (cases "gen_data_thread of_draw tag draws i s")
  case (Some r)
  then have False
    by (rule gen_data_thread.raw_induct [where P = "\<lambda>_ _ _ _ _ _. False", rotated])
  then show ?thesis ..
qed

section \<open>The chain is what the component relies on\<close>

lemmas value_subject = value_subject_is_subject observed_empty_def attach_def

lemma targets_one: "targets \<lparr>observers = [Some ob], conditions = [c]\<rparr> c = [ob]"
  by (simp add: targets_def)

lemma observed_ok_small: "observed_ok \<lparr>observers = [], conditions = []\<rparr>" "observed_ok \<lparr>observers = [ob], conditions = [c]\<rparr>"
  by (simp_all add: observed_ok_def)

definition chain_linked :: "teds_type \<Rightarrow> bool \<Rightarrow> 'v chain \<Rightarrow> bool" where
  "chain_linked tag attached s \<longleftrightarrow>
     generator_observed s = \<lparr>observers = [Some Transducer_object], conditions = [unit_tag_type tag]\<rparr> \<and>
     transducer_observed s = (if attached then \<lparr>observers = [Some Smart_data_object], conditions = [unit_tag_type tag]\<rparr>
       else \<lparr>observers = [], conditions = []\<rparr>)"

lemma generator_turn_linked:
  assumes "chain_linked tag attached s"
  shows "generator_turn of_draw tag n s =
    s\<lparr>transducer_data := of_draw n, local_value := if attached then of_draw n else local_value s\<rparr>"
proof -
  have none: "targets \<lparr>observers = [], conditions = []\<rparr> c = ([] :: chain_object list)" for c :: teds_type
    by (simp add: targets_def)
  show ?thesis using assms
    by (auto simp: generator_turn_def chain_linked_def value_subject_is_subject notify_targets [OF observed_ok_small(1)]
        notify_targets [OF observed_ok_small(2)] targets_one none chain_update_def local_update_def Let_def)
qed

lemma generator_turns_linked:
  "chain_linked tag attached s \<Longrightarrow> chain_linked tag attached (fold (generator_turn of_draw tag) ns s) \<and>
   transducer_data (fold (generator_turn of_draw tag) ns s) = last (transducer_data s # map of_draw ns) \<and>
   local_value (fold (generator_turn of_draw tag) ns s) = (if attached then last (local_value s # map of_draw ns) else local_value s)"
proof (induction ns arbitrary: s)
  case (Cons n ns)
  let ?s = "generator_turn of_draw tag n s"
  have l: "chain_linked tag attached ?s" using Cons.prems by (simp add: generator_turn_linked chain_linked_def)
  have "transducer_data ?s = of_draw n" "local_value ?s = (if attached then of_draw n else local_value s)"
    by (simp_all add: generator_turn_linked [OF Cons.prems])
  with Cons.IH [OF l] show ?case by (cases "ns = []") (simp_all split: if_splits)
qed simp

lemma transducer_new_linked: "chain_linked tag False (transducer_new tag zero junk)"
  by (simp add: chain_linked_def transducer_new_def value_subject)

lemma attached_linked:
  "chain_linked tag False s \<Longrightarrow>
   chain_linked tag True (s\<lparr>transducer_observed := value_attach (transducer_observed s) (Some Smart_data_object) (unit_tag_type tag)\<rparr>)"
  by (simp add: chain_linked_def value_subject)

text \<open>What the component model keeps of a chain.\<close>

definition smart_of :: "'v chain \<Rightarrow> 'v smart_data" where
  "smart_of s = \<lparr>transducer_value = chain_sense s, updated_value = chain_read s\<rparr>"

text \<open>
  C34. The value a component reads is the last one generated since its smart data was attached.  For
  every tag, every conversion and every sequence of draws, of which some may come before the smart data
  attaches itself: the chain of observers then holds in the transducer the last value drawn at all
  (zero if none), and in the smart data the last one drawn after the attachment.  Until that
  draw a reader gets the member's uninitialised content, for five seconds if a draw came too early.
  Every turn acts on the two values as the component model has it.
\<close>

theorem smart_data_follows_generator:
  "let s = fold (generator_turn of_draw tag) late (local_smart_data_new of_draw tag zero junk early)
   in chain_read s = (if late = [] then junk else of_draw (last late)) \<and>
      chain_sense s = (if early @ late = [] then zero else of_draw (last (early @ late))) \<and>
      smart_of (generator_turn of_draw tag n s) = transducer_update (of_draw n) (smart_of s)"
proof -
  let ?s0 = "fold (generator_turn of_draw tag) early (transducer_new tag zero junk)"
  let ?s1 = "local_smart_data_new of_draw tag zero junk early"
  note e = generator_turns_linked [OF transducer_new_linked, of tag of_draw early zero junk]
  have l: "chain_linked tag True ?s1" using e by (simp add: local_smart_data_new_def Let_def attached_linked)
  have v: "transducer_data ?s1 = last (zero # map of_draw early)" "local_value ?s1 = junk"
    using e by (simp_all add: local_smart_data_new_def Let_def transducer_new_def)
  let ?s = "fold (generator_turn of_draw tag) late ?s1"
  note f = generator_turns_linked [OF l, of of_draw late]
  have "chain_read ?s = (if late = [] then junk else of_draw (last late))"
    using f v by (simp add: chain_read_def last_map)
  moreover have "chain_sense ?s = (if early @ late = [] then zero else of_draw (last (early @ late)))"
    using f v by (simp add: chain_sense_def last_map)
  moreover have "smart_of (generator_turn of_draw tag n ?s) = transducer_update (of_draw n) (smart_of ?s)"
    using generator_turn_linked [of tag True ?s] f
    by (simp add: smart_of_def transducer_update_def chain_sense_def chain_read_def)
  ultimately show ?thesis by (simp only: Let_def simp_thms)
qed

section \<open>The receiver loop of a component\<close>

text \<open>
  One turn of \<^verbatim>\<open>receiver_loop\<close>: a message of 1024 bytes is made anew (its time stamp is \<open>junk\<close>), received into
  and given to the handler of its type.  \<open>None\<close> is a turn that waits.
\<close>

definition receiver_loop_turn ::
  "(u32 \<Rightarrow> 'v) \<Rightarrow> bytes \<Rightarrow> u64 \<Rightarrow> u64 \<Rightarrow> u64 \<Rightarrow> communicator \<Rightarrow> 'v teds_handler \<Rightarrow> (communicator \<times> 'v reaction option) option" where
  "receiver_loop_turn of_float pad now sender_id junk c h = (case comm_receive (message_buffer junk 1024) c of
     Some (Got m c' True) \<Rightarrow> Some (c', Some (receiver_turn of_float pad now sender_id c' m h))
   | Some (Got m c' False) \<Rightarrow> Some (c', None)
   | _ \<Rightarrow> None)"

text \<open>
  Because the message is new, nothing of an earlier one matters: the handler gets type, time stamp, sender and
  payload as they were sent.
\<close>

lemma receiver_loop_handles:
  assumes "carries f (packet k loc sp dp (get_bytes s))" "qo_ok (c_inbox c)" "qo_data (c_inbox c) = f # fs" "length (s_payload s) \<le> 1015"
  shows "receiver_loop_turn of_float pad now sender_id junk c h = (let c' = c\<lparr>c_inbox := \<lparr>qo_semaphore = int (length fs), qo_data = fs\<rparr>\<rparr> in
    Some (c', Some (receiver_turn of_float pad now sender_id c' \<lparr>m_source = \<lparr>paddr = shost (fr_header f), port = sp\<rparr>,
      m_destination = no_address, m_type = seg_type (s_header s), m_payload = s_payload s, m_capacity = 1024,
      m_timestamp = seg_timestamp (s_header s)\<rparr> h)))"
  using comm_receive_frame [OF assms(1-3), of "message_buffer junk 1024"] assms(4)
  by (simp add: receiver_loop_turn_def message_buffer_def min.absorb2 Let_def)

text \<open>Whether a station is near is asked of the shared list, by hardware address.\<close>

definition component_is_nearby :: "address \<Rightarrow> 'o protocol \<Rightarrow> bool" where
  "component_is_nearby a p = is_entity_nearby (paddr a) (local_block p)"

section \<open>Destroying a component\<close>

text \<open>
  \<^verbatim>\<open>~Component\<close> joins the receiver thread, which sits in a blocking \<^verbatim>\<open>receive\<close> until one more message
  comes (\<open>woken\<close>), and the send thread; then the members are destroyed from the last to the first: the
  handlers, the response thread, whose destructor terminates the process while it is joinable, and the
  smart data with its generator.
\<close>

definition component_delete ::
  "bool \<Rightarrow> (nat \<Rightarrow> 'v) \<Rightarrow> teds_type \<Rightarrow> (nat \<Rightarrow> nat) \<Rightarrow> nat \<Rightarrow> 'v component \<Rightarrow> 'v chain \<Rightarrow> 'v chain run option" where
  "component_delete woken of_draw tag draws i c s =
     (if \<not> woken then None
      else if thread_joinable c then Some (Inl Terminated)
      else map_option Inr (data_generator_delete of_draw tag draws i (local_smart_data_delete tag s)))"

text \<open>No component is ever destroyed in good order: the process dies, or the destructor does not return.\<close>

lemma component_never_deleted:
  "component_delete woken of_draw tag draws i c s = (if woken \<and> thread_joinable c then Some (Inl Terminated) else None)"
  by (simp add: component_delete_def data_generator_delete_def gen_data_thread_None)

end
