(* ===== verification/Group_Monitor.thy ===== *)
theory Group_Monitor
  imports Group_Handlers "HOL-Library.Product_Lexorder"
begin

text \<open>
  The membership monitor of \<^verbatim>\<open>group_leader_handler.hpp\<close> as a thread: \<^verbatim>\<open>monitor_loop\<close> with its two waits on the
  condition variable, the window in which it gives up its mutex, heartbeats that come in between, and
  \<^verbatim>\<open>stop_membership_monitor\<close>, which sets the flag under the mutex and notifies after it.
\<close>

section \<open>The thread and its environment\<close>

datatype mpc = M_check | M_wait_empty | M_wait_until nat | M_sweep nat | M_send nat timer | M_done | M_undefined

record monitor =
  mon_pc :: mpc
  mon_running :: bool
  mon_woken :: bool
  mon_notify :: bool
  mon_clock :: nat
  mon_leader :: leader
  mon_sent :: "call list"

definition waiting :: "mpc \<Rightarrow> bool" where
  "waiting pc = (case pc of M_wait_empty \<Rightarrow> True | M_wait_until e \<Rightarrow> True | _ \<Rightarrow> False)"

text \<open>Where the thread does not hold the mutex.\<close>

definition lock_free :: "mpc \<Rightarrow> bool" where
  "lock_free pc = (case pc of M_wait_empty \<Rightarrow> True | M_wait_until e \<Rightarrow> True | M_send now x \<Rightarrow> True | M_done \<Rightarrow> True | _ \<Rightarrow> False)"

definition forget_timer :: "timer \<Rightarrow> leader \<Rightarrow> leader" where
  "forget_timer x l = l\<lparr>client_lookup := (client_lookup l)(tm_client x := None),
     clients_timeout := erase_timer (tm_id x) (clients_timeout l)\<rparr>"

text \<open>\<^verbatim>\<open>stop_membership_monitor\<close> under the mutex, and \<^verbatim>\<open>notify_one\<close>, which only a waiting thread notices.\<close>

definition clear_running :: "monitor \<Rightarrow> monitor" where
  [simp]: "clear_running s = s\<lparr>mon_running := False, mon_notify := True\<rparr>"

definition notify_one :: "monitor \<Rightarrow> monitor" where
  [simp]: "notify_one s = s\<lparr>mon_woken := mon_woken s \<or> waiting (mon_pc s)\<rparr>"

text \<open>
  The label tells the monitor's own steps from those of its environment.  Readings of the steady clock
  do not go back.  A wait with a deadline may end at any time, one with a predicate only by a notification.
\<close>

inductive mon_step :: "bool \<Rightarrow> monitor \<Rightarrow> monitor \<Rightarrow> bool" where
  stops: "mon_pc s = M_check \<Longrightarrow> \<not> mon_running s \<Longrightarrow> mon_step True s (s\<lparr>mon_pc := M_done\<rparr>)"
| idles: "mon_pc s = M_check \<Longrightarrow> mon_running s \<Longrightarrow> clients_timeout (mon_leader s) = [] \<Longrightarrow>
    mon_step True s (s\<lparr>mon_pc := M_wait_empty, mon_woken := False\<rparr>)"
| sleeps: "mon_pc s = M_check \<Longrightarrow> mon_running s \<Longrightarrow> clients_timeout (mon_leader s) = x # ts \<Longrightarrow>
    mon_step True s (s\<lparr>mon_pc := M_wait_until (expiry x), mon_woken := False\<rparr>)"
| wakes: "mon_pc s = M_wait_empty \<Longrightarrow> mon_woken s \<Longrightarrow> clients_timeout (mon_leader s) \<noteq> [] \<or> \<not> mon_running s \<Longrightarrow>
    mon_step True s (s\<lparr>mon_pc := M_check\<rparr>)"
| waits_on: "mon_pc s = M_wait_empty \<Longrightarrow> mon_woken s \<Longrightarrow> \<not> (clients_timeout (mon_leader s) \<noteq> [] \<or> \<not> mon_running s) \<Longrightarrow>
    mon_step True s (s\<lparr>mon_woken := False\<rparr>)"
| interrupted: "mon_pc s = M_wait_until e \<Longrightarrow> mon_step True s (s\<lparr>mon_pc := M_check\<rparr>)"
| times_out: "mon_pc s = M_wait_until e \<Longrightarrow> e \<le> now \<Longrightarrow> mon_clock s \<le> now \<Longrightarrow>
    mon_step True s (s\<lparr>mon_pc := M_sweep now, mon_clock := now\<rparr>)"
| unlocks: "mon_pc s = M_sweep now \<Longrightarrow> clients_timeout (mon_leader s) = x # ts \<Longrightarrow> expiry x \<le> now \<Longrightarrow>
    mon_step True s (s\<lparr>mon_pc := M_send now x, mon_sent := mon_sent s @ send_notify_left pad1 pad2 ms me (tm_client x)\<rparr>)"
| swept: "mon_pc s = M_sweep now \<Longrightarrow> (\<forall>x ts. clients_timeout (mon_leader s) = x # ts \<longrightarrow> now < expiry x) \<Longrightarrow>
    mon_step True s (s\<lparr>mon_pc := M_check\<rparr>)"
| erases: "mon_pc s = M_send now x \<Longrightarrow> tm_id x \<in> tm_id ` set (clients_timeout (mon_leader s)) \<Longrightarrow>
    mon_step True s (s\<lparr>mon_pc := M_sweep now, mon_leader := forget_timer x (mon_leader s)\<rparr>)"
| dangles: "mon_pc s = M_send now x \<Longrightarrow> tm_id x \<notin> tm_id ` set (clients_timeout (mon_leader s)) \<Longrightarrow>
    mon_step True s (s\<lparr>mon_pc := M_undefined\<rparr>)"
| heartbeat: "lock_free (mon_pc s) \<Longrightarrow> mon_clock s \<le> t \<Longrightarrow>
    mon_step False s (notify_one (s\<lparr>mon_leader := heartbeat_update t c (mon_leader s), mon_clock := t\<rparr>))"
| stop_flag: "lock_free (mon_pc s) \<Longrightarrow> mon_step False s (clear_running s)"
| stop_notify: "mon_notify s \<Longrightarrow>
    mon_step False s (notify_one (s\<lparr>mon_notify := False\<rparr>))"

definition mon_start :: "leader \<Rightarrow> nat \<Rightarrow> monitor" where
  "mon_start l now = \<lparr>mon_pc = M_check, mon_running = True, mon_woken = False, mon_notify = False, mon_clock = now,
     mon_leader = l, mon_sent = []\<rparr>"

inductive mon_reach :: "monitor \<Rightarrow> bool" where
  started: "leader_ok l \<Longrightarrow> mon_reach (mon_start l now)"
| stepped: "mon_reach s \<Longrightarrow> mon_step own s s' \<Longrightarrow> mon_reach s'"

section \<open>The invariant\<close>

text \<open>The client being announced: its timer, or one that a heartbeat has put in its place.\<close>

definition announced :: "nat \<Rightarrow> timer \<Rightarrow> leader \<Rightarrow> bool" where
  "announced now x l \<longleftrightarrow> expiry x \<le> now \<and> tm_id x < next_id l \<and>
     (\<forall>y\<in>set (clients_timeout l). (tm_id y = tm_id x \<longrightarrow> y = x) \<and>
        (tm_client y = tm_client x \<longrightarrow> y = x \<or> now < expiry y))"

definition sending_ok :: "monitor \<Rightarrow> bool" where
  "sending_ok s = (case mon_pc s of
     M_sweep now \<Rightarrow> now \<le> mon_clock s
   | M_send now x \<Rightarrow> now \<le> mon_clock s \<and> announced now x (mon_leader s)
   | _ \<Rightarrow> True)"

definition mon_ok :: "monitor \<Rightarrow> bool" where
  "mon_ok s \<longleftrightarrow> leader_ok (mon_leader s) \<and> sending_ok s \<and>
     (\<not> mon_running s \<and> waiting (mon_pc s) \<longrightarrow> mon_woken s \<or> mon_notify s)"

lemma forget_timer_ok:
  assumes ok: "leader_ok l" and x: "x \<in> set (clients_timeout l)"
  shows "leader_ok (forget_timer x l)" "set (clients_timeout (forget_timer x l)) = set (clients_timeout l) - {x}"
proof -
  have ids: "tm_id y = tm_id x \<longleftrightarrow> y = x" if "y \<in> set (clients_timeout l)" for y
    using leader_okD(2) [OF ok] x that by (auto simp: distinct_map inj_on_def)
  show s: "set (clients_timeout (forget_timer x l)) = set (clients_timeout l) - {x}"
    using ids by (auto simp: forget_timer_def erase_timer_def)
  have "client_lookup (forget_timer x l) d = Some i \<longleftrightarrow>
      (\<exists>y \<in> set (clients_timeout (forget_timer x l)). tm_id y = i \<and> tm_client y = d)" for d i
    using leader_okD(4) [OF ok, of d i] same_client [OF ok _ x] unfolding s by (auto simp: forget_timer_def)
  then show "leader_ok (forget_timer x l)"
    using leader_okD(1-3) [OF ok] unfolding leader_ok_def
    by (auto simp: forget_timer_def erase_timer_def sorted_filter distinct_map_filter)
qed

lemma heartbeat_timers:
  assumes "leader_ok l"
  shows "set (clients_timeout (heartbeat_update t c l)) \<subseteq>
    insert \<lparr>tm_id = next_id l, expiry = t + TIMEOUT_MS, tm_client = c\<rparr> (set (clients_timeout l))"
    and "next_id (heartbeat_update t c l) = Suc (next_id l)"
  by (auto simp: heartbeat_update_def Let_def erase_timer_def split: option.splits)

lemma announced_heartbeat:
  assumes "leader_ok l" "announced now x l" "now \<le> t"
  shows "announced now x (heartbeat_update t c l)"
  using assms(2,3) heartbeat_timers [OF assms(1), of t c]
  by (auto simp: announced_def TIMEOUT_MS_def)

lemma announced_first:
  assumes "leader_ok l" "x \<in> set (clients_timeout l)" "expiry x \<le> now"
  shows "announced now x l"
  using assms(3) leader_okD(3) [OF assms(1,2)] same_client [OF assms(1) _ assms(2)] leader_okD(2) [OF assms(1)] assms(2)
  by (auto simp: announced_def distinct_map inj_on_def)

lemma mon_step_ok:
  assumes "mon_step own s s'" "mon_ok s"
  shows "mon_ok s'"
  using assms
proof (induction rule: mon_step.induct)
  case (erases s "now" x)
  then have "x \<in> set (clients_timeout (mon_leader s))" by (auto simp: mon_ok_def sending_ok_def announced_def)
  then show ?case using erases forget_timer_ok(1) by (auto simp: mon_ok_def sending_ok_def waiting_def)
next
  case (heartbeat s t c)
  then have ok: "leader_ok (mon_leader s)" by (simp add: mon_ok_def)
  have "sending_ok (notify_one (s\<lparr>mon_leader := heartbeat_update t c (mon_leader s), mon_clock := t\<rparr>))"
    using heartbeat announced_heartbeat [OF ok] by (auto simp: mon_ok_def sending_ok_def split: mpc.splits)
  then show ?case using heartbeat heartbeat_ok(1) [OF ok] by (auto simp: mon_ok_def)
next
  case (unlocks s "now" x ts pad1 pad2 ms me)
  then have ok: "leader_ok (mon_leader s)" and x: "x \<in> set (clients_timeout (mon_leader s))" by (auto simp: mon_ok_def)
  show ?case using unlocks announced_first [OF ok x unlocks(3)] by (auto simp: mon_ok_def sending_ok_def waiting_def)
qed (auto simp: mon_ok_def sending_ok_def waiting_def split: mpc.splits)

lemma mon_start_ok: "leader_ok l \<Longrightarrow> mon_ok (mon_start l now)"
  by (simp add: mon_ok_def sending_ok_def waiting_def mon_start_def)

lemma mon_reach_ok: "mon_reach s \<Longrightarrow> mon_ok s"
  by (induction rule: mon_reach.induct) (blast intro: mon_start_ok mon_step_ok)+

section \<open>The tables as one map\<close>

text \<open>
  What a roadside unit knows, abstractly: when each client expires, and whom the monitor has announced to
  have left but not yet removed.  In \<open>Broken\<close> the program has erased through an invalid iterator.
\<close>

datatype leaving = Nobody | Leaves address nat | Broken

type_synonym table_view = "(address \<rightharpoonup> nat) \<times> leaving"

inductive membership_step :: "nat \<Rightarrow> table_view \<Rightarrow> call list \<Rightarrow> table_view \<Rightarrow> bool" for clock where
  beats: "clock \<le> t \<Longrightarrow> g \<noteq> Broken \<Longrightarrow> membership_step clock (m, g) [] (m(c \<mapsto> t + TIMEOUT_MS), g)"
| announces: "m c = Some e \<Longrightarrow> e \<le> clock \<Longrightarrow> membership_step clock (m, Nobody) (send_notify_left pad1 pad2 ms me c) (m, Leaves c e)"
| removes: "m c = Some e \<Longrightarrow> membership_step clock (m, Leaves c e) [] (m(c := None), Nobody)"
| breaks: "m c \<noteq> Some e \<Longrightarrow> membership_step clock (m, Leaves c e) [] (m, Broken)"
| rests: "membership_step clock v [] v"

definition view :: "monitor \<Rightarrow> table_view" where
  "view s = (members (mon_leader s), case mon_pc s of M_send now x \<Rightarrow> Leaves (tm_client x) (expiry x) | M_undefined \<Rightarrow> Broken | _ \<Rightarrow> Nobody)"

lemma members_forget:
  assumes "leader_ok l" "x \<in> set (clients_timeout l)"
  shows "members (forget_timer x l) = (members l)(tm_client x := None)"
  using same_client [OF assms(1) _ assms(2)] forget_timer_ok(2) [OF assms]
  by (intro members_eqI [OF forget_timer_ok(1) [OF assms]]) (auto simp: members_iff [OF assms(1)])

text \<open>The iterator of an announced client is valid exactly when the client has not been heard from.\<close>

lemma announced_valid:
  assumes "leader_ok l" "announced now x l"
  shows "tm_id x \<in> tm_id ` set (clients_timeout l) \<longleftrightarrow> x \<in> set (clients_timeout l)"
    "x \<in> set (clients_timeout l) \<longleftrightarrow> members l (tm_client x) = Some (expiry x)"
  using assms(2) by (fastforce simp: announced_def members_iff [OF assms(1)])+

lemma first_members: "leader_ok l \<Longrightarrow> clients_timeout l = x # ts \<Longrightarrow> members l (tm_client x) = Some (expiry x)"
  by (auto simp: members_iff)

lemma nobody_expired:
  assumes "leader_ok l" "\<forall>x ts. clients_timeout l = x # ts \<longrightarrow> now < expiry x" "members l c = Some e"
  shows "now < e"
proof -
  obtain y where y: "y \<in> set (clients_timeout l)" "expiry y = e" using assms(3) by (auto simp: members_iff [OF assms(1)])
  then show ?thesis using assms(2) leader_okD(1) [OF assms(1)] by (cases "clients_timeout l") (auto dest: less_le_trans)
qed

lemma mon_step_view:
  assumes "mon_step own s s'" "mon_ok s"
  shows "\<exists>out. membership_step (mon_clock s) (view s) out (view s') \<and> mon_sent s' = mon_sent s @ out"
  using assms
proof (induction rule: mon_step.induct)
  case (heartbeat s t c)
  then have "members (heartbeat_update t c (mon_leader s)) = (members (mon_leader s))(c \<mapsto> t + TIMEOUT_MS)"
    by (simp add: mon_ok_def heartbeat_ok(2))
  then show ?case using heartbeat(1,2)
    by (auto simp: view_def lock_free_def intro!: membership_step.beats split: mpc.splits)
next
  case (unlocks s "now" x ts pad1 pad2 ms me)
  then have ok: "leader_ok (mon_leader s)" "now \<le> mon_clock s" by (simp_all add: mon_ok_def sending_ok_def)
  show ?case using unlocks(1,3) first_members [OF ok(1) unlocks(2)] ok(2)
    by (auto simp: view_def intro: membership_step.announces)
next
  case (erases s "now" x)
  then have ok: "leader_ok (mon_leader s)" "announced now x (mon_leader s)" by (simp_all add: mon_ok_def sending_ok_def)
  then have x: "x \<in> set (clients_timeout (mon_leader s))" using erases announced_valid(1) by blast
  then have "members (mon_leader s) (tm_client x) = Some (expiry x)" using announced_valid(2) [OF ok] by simp
  then show ?case using erases(1) members_forget [OF ok(1) x] by (auto simp: view_def intro: membership_step.removes)
next
  case (dangles s "now" x)
  then have ok: "leader_ok (mon_leader s)" "announced now x (mon_leader s)" by (simp_all add: mon_ok_def sending_ok_def)
  then have "members (mon_leader s) (tm_client x) \<noteq> Some (expiry x)" using dangles announced_valid by blast
  then show ?case using dangles(1) by (auto simp: view_def intro: membership_step.breaks)
qed (auto simp: view_def intro: membership_step.rests)

text \<open>
  C19. The two coupled tables of the leader refine one map from clients to expiry times, whatever interleaves.
  A heartbeat, also one that comes while the monitor has given up its mutex to announce somebody, sets the
  client's expiry to ten milliseconds from now and nothing else.  Every step of the monitor is one of the
  map: it announces, with one broadcast, a client whose time has come, or removes the client it has
  announced, or changes nothing; when a sweep is over everybody left is in time.  The removal
  erases through an iterator that is no longer valid exactly when the announced client has been heard
  from in the meantime.
\<close>

theorem leader_tables_refine_map:
  assumes "mon_reach s"
  shows "leader_ok (mon_leader s) \<and>
    members (heartbeat_update t c (mon_leader s)) = (members (mon_leader s))(c \<mapsto> t + TIMEOUT_MS) \<and>
    (mon_step own s s' \<longrightarrow>
      (\<exists>out. membership_step (mon_clock s) (view s) out (view s') \<and> mon_sent s' = mon_sent s @ out) \<and>
      (mon_pc s = M_sweep now \<and> mon_pc s' = M_check \<longrightarrow> (\<forall>d e. members (mon_leader s') d = Some e \<longrightarrow> now < e)) \<and>
      (mon_pc s = M_send now x \<and> own \<longrightarrow>
         (mon_pc s' = M_undefined \<longleftrightarrow> members (mon_leader s) (tm_client x) \<noteq> Some (expiry x))))"
proof -
  have ok: "mon_ok s" by (rule mon_reach_ok [OF assms])
  then have l: "leader_ok (mon_leader s)" by (simp add: mon_ok_def)
  have over: "\<forall>d e. members (mon_leader s') d = Some e \<longrightarrow> now < e" if "mon_step own s s'" "mon_pc s = M_sweep now" "mon_pc s' = M_check"
  proof -
    have e: "mon_leader s' = mon_leader s" "\<forall>x ts. clients_timeout (mon_leader s) = x # ts \<longrightarrow> now < expiry x"
      using that by (cases rule: mon_step.cases; simp add: lock_free_def)+
    show ?thesis unfolding e(1) using nobody_expired [OF l e(2)] by blast
  qed
  have valid: "mon_pc s' = M_undefined \<longleftrightarrow> members (mon_leader s) (tm_client x) \<noteq> Some (expiry x)"
    if "mon_step own s s'" "mon_pc s = M_send now x" "own"
  proof -
    have "announced now x (mon_leader s)" using ok that(2) by (simp add: mon_ok_def sending_ok_def)
    note v = announced_valid [OF l this]
    have "mon_pc s' = M_undefined \<longleftrightarrow> tm_id x \<notin> tm_id ` set (clients_timeout (mon_leader s))"
      using that by (cases rule: mon_step.cases) simp_all
    then show ?thesis using v by simp
  qed
  show ?thesis using l heartbeat_ok(2) [OF l] mon_step_view [OF _ ok] over valid by blast
qed

text \<open>The race: a client that is announced to have left is heard from before it is removed.\<close>

definition announcing :: monitor where
  "announcing = (mon_start (heartbeat_update 0 (local 3) (fst (leader_init 0 7))) 0)
     \<lparr>mon_pc := M_send 12 \<lparr>tm_id = 0, expiry = 10, tm_client = local 3\<rparr>, mon_clock := 12,
      mon_sent := send_notify_left 0 0 5 (local 1) (local 3)\<rparr>"

lemma announcing_reached: "mon_reach announcing"
proof -
  let ?s = "mon_start (heartbeat_update 0 (local 3) (fst (leader_init 0 7))) 0"
  let ?x = "\<lparr>tm_id = 0, expiry = 10, tm_client = local 3\<rparr>"
  have ts: "clients_timeout (mon_leader ?s) = [?x]"
    by (simp add: mon_start_def heartbeat_update_def leader_init_def emplace_def TIMEOUT_MS_def)
  have "mon_reach ?s" by (rule mon_reach.started [OF heartbeat_ok(1) [OF leader_init_ok]])
  moreover have "mon_step True ?s (?s\<lparr>mon_pc := M_wait_until 10, mon_woken := False\<rparr>)"
    using mon_step.sleeps [of ?s ?x "[]"] ts by (simp add: mon_start_def)
  moreover have "mon_step True (?s\<lparr>mon_pc := M_wait_until 10, mon_woken := False\<rparr>)
      (?s\<lparr>mon_pc := M_sweep 12, mon_woken := False, mon_clock := 12\<rparr>)"
    using mon_step.times_out [of "?s\<lparr>mon_pc := M_wait_until 10, mon_woken := False\<rparr>" 10 12] by (simp add: mon_start_def)
  moreover have "mon_step True (?s\<lparr>mon_pc := M_sweep 12, mon_woken := False, mon_clock := 12\<rparr>) announcing"
    using mon_step.unlocks [of "?s\<lparr>mon_pc := M_sweep 12, mon_woken := False, mon_clock := 12\<rparr>" 12 ?x "[]" 0 0 5 "local 1"] ts
    by (simp add: announcing_def mon_start_def)
  ultimately show ?thesis by (blast intro: mon_reach.stepped)
qed

theorem leader_tables_refine_map_witness:
  "\<exists>s s'. mon_step False announcing s \<and> members (mon_leader s) (local 3) = Some 23 \<and> mon_step True s s' \<and> mon_pc s' = M_undefined"
proof -
  let ?s = "notify_one (announcing\<lparr>mon_leader := heartbeat_update 13 (local 3) (mon_leader announcing), mon_clock := 13\<rparr>)"
  have beat: "mon_step False announcing ?s"
    by (rule mon_step.heartbeat) (simp_all add: announcing_def lock_free_def)
  have pc: "mon_pc ?s = M_send 12 \<lparr>tm_id = 0, expiry = 10, tm_client = local 3\<rparr>" by (simp add: announcing_def)
  have "members (mon_leader ?s) (local 3) = Some 23"
    using leader_tables_refine_map [OF announcing_reached, of 13 "local 3"] by (simp add: TIMEOUT_MS_def)
  moreover obtain s' where "mon_step True ?s s'" using mon_step.erases [OF pc] mon_step.dangles [OF pc] by blast
  moreover have "mon_reach ?s" using announcing_reached beat by (rule mon_reach.stepped)
  ultimately show ?thesis using leader_tables_refine_map [of ?s 0 "local 3" True s'] beat pc by (intro exI [of _ ?s] exI [of _ s']) simp
qed

section \<open>How far the thread is from its end\<close>

definition expired :: "nat \<Rightarrow> leader \<Rightarrow> nat" where
  "expired now l = card {x \<in> set (clients_timeout l). expiry x \<le> now}"

text \<open>A deadline that passes starts a sweep of any length; a sweep then only gets shorter.\<close>

definition rank :: "monitor \<Rightarrow> nat \<times> nat" where
  "rank s = (case mon_pc s of
     M_wait_empty \<Rightarrow> (3, 0) | M_wait_until e \<Rightarrow> (3, 0)
   | M_sweep now \<Rightarrow> (2, 2 * expired now (mon_leader s)) | M_send now x \<Rightarrow> (2, 2 * expired now (mon_leader s) - 1)
   | M_check \<Rightarrow> (1, 0) | _ \<Rightarrow> (0, 0))"

lemma expired_mono:
  "{x \<in> set (clients_timeout l'). expiry x \<le> now} \<subseteq> {x \<in> set (clients_timeout l). expiry x \<le> now} \<Longrightarrow> expired now l' \<le> expired now l"
  unfolding expired_def by (rule card_mono) auto

lemma expired_heartbeat:
  assumes "leader_ok l" "now \<le> t"
  shows "expired now (heartbeat_update t c l) \<le> expired now l"
  using heartbeat_timers(1) [OF assms(1), of t c] assms(2) by (intro expired_mono) (auto simp: TIMEOUT_MS_def)

lemma expired_forget:
  assumes "leader_ok l" "x \<in> set (clients_timeout l)" "expiry x \<le> now"
  shows "2 * expired now (forget_timer x l) < 2 * expired now l - 1"
proof -
  let ?E = "{y \<in> set (clients_timeout l). expiry y \<le> now}"
  have "{y \<in> set (clients_timeout (forget_timer x l)). expiry y \<le> now} = ?E - {x}"
    using forget_timer_ok(2) [OF assms(1,2)] by auto
  moreover have "x \<in> ?E" "finite ?E" using assms(2,3) by auto
  ultimately have "expired now (forget_timer x l) = expired now l - 1" "expired now l > 0"
    by (auto simp: expired_def card_gt_0_iff)
  then show ?thesis by simp
qed

lemma own_step_rank:
  assumes "mon_step own s s'" "mon_ok s" "\<not> mon_running s" "own"
  shows "rank s' < rank s"
  using assms
proof (induction rule: mon_step.induct)
  case (unlocks s "now" x ts pad1 pad2 ms me)
  then have "expired now (mon_leader s) > 0" by (auto simp: expired_def card_gt_0_iff)
  then show ?case using unlocks by (simp add: rank_def)
next
  case (erases s "now" x)
  then have "x \<in> set (clients_timeout (mon_leader s))" "leader_ok (mon_leader s)" "expiry x \<le> now"
    by (auto simp: mon_ok_def sending_ok_def announced_def)
  from expired_forget [OF this(2,1,3)] show ?case using erases by (simp add: rank_def)
qed (auto simp: rank_def)

lemma environment_rank:
  assumes "mon_step own s s'" "mon_ok s" "\<not> own"
  shows "rank s' \<le> rank s"
  using assms
proof (induction rule: mon_step.induct)
  case (heartbeat s t c)
  have "expired now (heartbeat_update t c (mon_leader s)) \<le> expired now (mon_leader s)" if "mon_pc s = M_send now x" for "now" x
    using heartbeat that by (intro expired_heartbeat) (auto simp: mon_ok_def sending_ok_def)
  then show ?case using heartbeat by (auto simp: rank_def lock_free_def intro: diff_le_mono split: mpc.splits)
qed (auto simp: rank_def split: mpc.splits)

lemma stopped_stays: "mon_step own s s' \<Longrightarrow> \<not> mon_running s \<Longrightarrow> \<not> mon_running s'"
  by (induction rule: mon_step.induct) auto

text \<open>A thread that is not at its end can move, or waits for a wake-up that is given or on its way.\<close>

lemma monitor_not_stuck:
  assumes "mon_ok s" "\<not> mon_running s"
  shows "mon_pc s \<in> {M_done, M_undefined} \<or> (\<exists>s'. mon_step True s s') \<or> mon_notify s"
proof (cases "mon_pc s")
  case M_wait_empty
  then have "mon_woken s \<or> mon_notify s" using assms by (simp add: mon_ok_def waiting_def)
  then show ?thesis using wakes [OF M_wait_empty] assms(2) by blast
next
  case (M_sweep "now")
  then show ?thesis using unlocks [OF M_sweep] swept [OF M_sweep] by (meson not_le)
next
  case (M_send "now" x)
  then show ?thesis using erases [OF M_send] dangles [OF M_send] by blast
qed (use assms(2) stops interrupted in blast)+

text \<open>
  C20. The monitor of a leader can be stopped.  From the moment \<^verbatim>\<open>stop_membership_monitor\<close> has cleared
  the flag, however heartbeats interleave and whatever the clock reads, the thread makes only
  finitely many further steps, and until it is at the end of its loop it is never without a step or a pending
  wake-up: no notification is lost, the join of the destructor returns.  (The end may be the invalid
  iterator of a heartbeat that came in the unlocked window.)
\<close>

theorem monitor_stops:
  assumes "mon_reach (f 0)" "\<not> mon_running (f 0)" "\<forall>i. mon_step (own i) (f i) (f (Suc i))"
  shows "finite {i. own i} \<and>
    (\<forall>i. mon_pc (f i) \<in> {M_done, M_undefined} \<or> (\<exists>s'. mon_step True (f i) s') \<or> mon_notify (f i))"
proof -
  have all: "mon_reach (f i) \<and> \<not> mon_running (f i)" for i
  proof (induction i)
    case (Suc i)
    then show ?case using assms(3) mon_reach.stepped stopped_stays by blast
  qed (use assms in simp)
  then have ok: "mon_ok (f i)" for i using mon_reach_ok by blast
  have le: "rank (f (Suc i)) \<le> rank (f i)" for i
    using own_step_rank [OF spec [OF assms(3), of i]] environment_rank [OF spec [OF assms(3), of i]] ok all
    by (cases "own i") (auto intro: less_imp_le)
  then have dec: "i \<le> j \<Longrightarrow> rank (f j) \<le> rank (f i)" for i j by (rule lift_Suc_antimono_le)
  let ?r = "LEAST r. \<exists>i. r = rank (f i)"
  have "\<exists>i. ?r = rank (f i)" by (rule LeastI [of "\<lambda>r. \<exists>i. r = rank (f i)" "rank (f 0)"]) blast
  then obtain m where "?r = rank (f m)" by blast
  then have m: "rank (f m) \<le> rank (f i)" for i using Least_le [of "\<lambda>r. \<exists>i. r = rank (f i)" "rank (f i)"] by auto
  have "i < m" if "own i" for i
  proof (rule ccontr)
    assume "\<not> i < m"
    then have "rank (f i) = rank (f m)" using dec [of m i] m [of i] by simp
    moreover have "rank (f (Suc i)) < rank (f i)" using own_step_rank assms(3) ok all that by blast
    ultimately show False using m [of "Suc i"] by simp
  qed
  then have "finite {i. own i}" by (rule_tac finite_subset [of _ "{..<m}"]) auto
  then show ?thesis using monitor_not_stuck ok all by blast
qed

definition idle_monitor :: monitor where
  "idle_monitor = (mon_start (fst (leader_init 0 7)) 5)\<lparr>mon_pc := M_wait_empty, mon_running := False, mon_notify := True\<rparr>"

text \<open>A run: the idle monitor is stopped, notified, wakes up, leaves its loop, and is told to stop again for ever.\<close>

primrec stopping_run :: "nat \<Rightarrow> monitor" where
  "stopping_run 0 = idle_monitor"
| "stopping_run (Suc i) = (if i = 0 then idle_monitor\<lparr>mon_notify := False, mon_woken := True\<rparr>
     else if i = 1 then (stopping_run i)\<lparr>mon_pc := M_check\<rparr>
     else if i = 2 then (stopping_run i)\<lparr>mon_pc := M_done\<rparr>
     else (stopping_run i)\<lparr>mon_running := False, mon_notify := True\<rparr>)"

lemma stopping_run_done: "mon_pc (stopping_run (i + 3)) = M_done"
  by (induction i) (simp_all add: numeral_3_eq_3 numeral_2_eq_2)

lemma stopping_run_steps: "mon_step (i = 1 \<or> i = 2) (stopping_run i) (stopping_run (Suc i))"
proof -
  have "i = 0 \<or> i = 1 \<or> i = 2 \<or> (\<exists>j. i = j + 3)" by presburger
  then show ?thesis
  proof (elim disjE exE)
    fix j assume i: "i = j + 3"
    have "lock_free (mon_pc (stopping_run i))" unfolding i stopping_run_done by (simp add: lock_free_def)
    moreover have "stopping_run (Suc i) = (stopping_run i)\<lparr>mon_running := False, mon_notify := True\<rparr>"
      using i by (simp only: stopping_run.simps) simp
    ultimately show ?thesis using stop_flag i by simp
  qed (use stop_notify [of idle_monitor] wakes [of "stopping_run 1"] stops [of "stopping_run 2"] in
      \<open>auto simp: idle_monitor_def mon_start_def waiting_def numeral_2_eq_2\<close>)
qed

theorem monitor_stops_witness:
  "mon_reach idle_monitor \<and> mon_pc idle_monitor = M_wait_empty \<and> finite {i. i = 1 \<or> i = (2 :: nat)} \<and>
   (\<forall>i. mon_pc (stopping_run i) \<in> {M_done, M_undefined} \<or> (\<exists>s'. mon_step True (stopping_run i) s') \<or> mon_notify (stopping_run i))"
proof -
  let ?s = "mon_start (fst (leader_init 0 7)) 5"
  have "mon_reach ?s" by (rule started [OF leader_init_ok])
  moreover have "mon_step True ?s (?s\<lparr>mon_pc := M_wait_empty, mon_woken := False\<rparr>)"
    by (rule idles) (simp_all add: mon_start_def leader_init_def)
  moreover have "mon_step False (?s\<lparr>mon_pc := M_wait_empty, mon_woken := False\<rparr>) idle_monitor"
    using stop_flag [of "?s\<lparr>mon_pc := M_wait_empty, mon_woken := False\<rparr>"]
    by (simp add: idle_monitor_def lock_free_def mon_start_def)
  ultimately have r: "mon_reach idle_monitor" by (blast intro: mon_reach.stepped)
  have "mon_reach (stopping_run 0)" "\<not> mon_running (stopping_run 0)" using r by (simp_all add: idle_monitor_def)
  from monitor_stops [of stopping_run "\<lambda>i. i = 1 \<or> i = 2", OF this] stopping_run_steps r show ?thesis
    by (simp add: idle_monitor_def)
qed

end
