(* ===== verification/Protocol_Safety.thy ===== *)
theory Protocol_Safety
  imports Communicator_Model
begin

text \<open>
  Robustness of the protocol layer against its input: the well-formedness of a protocol's state, which
  every operation keeps, and the absence of undefined behaviour in the gateway for whatever bytes the
  network delivers.
\<close>

section \<open>Well-formed protocols\<close>

definition group_ok :: "group_handler \<Rightarrow> bool" where
  "group_ok g = (case g of Member \<Rightarrow> True | Leader l \<Rightarrow> leader_ok l)"

definition protocol_ok :: "'o protocol \<Rightarrow> bool" where
  "protocol_ok p \<longleftrightarrow> observers_ok p \<and> nearby_ok (local_block p) \<and> group_ok (group_handler p)"

text \<open>The calls of a handler that the protocol can carry out: the segments fit into a packet.\<close>

definition small_call :: "call \<Rightarrow> bool" where
  "small_call c = (case c of Send from to seg \<Rightarrow> length seg \<le> PACKET_MTU | _ \<Rightarrow> True)"

lemma small_call_simps [simp]:
  "small_call (Send from to seg) \<longleftrightarrow> length seg \<le> PACKET_MTU"
  "small_call (Set_session_key k)" "small_call (Unregister_nearby m)" "small_call (Set_clock t)" "small_call Overflow"
  by (simp_all add: small_call_def)

lemma nearby_ok_frame:
  "nearby_ok (set_session_key k b) = nearby_ok b" "nearby_ok (set_location q b) = nearby_ok b"
  by (simp_all add: nearby_ok_def get_entities_nearby_def set_session_key_def set_location_def)

lemma protocol_ok_block:
  "protocol_ok p \<Longrightarrow> nearby_ok b \<Longrightarrow> protocol_ok (p\<lparr>local_block := b\<rparr>)"
  by (simp add: protocol_ok_def observers_ok_def)

lemma protocol_okD: "protocol_ok p \<Longrightarrow> nearby_ok (local_block p)"
  by (simp add: protocol_ok_def)

lemma protocol_ok_fields:
  "protocol_ok (p\<lparr>external_nic := x\<rparr>) = protocol_ok p" "protocol_ok (p\<lparr>synchronizer := s\<rparr>) = protocol_ok p"
  "protocol_ok (p\<lparr>group_handler := g\<rparr>) \<longleftrightarrow> observers_ok p \<and> nearby_ok (local_block p) \<and> group_ok g"
  by (simp_all add: protocol_ok_def observers_ok_def)

section \<open>Sending is defined\<close>

lemma build_packet_defined:
  assumes "n \<le> length mem" "n \<le> PACKET_MTU"
  shows "build_packet c key loc sp dp mem (of_nat n) \<noteq> Out_of_bounds"
proof -
  have "unat (of_nat n :: u32) = n" using assms(2) by (intro unat_small_u32) (simp add: PACKET_MTU_def wire_simps)
  then show ?thesis using assms by (simp add: build_packet_def Let_def split: sum.splits)
qed

lemma protocol_send_defined:
  assumes "n \<le> length mem" "n \<le> PACKET_MTU"
  shows "\<exists>eff. protocol_send p from to mem (of_nat n) = Some eff"
  using build_packet_defined [OF assms]
  by (auto simp: protocol_send_def send_local_frame_def send_remote_frame_def split: option.splits built.splits)

lemma run_call_defined:
  assumes "small_call c" "protocol_ok p"
  shows "\<exists>p' eff. run_call c p = Some (p', eff) \<and> protocol_ok p'"
proof (cases c)
  case (Send "from" to seg)
  then show ?thesis using protocol_send_defined [of "length seg" seg p "from" to] assms by (auto simp: run_call_def)
next
  case (Unregister_nearby m)
  then show ?thesis using nearby.del_elems [OF protocol_okD [OF assms(2)]] protocol_ok_block [OF assms(2)]
    by (auto simp: run_call_def)
qed (use assms protocol_okD [OF assms(2)] in \<open>auto simp: run_call_def nearby_ok_frame intro: protocol_ok_block\<close>)

lemma run_calls_defined:
  "\<forall>c\<in>set cs. small_call c \<Longrightarrow> protocol_ok p \<Longrightarrow> \<exists>p' eff. run_calls cs p = Some (p', eff) \<and> protocol_ok p'"
proof (induction cs arbitrary: p)
  case (Cons c cs)
  obtain p1 acts err where "run_call c p = Some (p1, acts, err)" "protocol_ok p1"
    using run_call_defined [of c p] Cons.prems by auto
  moreover obtain p2 acts2 err2 where "run_calls cs p1 = Some (p2, acts2, err2)" "protocol_ok p2"
    using Cons.IH [OF _ \<open>protocol_ok p1\<close>] Cons.prems(1) by auto
  ultimately show ?case by (cases err) auto
qed simp

lemma finish_handler_defined:
  assumes "\<forall>c\<in>set cs. small_call c" "protocol_ok p"
  shows "\<exists>p' eff. finish_handler cs err p = Some (p', eff) \<and> protocol_ok p'"
proof -
  obtain p1 acts e where "run_calls cs p = Some (p1, acts, e)" "protocol_ok p1"
    using run_calls_defined [OF assms] by auto
  then show ?thesis by (cases e) (auto simp: finish_handler_def)
qed

section \<open>Handlers make small calls\<close>

lemma slave_calls_small:
  assumes "slave_handle now now' ok pl n from to s = (s', cs, err)" "c \<in> set cs"
  shows "small_call c"
  using assms
  by (auto simp: slave_handle_def receive_sync_def send_delay_req_def receive_delay_resp_def synchronize_def Let_def
      ptp_packet_def PACKET_MTU_def wire_simps split: if_splits option.splits sync_type.splits)

lemma master_calls_small:
  assumes "master_handle me now pl n from to = (s', cs, err)" "c \<in> set cs"
  shows "small_call c"
  using assms
  by (auto simp: master_handle_def master_receive_start_def master_receive_delay_req_def
      ptp_packet_def PACKET_MTU_def wire_simps split: if_splits option.splits sync_type.splits)

lemma member_calls_small: "c \<in> set (member_handle pl n from) \<Longrightarrow> small_call c"
  by (auto simp: member_handle_def split: if_splits)

lemma leader_calls_small:
  assumes "leader_handle now ns me pl n from l = (l', cs, err)" "leader_ok l"
  shows "leader_ok l'" "c \<in> set cs \<Longrightarrow> small_call c"
  using assms heartbeat_ok(1) [OF assms(2)]
  by (auto simp: leader_handle_def Let_def send_key_def group_segment_def PACKET_MTU_def wire_simps split: if_splits)

section \<open>Whatever the network sends\<close>

lemma handle_ptp_defined:
  assumes "protocol_ok p"
  shows "\<exists>p' eff. handle_ptp_message e x pl n from to p = Some (p', eff) \<and> protocol_ok p'"
proof (cases "synchronizer p")
  case (Slave s)
  obtain s' cs err where h: "slave_handle (now_ms e) (now_ms' e) (clock_ok e) pl n from to s = (s', cs, err)"
    by (metis prod_cases3)
  have "protocol_ok (p\<lparr>synchronizer := Slave s'\<rparr>)" using assms by (simp add: protocol_ok_fields)
  then show ?thesis using finish_handler_defined [of cs "p\<lparr>synchronizer := Slave s'\<rparr>"] slave_calls_small [OF h] Slave h
    by (simp add: handle_ptp_message_def)
next
  case Master
  obtain u cs err where h: "master_handle (external_address x) (now_ms e) pl n from to = (u, cs, err)"
    by (metis prod_cases3)
  then show ?thesis using finish_handler_defined [OF _ assms, of cs] master_calls_small [OF h] Master
    by (simp add: handle_ptp_message_def)
qed

lemma handle_group_defined:
  assumes "protocol_ok p"
  shows "\<exists>p' eff. handle_group_message e x pl n from p = Some (p', eff) \<and> protocol_ok p'"
proof (cases "group_handler p")
  case Member
  then show ?thesis using finish_handler_defined [OF _ assms, of "member_handle pl n from"] member_calls_small
    by (simp add: handle_group_message_def)
next
  case (Leader l)
  obtain l' cs err where h: "leader_handle (steady_ms e) (now_ns e) (external_address x) pl n from l = (l', cs, err)"
    by (metis prod_cases3)
  have ok: "leader_ok l" using assms Leader by (simp add: protocol_ok_def group_ok_def)
  have "protocol_ok (p\<lparr>group_handler := Leader l'\<rparr>)"
    using assms leader_calls_small(1) [OF h ok] by (simp add: protocol_ok_fields protocol_ok_def group_ok_def observers_ok_def)
  then show ?thesis
    using finish_handler_defined [of cs "p\<lparr>group_handler := Leader l'\<rparr>"] leader_calls_small(2) [OF h ok] Leader h
    by (simp add: handle_group_message_def)
qed

lemma filter_system_defined:
  assumes "protocol_ok p"
  shows "\<exists>p' eff b. filter_system_messages e x f from to p = Some (p', eff, b) \<and> protocol_ok p'"
proof (cases "nic_address x = paddr to \<or> BROADCAST_ADDR = paddr to")
  case True
  let ?seg = "packet_data (fr_data f)"
  let ?pl = "drop SEG_HEADER_SIZE ?seg"
  let ?n = "unat (ucast (data_length f) - of_nat PACKET_HEADER_SIZE - of_nat MAC_SIZE - of_nat SEG_HEADER_SIZE :: u64)"
  show ?thesis
    using True assms handle_ptp_defined [OF assms, of e x ?pl ?n "from" to] handle_group_defined [OF assms, of e x ?pl ?n "from"]
    by (cases "msg_type_of (seg_type (read_seg_header ?seg))" rule: option.exhaust)
      (auto simp: filter_system_messages_def Let_def split: msg_type.splits)
next
  case False
  then have "filter_system_messages e x f from to p = Some (p, ([], None), False)" by (simp add: filter_system_messages_def)
  then show ?thesis using assms by blast
qed

lemma forward_inside_defined:
  assumes "unat (data_length f) \<le> 1500" "13 \<le> unat (data_length f)" "length (fr_data f) = ETH_MTU"
  shows "\<exists>eff. forward_inside f from p = Some eff"
proof -
  let ?n = "unat (data_length f) - 13"
  have "data_length f = of_nat (13 + ?n)" using assms(2) by simp
  then have "data_length f = 13 + of_nat ?n" by (simp only: of_nat_add of_nat_numeral)
  then have "data_length f - 13 = of_nat ?n" by (metis add_diff_cancel_left')
  then have "payload_length f = of_nat ?n" by (simp add: payload_length_def wire_simps)
  moreover have "length (packet_data (fr_data f)) = 1495" using assms(3) by (simp add: packet_data_def wire_simps)
  moreover have "?n \<le> 1487" using assms(1) by simp
  ultimately obtain eff where "protocol_send p from \<lparr>paddr = LOCAL_ADDR, port = dport (fr_data f)\<rparr>
      (packet_data (fr_data f)) (payload_length f) = Some eff"
    using protocol_send_defined [of ?n "packet_data (fr_data f)" p "from" "\<lparr>paddr = LOCAL_ADDR, port = dport (fr_data f)\<rparr>"]
    by (auto simp: PACKET_MTU_def wire_simps)
  then show ?thesis using assms(1,3)
    by (cases eff) (auto simp: forward_inside_def Let_def wire_simps split: sum.splits option.splits)
qed

lemma protocol_send_effect:
  assumes "protocol_send p from to mem n = Some (acts, err)"
  shows "Free_external \<notin> set acts" "crypto p = Some XorCryptoProvider \<Longrightarrow> err = None"
  using assms
  by (auto simp: protocol_send_def send_local_frame_def send_remote_frame_def build_packet_def Let_def
      split: option.splits built.splits sum.splits if_splits)

lemma run_call_effect:
  "run_call c p = Some (p', acts, err) \<Longrightarrow> crypto p' = crypto p \<and> Free_external \<notin> set acts"
  by (cases c) (auto simp: run_call_def dest: protocol_send_effect(1))

lemma run_calls_effect:
  "run_calls cs p = Some (p', acts, err) \<Longrightarrow> crypto p' = crypto p \<and> Free_external \<notin> set acts"
proof (induction cs arbitrary: p p' acts err)
  case (Cons c cs)
  from Cons.prems obtain p1 acts1 err1 where one: "run_call c p = Some (p1, acts1, err1)"
    by (auto split: option.splits)
  then show ?case using Cons.prems run_call_effect [OF one]
    by (cases err1) (auto split: option.splits dest: Cons.IH)
qed simp

lemma finish_handler_effect:
  assumes "finish_handler cs err p = Some (p', acts, err')"
  shows "crypto p' = crypto p \<and> Free_external \<notin> set acts"
proof -
  obtain err1 where "run_calls cs p = Some (p', acts, err1)"
    using assms by (auto simp: finish_handler_def split: option.splits)
  then show ?thesis by (rule run_calls_effect)
qed

lemma handle_effect:
  "handle_ptp_message e x pl n from to p = Some (p', acts, err) \<Longrightarrow> crypto p' = crypto p \<and> Free_external \<notin> set acts"
  "handle_group_message e x pl n from p = Some (p', acts, err) \<Longrightarrow> crypto p' = crypto p \<and> Free_external \<notin> set acts"
  by (auto simp: handle_ptp_message_def handle_group_message_def split: synchronizer.splits group_handler.splits prod.splits
      dest: finish_handler_effect)

lemma filter_system_effect:
  "filter_system_messages e x f from to p = Some (p', (acts, err), b) \<Longrightarrow> crypto p' = crypto p \<and> Free_external \<notin> set acts"
  by (auto simp: filter_system_messages_def Let_def split: if_splits option.splits msg_type.splits dest: handle_effect)

lemma forward_inside_effect:
  assumes "forward_inside f from p = Some (acts, err)" "crypto p = Some XorCryptoProvider"
  shows "err = None \<and> count_list acts Free_external = 1"
proof -
  have "count_list as Free_external = 0" if "protocol_send p from to mem n = Some (as, e)" for to mem n as e
    using protocol_send_effect(1) [OF that] by (simp add: count_list_0_iff)
  then show ?thesis using assms protocol_send_effect(2) [OF _ assms(2)]
    by (fastforce simp: forward_inside_def Let_def split: if_splits option.splits)
qed

section \<open>A gateway and the bytes of the network\<close>

text \<open>
  The life of a gateway's receive thread: every turn of \<^verbatim>\<open>NIC::handle_receive\<close> on what the socket
  delivered, and \<^verbatim>\<open>Protocol::update\<close> on what the interface hands up.  A turn has the interface as it is
  at that moment, the readings of the clocks, the bytes on the stack and the bytes received.
\<close>

type_synonym turn = "ext_nic \<times> env \<times> bytes \<times> bytes"

definition gateway_turn :: "turn \<Rightarrow> 'o protocol \<Rightarrow> ('o protocol \<times> 'o effect) option" where
  "gateway_turn t p = (case t of (x, e, stale, raw) \<Rightarrow> (case handle_frame x stale raw of
       Rx_notify prot f \<Rightarrow> (if prot = ETHERNET_PROTOCOL_NUMBER then update_external e x f p
                            else Some (p, [Free_external], None))
     | _ \<Rightarrow> Some (p, [], None)))"

primrec gateway_run :: "turn list \<Rightarrow> 'o protocol \<Rightarrow> ('o protocol \<times> 'o effect) option" where
  "gateway_run [] p = Some (p, [], None)"
| "gateway_run (t # ts) p = (case gateway_turn t p of None \<Rightarrow> None
     | Some (p', acts, Some err) \<Rightarrow> Some (p', acts, Some err)
     | Some (p', acts, None) \<Rightarrow> (case gateway_run ts p' of None \<Rightarrow> None
         | Some (p'', acts', err) \<Rightarrow> Some (p'', acts @ acts', err)))"

text \<open>The frames the interface hands up, each in a buffer of its own.\<close>

definition handed_up :: "turn \<Rightarrow> bool" where
  "handed_up t = (case t of (x, e, stale, raw) \<Rightarrow> (case handle_frame x stale raw of Rx_notify prot f \<Rightarrow> True | _ \<Rightarrow> False))"

definition legal_turn :: "turn \<Rightarrow> bool" where
  "legal_turn t = (case t of (x, e, stale, raw) \<Rightarrow>
     length stale = ETH_HEADER_SIZE + ETH_MTU \<and> ETH_HEADER_SIZE \<le> length raw \<and> length raw \<le> ETH_HEADER_SIZE + ETH_MTU)"

lemma received_frame_shape:
  assumes "length stale = ETH_HEADER_SIZE + ETH_MTU" "ETH_HEADER_SIZE \<le> length raw" "length raw \<le> ETH_HEADER_SIZE + ETH_MTU"
  shows "length (fr_data (received_frame stale raw)) = ETH_MTU" "unat (data_length (received_frame stale raw)) \<le> 1500"
proof -
  show "length (fr_data (received_frame stale raw)) = ETH_MTU"
    using assms by (simp add: received_frame_eq wire_simps)
  have "data_length (received_frame stale raw) = of_nat (length raw - 14)"
    using assms(2) by (simp add: received_frame_def Let_def wire_simps)
  then show "unat (data_length (received_frame stale raw)) \<le> 1500"
    using assms(3) unat_small_u32 [of "length raw - 14"] by (simp add: wire_simps)
qed

lemma update_external_safe:
  assumes f: "length (fr_data f) = ETH_MTU" "unat (data_length f) \<le> 1500"
    and p: "protocol_ok p" "crypto p = Some XorCryptoProvider"
  shows "\<exists>p' acts. update_external e x f p = Some (p', acts, None) \<and> protocol_ok p' \<and>
    crypto p' = Some XorCryptoProvider \<and> count_list acts Free_external = 1"
proof -
  let ?from = "\<lparr>paddr = shost (fr_header f), port = sport (fr_data f)\<rparr>"
  let ?to = "\<lparr>paddr = dhost (fr_header f), port = dport (fr_data f)\<rparr>"
  let ?p1 = "p\<lparr>local_block := register_nearby_entity (shost (fr_header f)) (local_block p)\<rparr>"
  have p1: "protocol_ok ?p1" "crypto ?p1 = Some XorCryptoProvider"
    using nearby.add_elems [OF protocol_okD [OF p(1)]] protocol_ok_block [OF p(1)] p(2) by auto
  show ?thesis
  proof (cases "unat (data_length f) < 13")
    case True
    then show ?thesis using p1 by (simp add: update_external_def Let_def wire_simps)
  next
    case False
    obtain p2 acts err b where flt: "filter_system_messages e x f ?from ?to ?p1 = Some (p2, (acts, err), b)" "protocol_ok p2"
      using filter_system_defined [OF p1(1), of e x f ?from ?to] by auto
    then have p2: "crypto p2 = Some XorCryptoProvider" "count_list acts Free_external = 0"
      using filter_system_effect [OF flt(1)] p1(2) by (auto simp: count_list_0_iff)
    obtain acts2 err2 where "forward_inside f ?from p2 = Some (acts2, err2)"
      using forward_inside_defined [OF f(2) _ f(1), of "?from" p2] False by auto
    then show ?thesis using flt p2 False forward_inside_effect [OF _ p2(1), of f "?from" acts2 err2]
      by (cases err; cases b) (auto simp: update_external_def Let_def wire_simps)
  qed
qed

lemma gateway_turn_safe:
  assumes "legal_turn t" "protocol_ok p" "crypto p = Some XorCryptoProvider"
  shows "\<exists>p' acts. gateway_turn t p = Some (p', acts, None) \<and> protocol_ok p' \<and>
    crypto p' = Some XorCryptoProvider \<and> count_list acts Free_external = (if handed_up t then 1 else 0)"
proof -
  obtain x e stale raw where t: "t = (x, e, stale, raw)" by (cases t)
  have up: "f = received_frame stale raw" if "handle_frame x stale raw = Rx_notify prot f" for prot f
    using that by (auto simp: handle_frame_def Let_def split: if_splits)
  show ?thesis
    using update_external_safe [OF received_frame_shape assms(2,3), of stale raw e x] assms up
    by (cases "handle_frame x stale raw") (auto simp: t gateway_turn_def handed_up_def legal_turn_def)
qed

section \<open>Overflow\<close>

text \<open>
  The only signed arithmetic on what comes from the network is that of the slave.  It is defined when the
  clocks and the times of the PTP messages lie before \<open>2 ^ 62\<close> ms.
\<close>

definition slave_early :: "slave \<Rightarrow> bool" where
  "slave_early s \<longleftrightarrow> in_time (t1 s) \<and> in_time (t2 s) \<and> in_time (t3 s)"

definition sync_early :: "'o protocol \<Rightarrow> bool" where
  "sync_early p = (case synchronizer p of Slave s \<Rightarrow> slave_early s | Master \<Rightarrow> True)"

definition env_early :: "env \<Rightarrow> bool" where
  "env_early e \<longleftrightarrow> in_time (now_ms e) \<and> in_time (now_ms' e)"

text \<open>The time in a PTP payload, as far as a slave reads one.\<close>

definition times_early :: "bytes \<Rightarrow> bool" where
  "times_early pl \<longleftrightarrow> (sync_type_of (pl ! 0) \<in> {Some SYNC, Some DELAY_RESPONSE} \<longrightarrow> in_time (payload_time pl))"

definition frame_early :: "frame \<Rightarrow> bool" where
  "frame_early f \<longleftrightarrow> (msg_type_of (seg_type (read_seg_header (packet_data (fr_data f)))) = Some PTP \<longrightarrow>
     times_early (drop SEG_HEADER_SIZE (packet_data (fr_data f))))"

definition early_turn :: "turn \<Rightarrow> bool" where
  "early_turn t = (case t of (x, e, stale, raw) \<Rightarrow> env_early e \<and> frame_early (received_frame stale raw))"

lemma early_0 [simp]: "in_time 0"
  by (simp add: in_time_def)

lemma slave_early_handle:
  assumes "slave_handle now now' ok pl n from to s = (s', cs, err)" "slave_early s" "in_time now" "in_time now'" "times_early pl"
  shows "slave_early s' \<and> Overflow \<notin> set cs"
proof -
  have "sync_defined now (s\<lparr>t4 := payload_time pl\<rparr>)" if "sync_type_of (pl ! 0) = Some DELAY_RESPONSE"
    using early_offset(2) [of "s\<lparr>t4 := payload_time pl\<rparr>" "now"] assms(2,3,5) that by (simp add: slave_early_def times_early_def)
  then show ?thesis using assms
    by (auto simp: slave_handle_def receive_sync_def send_delay_req_def receive_delay_resp_def synchronize_def Let_def
        slave_early_def times_early_def split: if_splits option.splits sync_type.splits)
qed

lemma master_no_overflow: "master_handle me now pl n from to = (u, cs, err) \<Longrightarrow> Overflow \<notin> set cs"
  by (auto simp: master_handle_def master_receive_start_def master_receive_delay_req_def
      split: if_splits option.splits sync_type.splits)

lemma group_no_overflow:
  "Overflow \<notin> set (member_handle pl n from)"
  "leader_handle now ns me pl n from l = (l', cs, err) \<Longrightarrow> Overflow \<notin> set cs"
  by (auto simp: member_handle_def leader_handle_def Let_def send_key_def split: if_splits)

lemma protocol_send_no_overflow: "protocol_send p from to mem n = Some (acts, err) \<Longrightarrow> Undefined_overflow \<notin> set acts"
  by (auto simp: protocol_send_def send_local_frame_def send_remote_frame_def split: option.splits built.splits if_splits)

lemma run_call_no_overflow:
  "run_call c p = Some (p', acts, err) \<Longrightarrow> synchronizer p' = synchronizer p \<and> (c \<noteq> Overflow \<longrightarrow> Undefined_overflow \<notin> set acts)"
  by (cases c) (auto simp: run_call_def dest: protocol_send_no_overflow)

lemma run_calls_no_overflow:
  "run_calls cs p = Some (p', acts, err) \<Longrightarrow>
   synchronizer p' = synchronizer p \<and> (Overflow \<notin> set cs \<longrightarrow> Undefined_overflow \<notin> set acts)"
proof (induction cs arbitrary: p p' acts err)
  case (Cons c cs)
  from Cons.prems obtain p1 acts1 err1 where one: "run_call c p = Some (p1, acts1, err1)"
    by (auto split: option.splits)
  then show ?case using Cons.prems run_call_no_overflow [OF one]
    by (cases err1) (auto split: option.splits dest: Cons.IH)
qed simp

lemma finish_handler_no_overflow:
  assumes "finish_handler cs err p = Some (p', acts, err')"
  shows "synchronizer p' = synchronizer p \<and> (Overflow \<notin> set cs \<longrightarrow> Undefined_overflow \<notin> set acts)"
proof -
  obtain err1 where "run_calls cs p = Some (p', acts, err1)"
    using assms by (auto simp: finish_handler_def split: option.splits)
  then show ?thesis by (rule run_calls_no_overflow)
qed

lemma handle_ptp_early:
  assumes "handle_ptp_message e x pl n from to p = Some (p', acts, err)"
  shows "synchronizer p = Master \<Longrightarrow> synchronizer p' = Master \<and> Undefined_overflow \<notin> set acts"
    and "sync_early p \<Longrightarrow> env_early e \<Longrightarrow> times_early pl \<Longrightarrow> sync_early p' \<and> Undefined_overflow \<notin> set acts"
proof -
  show "synchronizer p' = Master \<and> Undefined_overflow \<notin> set acts" if "synchronizer p = Master"
  proof -
    obtain u cs err1 where h: "master_handle (external_address x) (now_ms e) pl n from to = (u, cs, err1)" by (metis prod_cases3)
    then have "finish_handler cs err1 p = Some (p', acts, err)" using assms that by (simp add: handle_ptp_message_def)
    then show ?thesis using finish_handler_no_overflow master_no_overflow [OF h] that by fastforce
  qed
  note master = this
  assume early: "sync_early p" "env_early e" "times_early pl"
  show "sync_early p' \<and> Undefined_overflow \<notin> set acts"
  proof (cases "synchronizer p")
    case (Slave s)
    obtain s' cs err1 where h: "slave_handle (now_ms e) (now_ms' e) (clock_ok e) pl n from to s = (s', cs, err1)" by (metis prod_cases3)
    then have fin: "finish_handler cs err1 (p\<lparr>synchronizer := Slave s'\<rparr>) = Some (p', acts, err)"
      using assms by (simp add: handle_ptp_message_def Slave)
    have "slave_early s' \<and> Overflow \<notin> set cs"
      using slave_early_handle [OF h] early Slave by (simp add: sync_early_def env_early_def)
    then show ?thesis using finish_handler_no_overflow [OF fin] by (simp add: sync_early_def)
  next
    case Master
    then show ?thesis using master by (simp add: sync_early_def)
  qed
qed

lemma handle_group_early:
  assumes "handle_group_message e x pl n from p = Some (p', acts, err)"
  shows "synchronizer p' = synchronizer p \<and> Undefined_overflow \<notin> set acts"
proof (cases "group_handler p")
  case Member
  then show ?thesis using assms finish_handler_no_overflow [of _ None p] group_no_overflow(1)
    by (simp add: handle_group_message_def)
next
  case (Leader l)
  obtain l' cs err1 where h: "leader_handle (steady_ms e) (now_ns e) (external_address x) pl n from l = (l', cs, err1)"
    by (metis prod_cases3)
  then have "finish_handler cs err1 (p\<lparr>group_handler := Leader l'\<rparr>) = Some (p', acts, err)"
    using assms by (simp add: handle_group_message_def Leader)
  then show ?thesis using finish_handler_no_overflow group_no_overflow(2) [OF h] by fastforce
qed

text \<open>What a turn keeps, for a roadside unit and for a car.\<close>

definition no_overflow :: "bool \<Rightarrow> 'o protocol \<Rightarrow> bool" where
  "no_overflow timely p \<longleftrightarrow> synchronizer p = Master \<or> timely \<and> sync_early p"

lemma filter_system_early:
  assumes "filter_system_messages e x f from to p = Some (p', (acts, err), b)" "no_overflow timely p"
    and "timely \<Longrightarrow> env_early e \<and> frame_early f"
  shows "no_overflow timely p' \<and> Undefined_overflow \<notin> set acts"
proof -
  let ?pl = "drop SEG_HEADER_SIZE (packet_data (fr_data f))"
  have ptp: "no_overflow timely p' \<and> Undefined_overflow \<notin> set acts"
    if "handle_ptp_message e x ?pl n from to p = Some (p', acts, err)"
      "msg_type_of (seg_type (read_seg_header (packet_data (fr_data f)))) = Some PTP" for n
    using handle_ptp_early [OF that(1)] assms(2,3) that(2) by (auto simp: no_overflow_def frame_early_def)
  have group: "no_overflow timely p' \<and> Undefined_overflow \<notin> set acts"
    if "handle_group_message e x ?pl n from p = Some (p', acts, err)" for n
    using handle_group_early [OF that] assms(2) by (auto simp: no_overflow_def sync_early_def)
  show ?thesis using assms(1,2) ptp group
    by (fastforce simp: filter_system_messages_def Let_def split: if_splits option.splits msg_type.splits)
qed

lemma update_external_early:
  assumes "update_external e x f p = Some (p', acts, err)" "no_overflow timely p" "timely \<Longrightarrow> env_early e \<and> frame_early f"
  shows "no_overflow timely p' \<and> Undefined_overflow \<notin> set acts"
proof -
  let ?p1 = "p\<lparr>local_block := register_nearby_entity (shost (fr_header f)) (local_block p)\<rparr>"
  let ?from = "\<lparr>paddr = shost (fr_header f), port = sport (fr_data f)\<rparr>"
  let ?to = "\<lparr>paddr = dhost (fr_header f), port = dport (fr_data f)\<rparr>"
  have p1: "no_overflow timely ?p1" using assms(2) by (simp add: no_overflow_def sync_early_def)
  have inside: "Undefined_overflow \<notin> set as" if "forward_inside f ?from q = Some (as, er)" for q as er
    using that by (auto simp: forward_inside_def Let_def split: if_splits option.splits sum.splits dest!: protocol_send_no_overflow)
  show ?thesis using assms(1) p1 filter_system_early [OF _ p1 assms(3), of x ?from ?to] inside
    by (fastforce simp: update_external_def Let_def split: if_splits option.splits bool.splits)
qed

lemma gateway_turn_early:
  assumes "gateway_turn t p = Some (p', acts, err)" "no_overflow timely p" "timely \<Longrightarrow> early_turn t"
  shows "no_overflow timely p' \<and> Undefined_overflow \<notin> set acts"
proof -
  obtain x e stale raw where t: "t = (x, e, stale, raw)" by (cases t)
  let ?f = "received_frame stale raw"
  have "(p' = p \<and> Undefined_overflow \<notin> set acts) \<or> update_external e x ?f p = Some (p', acts, err)"
    using assms(1) by (auto simp: t gateway_turn_def handle_frame_def Let_def split: if_splits)
  then show ?thesis using update_external_early [of e x ?f p p' acts err timely] assms(2,3) by (auto simp: t early_turn_def)
qed

text \<open>
  C13. No input of the network harms the receive thread of a gateway.  Whatever bytes its socket delivers, of
  any legal length and behind them whatever was on the stack, with any clock and in any order, a well-formed
  gateway with a crypto provider completes every turn: no access leaves its buffer, no exception escapes,
  the protocol stays well formed, and every frame buffer the interface hands up is freed exactly once.
  For a roadside unit that is all there is to fear.  In a car the slave computes with signed times: nothing overflows
  as long as the clocks and the times in the messages are before \<open>2 ^ 62\<close> ms (what a message with another time
  does is stated with the PTP exchange over the network).  The theorem is about the turns of the receive
  thread; what the monitor thread of a leader does in between is part of the membership monitor.
\<close>

theorem gateway_input_safe:
  assumes "\<forall>t\<in>set ts. legal_turn t" "protocol_ok p" "crypto p = Some XorCryptoProvider"
  shows "\<exists>p' acts. gateway_run ts p = Some (p', acts, None) \<and> protocol_ok p' \<and>
    count_list acts Free_external = length (filter handed_up ts) \<and>
    (synchronizer p = Master \<or> sync_early p \<and> (\<forall>t\<in>set ts. early_turn t) \<longrightarrow> Undefined_overflow \<notin> set acts)"
proof -
  have "\<exists>p' acts. gateway_run ts p = Some (p', acts, None) \<and> protocol_ok p' \<and>
      count_list acts Free_external = length (filter handed_up ts) \<and>
      (no_overflow timely p \<and> (timely \<longrightarrow> (\<forall>t\<in>set ts. early_turn t)) \<longrightarrow> Undefined_overflow \<notin> set acts)" for timely
    using assms
  proof (induction ts arbitrary: p)
    case (Cons t ts)
    obtain p1 acts1 where one: "gateway_turn t p = Some (p1, acts1, None)" "protocol_ok p1"
        "crypto p1 = Some XorCryptoProvider" "count_list acts1 Free_external = (if handed_up t then 1 else 0)"
      using gateway_turn_safe [of t p] Cons.prems by auto
    obtain p2 acts2 where "gateway_run ts p1 = Some (p2, acts2, None)" "protocol_ok p2"
        "count_list acts2 Free_external = length (filter handed_up ts)"
        "no_overflow timely p1 \<and> (timely \<longrightarrow> (\<forall>t\<in>set ts. early_turn t)) \<longrightarrow> Undefined_overflow \<notin> set acts2"
      using Cons.IH [OF _ one(2,3)] Cons.prems(1) by auto
    then show ?case using one gateway_turn_early [OF one(1), of timely] by auto
  qed simp
  from this [of "synchronizer p \<noteq> Master"] show ?thesis by (auto simp: no_overflow_def)
qed

lemma sample_gateway_ok: "protocol_ok sample_gateway"
  by (simp add: protocol_ok_def sample_gateway_observers sample_gateway_fields group_ok_def)
    (simp add: sample_gateway_def nearby_ok_def get_entities_nearby_def init_block_def sample_block_def)

definition sample_unit_gateway :: "nat protocol" where
  "sample_unit_gateway = sample_gateway\<lparr>synchronizer := Master\<rparr>"

theorem gateway_input_safe_witness:
  "\<exists>p' acts. gateway_run [(sample_nic, sample_env, replicate 1514 0xAA, replicate 14 0),
      (sample_nic, sample_env, replicate 1514 7, replicate 60 3)] sample_unit_gateway = Some (p', acts, None) \<and>
      protocol_ok p' \<and> Undefined_overflow \<notin> set acts"
proof -
  have "protocol_ok sample_unit_gateway" using sample_gateway_ok by (simp add: sample_unit_gateway_def protocol_ok_fields)
  from gateway_input_safe [OF _ this, of "[(sample_nic, sample_env, replicate 1514 0xAA, replicate 14 0), (sample_nic, sample_env, replicate 1514 7, replicate 60 3)]"]
  show ?thesis by (auto simp: legal_turn_def wire_simps sample_unit_gateway_def sample_gateway_fields(1))
qed

section \<open>No loops between the networks\<close>

lemma notify_or_free_inside: "b \<in> set (notify_or_free s c f) \<Longrightarrow> b = Free_local \<or> (\<exists>ob. b = Queue ob f)"
proof -
  have "\<forall>b \<in> set (snd (fold (notify_step queue_action s c f) is (n, acts))). \<exists>ob. b = Queue ob f"
    if "\<forall>b \<in> set acts. \<exists>ob. b = Queue ob f" for "is" n acts
    using that
  proof (induction "is" arbitrary: n acts)
    case (Cons i js)
    obtain n' acts' where e: "notify_step queue_action s c f i (n, acts) = (n', acts')" by fastforce
    have "\<forall>b \<in> set acts'. \<exists>ob. b = Queue ob f"
      using e Cons.prems by (auto simp: notify_step_def queue_action_def split: if_splits option.splits)
    then show ?case using Cons.IH e by simp
  qed simp
  note all = this [of "[]" "[0..<length (observers s)]" False]
  obtain n acts where n: "notify queue_action s c f [] = (n, acts)" by fastforce
  then have "\<forall>b \<in> set acts. \<exists>ob. b = Queue ob f" using all by (simp add: notify_def)
  then show "b \<in> set (notify_or_free s c f) \<Longrightarrow> b = Free_local \<or> (\<exists>ob. b = Queue ob f)"
    by (cases n) (auto simp: notify_or_free_def n)
qed

lemma notify_inside: "b \<in> set (notify_communicator p pt f) \<Longrightarrow> b = Free_local \<or> (\<exists>ob. b = Queue ob f)"
  by (auto simp: notify_communicator_def Let_def dest: notify_or_free_inside split: if_splits)

lemma forward_inside_local:
  assumes "forward_inside f from p = Some (acts, err)" "b \<in> set acts"
  shows "b = Free_external \<or> (\<exists>a. b = Local_send a \<and> sa_dst a = LOCAL_ADDR)"
  using assms
  by (fastforce simp: forward_inside_def Let_def protocol_send_def send_local_frame_def frame_args_def
      split: if_splits sum.splits option.splits built.splits)

text \<open>
  C14. A user frame never loops.  Whatever a gateway makes of a frame from the network that is no
  system message, it sends nothing back to the network, and what it puts into the shared memory,
  read by any process of the vehicle, the gateway itself included, is only queued at communicators or
  freed: it is not forwarded a second time in either direction.
\<close>

theorem no_forwarding_loop:
  assumes "update_external e x f p = Some (p', acts, err)" "\<not> system_message x f"
  shows "(\<forall>a. Remote_send a \<notin> set acts) \<and>
    (\<forall>a f' q. Local_send a \<in> set acts \<and> frame_holds a f' \<longrightarrow>
       (\<exists>as. update_local f' (q :: 'o protocol) = Some (as, None) \<and> (\<forall>b\<in>set as. b = Free_local \<or> (\<exists>ob. b = Queue ob f'))))"
proof -
  have b: "b = Free_external \<or> (\<exists>a. b = Local_send a \<and> sa_dst a = LOCAL_ADDR)" if "b \<in> set acts" for b
  proof (cases "13 \<le> unat (data_length f)")
    case True
    then show ?thesis using assms(1)
      by (auto simp: update_external_user [OF assms(2) True] dest: forward_inside_local [OF _ that])
  next
    case False
    then show ?thesis using assms(1) that by (auto simp: update_external_def Let_def wire_simps)
  qed
  have inside: "\<exists>as. update_local f' (q :: 'o protocol) = Some (as, None) \<and> (\<forall>b\<in>set as. b = Free_local \<or> (\<exists>ob. b = Queue ob f'))"
    if "Local_send a \<in> set acts" "frame_holds a f'" for a f' q
  proof -
    have "dhost (fr_header f') \<noteq> BROADCAST_ADDR"
      using b [OF that(1)] that(2) by (auto simp: frame_holds_def LOCAL_ADDR_def BROADCAST_ADDR_def)
    then show ?thesis using notify_inside [of _ q "dport (fr_data f')" f'] by (simp add: update_local_def Let_def)
  qed
  have "Remote_send a \<notin> set acts" for a using b [of "Remote_send a"] by auto
  then show ?thesis using inside by blast
qed

lemma sample_frame_shape:
  assumes "length d \<le> 1500"
  shows "length (fr_data (sample_frame d)) = ETH_MTU" "unat (data_length (sample_frame d)) \<le> 1500"
  using assms unat_small_u32 [of "length d"] by (simp_all add: sample_frame_def wire_simps)

theorem no_forwarding_loop_witness:
  "\<exists>p' acts. update_external sample_env sample_nic (sample_frame (packet 99 EAST 7 1000 sample_segment)) sample_gateway
     = Some (p', acts, None) \<and> (\<forall>a. Remote_send a \<notin> set acts)"
proof -
  let ?f = "sample_frame (packet 99 EAST 7 1000 sample_segment)"
  have "length sample_segment = 12" by (simp add: sample_segment_eq)
  then have len: "length (packet 99 EAST 7 1000 sample_segment) \<le> 1500" by (simp only: length_packet)
  from update_external_safe [OF sample_frame_shape [OF len] sample_gateway_ok sample_gateway_fields(1), of sample_env sample_nic]
  obtain p' acts where run: "update_external sample_env sample_nic ?f sample_gateway = Some (p', acts, None)" by blast
  from run conjunct1 [OF no_forwarding_loop [OF run sample_not_system]] show ?thesis by (intro exI conjI)
qed

section \<open>Changing quadrants\<close>

lemma find_Some: "List.find P xs = Some x \<Longrightarrow> P x \<and> x \<in> set xs"
  by (auto simp: find_Some_iff)

text \<open>
  C29. A car that moves takes its process group along.  After a turn of the quadrant changer and the
  protocol's reaction to the marked buffer, the interface is in another quadrant, one of those drawn;
  the quadrant in the shared memory, under which the components of the car send, is that of the
  interface; nobody counts as near any more; and exactly one message has gone out, a JOIN request
  under the new quadrant.
\<close>

theorem quadrant_change_propagates:
  assumes "quadrant_changer_step draws x = Some (x', dirty)" "group_handler p = Member"
    and "crypto p = Some XorCryptoProvider" "nic_address x \<noteq> BROADCAST_ADDR"
  shows "\<exists>p'. update_quadrant_change now x' (p\<lparr>external_nic := Some x'\<rparr>) = Some (p',
       [Remote_send (frame_args (external_address x') all_stations (packet (session_key (local_block p)) (nic_quadrant x')
          0 (port all_stations) (group_segment now [group_type_byte JOIN_REQUEST]))), Free_external], None) \<and>
     nic_quadrant x' \<noteq> nic_quadrant x \<and> nic_quadrant x' \<in> set draws \<and> nic_address x' = nic_address x \<and>
     location (local_block p') = nic_quadrant x' \<and> get_entities_nearby (local_block p') = [] \<and> dirty \<noteq> None"
proof -
  have x': "nic_quadrant x' \<noteq> nic_quadrant x" "nic_quadrant x' \<in> set draws" "nic_address x' = nic_address x" "dirty \<noteq> None"
    using assms(1)
    by (auto simp: quadrant_changer_step_def draw_new_quadrant_def nic_set_location_def nic_address_def alloc_frame_def
        split: option.splits dest: find_Some)
  have "port all_stations = 0" by (simp add: all_stations_def)
  then show ?thesis
    using quadrant_change_rejoins [of "p\<lparr>external_nic := Some x'\<rparr>" x' now] assms(2-4) x' by auto
qed

theorem quadrant_change_propagates_witness:
  "\<exists>x' dirty p' acts. quadrant_changer_step [EAST, EAST, SOUTH] sample_nic = Some (x', dirty) \<and>
     update_quadrant_change 5 x' (sample_gateway\<lparr>external_nic := Some x'\<rparr>) = Some (p', acts, None) \<and> nic_quadrant x' = SOUTH \<and>
     location (local_block p') = SOUTH"
proof -
  have step: "quadrant_changer_step [EAST, EAST, SOUTH] sample_nic = Some (nic_set_location SOUTH sample_nic,
      alloc_frame (nic_address sample_nic) (nic_address sample_nic) ETHERNET_PROTOCOL_NUMBER 0)"
    by (simp add: quadrant_changer_step_def draw_new_quadrant_def sample_nic_def)
  have "nic_address sample_nic \<noteq> BROADCAST_ADDR" by (simp add: sample_gateway_fields BROADCAST_ADDR_def)
  from quadrant_change_propagates [OF step sample_gateway_fields(4,1) this, of 5] step show ?thesis
    by (auto simp: nic_set_location_def)
qed

end
