(* ===== verification/Fleet_Network.thy ===== *)
theory Fleet_Network
  imports Protocol_Safety "HOL-Library.Multiset"
begin

text \<open>
  Vehicles on one network.  Every process has a protocol; those of a vehicle read what is put into their
  shared memory, and every gateway reads what is put on the wire.  Frames and packets on their way are
  a multiset of deliveries still to come.  The medium may lose and duplicate: what a process emits
  becomes any finite number of deliveries of it.
\<close>

section \<open>Processes and what is on its way\<close>

text \<open>\<open>In_shm\<close> is a slot of the shared memory that process reads, \<open>On_wire\<close> the bytes its socket delivers.\<close>

datatype item = In_shm nat frame | On_wire nat bytes

record 'o fleet =
  process :: "nat \<Rightarrow> 'o protocol"
  flight :: "item multiset"

text \<open>
  Where an action of process \<open>i\<close> gets to: to the processes of the same vehicle through the shared
  memory, \<open>vehicle\<close> being the vehicle of a process, and to any process with a socket through the engine.
\<close>

definition reaches :: "(nat \<Rightarrow> nat) \<Rightarrow> 'o fleet \<Rightarrow> nat \<Rightarrow> 'o protocol \<Rightarrow> 'o action \<Rightarrow> item \<Rightarrow> bool" where
  "reaches vehicle s i p act it = (case act of
     Local_send a \<Rightarrow> (case it of
        In_shm j f \<Rightarrow> vehicle j = vehicle i \<and> frame_holds a f \<and> length (fr_data f) = ETH_MTU
      | On_wire j raw \<Rightarrow> False)
   | Remote_send a \<Rightarrow> (case it of
        In_shm j f \<Rightarrow> False
      | On_wire j raw \<Rightarrow> external_nic (process s j) \<noteq> None \<and> (\<exists>x. external_nic p = Some x \<and>
          snd (raw_send (sa_src a) (sa_dst a) (sa_proto a) (sa_data a) (engine x)) = Some raw))
   | _ \<Rightarrow> False)"

definition spreads :: "(nat \<Rightarrow> nat) \<Rightarrow> 'o fleet \<Rightarrow> nat \<Rightarrow> 'o protocol \<Rightarrow> 'o action list \<Rightarrow> item multiset \<Rightarrow> bool" where
  "spreads vehicle s i p acts new \<longleftrightarrow> (\<forall>it \<in># new. \<exists>act \<in> set acts. reaches vehicle s i p act it)"

text \<open>One delivery: a process reads a slot of its shared memory, or a gateway what its socket received.\<close>

inductive delivery :: "(nat \<Rightarrow> nat) \<Rightarrow> 'o fleet \<Rightarrow> 'o fleet \<Rightarrow> bool" for vehicle where
  read_shm: "\<lbrakk>In_shm i f \<in># flight s; update_local f (process s i) = Some (acts, err);
     spreads vehicle s i (process s i) acts new\<rbrakk>
   \<Longrightarrow> delivery vehicle s (s\<lparr>flight := flight s - {#In_shm i f#} + new\<rparr>)"
| read_wire: "\<lbrakk>On_wire i raw \<in># flight s; external_nic (process s i) = Some x; legal_turn (x, e, stale, raw);
     gateway_turn (x, e, stale, raw) (process s i) = Some (p', acts, err); spreads vehicle s i p' acts new\<rbrakk>
   \<Longrightarrow> delivery vehicle s (s\<lparr>process := (process s)(i := p'), flight := flight s - {#On_wire i raw#} + new\<rparr>)"

inductive_cases deliveryE: "delivery vehicle s s'"

section \<open>What a gateway answers\<close>

lemma build_packet_Built:
  assumes "build_packet c k loc sp dp mem n = Built d"
  shows "(\<exists>m :: u64. d = packet_header loc sp dp @ take (unat n) mem @ le_bytes 8 m) \<and> unat n \<le> length mem \<and> unat n \<le> PACKET_MTU"
  using assms by (auto simp: build_packet_def Let_def split: if_splits sum.splits)

text \<open>What one call of \<^verbatim>\<open>Protocol::send\<close> emits.\<close>

lemma protocol_send_emits:
  assumes "protocol_send p from to mem n = Some (acts, err)" "b \<in> set acts"
  obtains d loc and m :: u64 where "d = packet_header loc (port from) (port to) @ take (unat n) mem @ le_bytes 8 m"
    "unat n \<le> length mem" "unat n \<le> PACKET_MTU" "acts = [b]"
    "b = Remote_send (frame_args from to d) \<and> (\<exists>x. external_nic p = Some x \<and> paddr to \<noteq> nic_address x \<and> paddr to \<noteq> LOCAL_ADDR) \<or>
     b = Local_send (frame_args from to d) \<and> (\<forall>x. external_nic p = Some x \<longrightarrow> paddr to \<in> {nic_address x, LOCAL_ADDR})"
proof -
  obtain k loc d where d: "build_packet (crypto p) k loc (port from) (port to) mem n = Built d"
    "acts = [b]" "b = Remote_send (frame_args from to d) \<and> (\<exists>x. external_nic p = Some x \<and> paddr to \<noteq> nic_address x \<and> paddr to \<noteq> LOCAL_ADDR) \<or>
     b = Local_send (frame_args from to d) \<and> (\<forall>x. external_nic p = Some x \<longrightarrow> paddr to \<in> {nic_address x, LOCAL_ADDR})"
    using assms
    by (auto simp: protocol_send_def send_local_frame_def send_remote_frame_def split: option.splits built.splits if_splits)
  then show thesis using build_packet_Built [OF d(1)] that by blast
qed

text \<open>
  A measure on what a packet can still cause.  A START is answered by a SYNC, a SYNC by a DELAY_REQUEST,
  that by a DELAY_RESPONSE, a JOIN by a KEY_DISTRIBUTION, and nothing else is answered.  In a packet
  too short to hold the type of a system message the handlers read the MAC or what lies behind the packet.
\<close>

definition segment_rank :: "byte \<Rightarrow> byte \<Rightarrow> nat" where
  "segment_rank t k = (if t = msg_type_byte PTP then
       (case sync_type_of k of Some START \<Rightarrow> 4 | Some SYNC \<Rightarrow> 3 | Some DELAY_REQUEST \<Rightarrow> 2 | _ \<Rightarrow> 1)
     else if t = msg_type_byte GROUP then (if k = group_type_byte JOIN_REQUEST then 2 else 1) else 0)"

definition packet_rank :: "bytes \<Rightarrow> nat" where
  "packet_rank d = (if length d < 15 then 4 else segment_rank (d ! 5) (d ! 14))"

definition item_rank :: "item \<Rightarrow> nat" where
  "item_rank it = (case it of In_shm i f \<Rightarrow> (if dhost (fr_header f) = BROADCAST_ADDR then 11 else 1)
     | On_wire i raw \<Rightarrow> 2 * packet_rank (drop ETH_HEADER_SIZE raw) + 2)"

definition below :: "nat \<Rightarrow> 'o action \<Rightarrow> bool" where
  "below r b = (case b of Remote_send a \<Rightarrow> packet_rank (sa_data a) < r | Local_send a \<Rightarrow> sa_dst a \<noteq> BROADCAST_ADDR | _ \<Rightarrow> True)"

lemma segment_rank_le: "segment_rank t k \<le> 4"
  by (simp add: segment_rank_def split: option.split sync_type.split)

lemma packet_rank_le: "packet_rank d \<le> 4"
  by (simp add: packet_rank_def segment_rank_le)

definition lower_call :: "nat \<Rightarrow> call \<Rightarrow> bool" where
  "lower_call r c = (case c of Send from to seg \<Rightarrow>
     10 \<le> length seg \<and> length seg \<le> PACKET_MTU \<and> segment_rank (seg ! 0) (seg ! 9) < r | _ \<Rightarrow> True)"

definition sane_nic :: "'o protocol \<Rightarrow> bool" where
  "sane_nic p \<longleftrightarrow> (\<forall>x. external_nic p = Some x \<longrightarrow> nic_address x \<noteq> BROADCAST_ADDR)"

lemma run_call_below:
  assumes "run_call c p = Some (p', acts, err)" "lower_call r c" "sane_nic p" "external_nic p \<noteq> None"
  shows "external_nic p' = external_nic p \<and> (\<forall>b \<in> set acts. below r b)"
proof (cases c)
  case (Send "from" to seg)
  have s: "protocol_send p from to seg (of_nat (length seg)) = Some (acts, err)" "p' = p"
    using assms(1) by (auto simp: run_call_def Send)
  have len: "10 \<le> length seg" "segment_rank (seg ! 0) (seg ! 9) < r" "length seg < 4294967296"
    using assms(2) by (auto simp: lower_call_def Send PACKET_MTU_def wire_simps)
  have "below r b" if in_acts: "b \<in> set acts" for b
  proof -
    from s(1) in_acts obtain d loc and m :: u64
      where d: "d = packet_header loc (port from) (port to) @ take (unat (of_nat (length seg) :: u32)) seg @ le_bytes 8 m"
        "b = Remote_send (frame_args from to d) \<and> (\<exists>x. external_nic p = Some x \<and> paddr to \<noteq> nic_address x \<and> paddr to \<noteq> LOCAL_ADDR) \<or>
         b = Local_send (frame_args from to d) \<and> (\<forall>x. external_nic p = Some x \<longrightarrow> paddr to \<in> {nic_address x, LOCAL_ADDR})"
      by (rule protocol_send_emits)
    have "seg \<noteq> []" using len(1) by auto
    then have "d ! 5 = seg ! 0 \<and> d ! 14 = seg ! 9 \<and> 23 \<le> length d"
      using len by (simp add: d(1) unat_small_u32 nth_append)
    then have "packet_rank d < r" using len by (simp add: packet_rank_def)
    then show ?thesis using d(2) assms(3,4) by (auto simp: below_def frame_args_def sane_nic_def)
  qed
  then show ?thesis using s by simp
qed (use assms(1) in \<open>auto simp: run_call_def below_def\<close>)

lemma run_calls_below:
  "run_calls cs p = Some (p', acts, err) \<Longrightarrow> \<forall>c \<in> set cs. lower_call r c \<Longrightarrow> sane_nic p \<Longrightarrow> external_nic p \<noteq> None \<Longrightarrow>
   external_nic p' = external_nic p \<and> (\<forall>b \<in> set acts. below r b)"
proof (induction cs arbitrary: p p' acts err)
  case (Cons c cs)
  from Cons.prems(1) obtain p1 acts1 err1 where one: "run_call c p = Some (p1, acts1, err1)"
    by (auto split: option.splits)
  have b: "external_nic p1 = external_nic p" "\<forall>b \<in> set acts1. below r b"
    using run_call_below [OF one _ Cons.prems(3,4)] Cons.prems(2) by auto
  then have p1: "sane_nic p1" "external_nic p1 \<noteq> None" using Cons.prems(3,4) by (simp_all add: sane_nic_def)
  show ?case
  proof (cases err1)
    case None
    then obtain acts2 where two: "run_calls cs p1 = Some (p', acts2, err)" "acts = acts1 @ acts2"
      using Cons.prems(1) one by (auto split: option.splits)
    then show ?thesis using Cons.IH [OF two(1) _ p1] Cons.prems(2) b by auto
  next
    case (Some e)
    then show ?thesis using Cons.prems(1) one b by auto
  qed
qed simp

lemma finish_handler_below:
  assumes "finish_handler cs err p = Some (p', acts, err')" "\<forall>c \<in> set cs. lower_call r c" "sane_nic p" "external_nic p \<noteq> None"
  shows "external_nic p' = external_nic p \<and> (\<forall>b \<in> set acts. below r b)"
proof -
  obtain err1 where "run_calls cs p = Some (p', acts, err1)"
    using assms(1) by (auto simp: finish_handler_def split: option.splits)
  then show ?thesis using assms(2-4) by (rule run_calls_below)
qed

lemma ptp_packet_nth:
  "ptp_packet ts ty rest ! 0 = msg_type_byte PTP" "ptp_packet ts ty rest ! 9 = sync_type_byte ty"
  by (simp_all add: ptp_packet_def seg_header_bytes_def nth_append)

lemma group_segment_nth:
  "group_segment ts (k # rest) ! 0 = msg_type_byte GROUP" "group_segment ts (k # rest) ! 9 = k"
  by (simp_all add: group_segment_def seg_header_bytes_def nth_append)

lemma length_replies:
  "length (ptp_packet ts ty rest) = 10 + length rest" "length (group_segment ts pl) = 9 + length pl"
  by (simp_all add: ptp_packet_def group_segment_def wire_simps)

lemmas reply_simps = ptp_packet_nth group_segment_nth length_replies lower_call_def segment_rank_def PACKET_MTU_def sync_type_of_def

lemma slave_replies:
  assumes "slave_handle now now' ok pl n from to s = (s', cs, err)" "c \<in> set cs"
  shows "lower_call (segment_rank (msg_type_byte PTP) (pl ! 0)) c"
  using assms
  by (auto simp: slave_handle_def receive_sync_def send_delay_req_def receive_delay_resp_def synchronize_def Let_def
      reply_simps wire_simps split: if_splits option.splits sync_type.splits)

lemma master_replies:
  assumes "master_handle me now pl n from to = (u, cs, err)" "c \<in> set cs"
  shows "lower_call (segment_rank (msg_type_byte PTP) (pl ! 0)) c"
  using assms
  by (auto simp: master_handle_def master_receive_start_def master_receive_delay_req_def
      reply_simps wire_simps split: if_splits option.splits sync_type.splits)

lemma member_replies: "c \<in> set (member_handle pl n from) \<Longrightarrow> lower_call r c"
  by (auto simp: member_handle_def lower_call_def split: if_splits)

lemma leader_replies:
  assumes "leader_handle now ns me pl n from l = (l', cs, err)" "c \<in> set cs"
  shows "lower_call (segment_rank (msg_type_byte GROUP) (pl ! 0)) c"
  using assms by (auto simp: leader_handle_def Let_def send_key_def reply_simps wire_simps split: if_splits)

lemma handle_ptp_below:
  assumes "handle_ptp_message e x pl n from to p = Some (p', acts, err)" "sane_nic p" "external_nic p \<noteq> None"
  shows "external_nic p' = external_nic p \<and> (\<forall>b \<in> set acts. below (segment_rank (msg_type_byte PTP) (pl ! 0)) b)"
proof (cases "synchronizer p")
  case (Slave s)
  obtain s' cs err1 where h: "slave_handle (now_ms e) (now_ms' e) (clock_ok e) pl n from to s = (s', cs, err1)"
    by (metis prod_cases3)
  then have "finish_handler cs err1 (p\<lparr>synchronizer := Slave s'\<rparr>) = Some (p', acts, err)"
    using assms(1) by (simp add: handle_ptp_message_def Slave)
  from finish_handler_below [OF this, of "segment_rank (msg_type_byte PTP) (pl ! 0)"] slave_replies [OF h] assms(2,3)
  show ?thesis by (simp add: sane_nic_def)
next
  case Master
  obtain u cs err1 where h: "master_handle (external_address x) (now_ms e) pl n from to = (u, cs, err1)"
    by (metis prod_cases3)
  then have "finish_handler cs err1 p = Some (p', acts, err)"
    using assms(1) by (simp add: handle_ptp_message_def Master)
  from finish_handler_below [OF this] master_replies [OF h] assms(2,3) show ?thesis by blast
qed

lemma handle_group_below:
  assumes "handle_group_message e x pl n from p = Some (p', acts, err)" "sane_nic p" "external_nic p \<noteq> None"
  shows "external_nic p' = external_nic p \<and> (\<forall>b \<in> set acts. below (segment_rank (msg_type_byte GROUP) (pl ! 0)) b)"
proof (cases "group_handler p")
  case Member
  then show ?thesis using finish_handler_below [OF _ _ assms(2,3)] member_replies assms(1)
    by (simp add: handle_group_message_def)
next
  case (Leader l)
  obtain l' cs err1 where h: "leader_handle (steady_ms e) (now_ns e) (external_address x) pl n from l = (l', cs, err1)"
    by (metis prod_cases3)
  then have "finish_handler cs err1 (p\<lparr>group_handler := Leader l'\<rparr>) = Some (p', acts, err)"
    using assms(1) by (simp add: handle_group_message_def Leader)
  from finish_handler_below [OF this, of "segment_rank (msg_type_byte GROUP) (pl ! 0)"] leader_replies [OF h] assms(2,3)
  show ?thesis by (simp add: sane_nic_def)
qed

lemma filter_system_below:
  assumes "filter_system_messages e x f from to p = Some (p', (acts, err), b)" "sane_nic p" "external_nic p \<noteq> None"
    and "length (fr_data f) = ETH_MTU"
  shows "external_nic p' = external_nic p \<and> (\<forall>b \<in> set acts. below (segment_rank (fr_data f ! 5) (fr_data f ! 14)) b)"
proof -
  let ?t = "seg_type (read_seg_header (packet_data (fr_data f)))" and ?pl = "drop SEG_HEADER_SIZE (packet_data (fr_data f))"
  have t: "?t = fr_data f ! 5" "?pl ! 0 = fr_data f ! 14"
    using assms(4) by (simp_all add: read_seg_header_def packet_data_def wire_simps)
  have ty: "fr_data f ! 5 = msg_type_byte mt" if "msg_type_of ?t = Some mt" for mt
    using that by (auto simp: msg_type_of_def t split: if_splits)
  show ?thesis using assms(1-3) ty
    by (auto simp: filter_system_messages_def Let_def t split: if_splits option.splits msg_type.splits
        dest!: handle_ptp_below handle_group_below)
qed

lemma update_external_below:
  assumes "update_external e x f p = Some (p', acts, err)" "sane_nic p" "external_nic p \<noteq> None" "length (fr_data f) = ETH_MTU"
  shows "external_nic p' = external_nic p \<and> (\<forall>b \<in> set acts. below (segment_rank (fr_data f ! 5) (fr_data f ! 14)) b)"
proof -
  let ?from = "\<lparr>paddr = shost (fr_header f), port = sport (fr_data f)\<rparr>"
  let ?to = "\<lparr>paddr = dhost (fr_header f), port = dport (fr_data f)\<rparr>"
  let ?p1 = "p\<lparr>local_block := register_nearby_entity (shost (fr_header f)) (local_block p)\<rparr>"
  let ?r = "segment_rank (fr_data f ! 5) (fr_data f ! 14)"
  have free: "below ?r Free_external" by (simp add: below_def)
  have p1: "sane_nic ?p1" "external_nic ?p1 \<noteq> None" using assms(2,3) by (simp_all add: sane_nic_def)
  have inside: "\<forall>b \<in> set acts'. below ?r b" if "forward_inside f ?from q = Some (acts', err')" for q acts' err'
    using forward_inside_local [OF that] by (fastforce simp: below_def)
  show ?thesis using assms(1) filter_system_below [OF _ p1 assms(4), of e x ?from ?to] free
    by (auto simp: update_external_def Let_def split: if_splits option.splits bool.splits dest!: inside)
qed

lemma gateway_turn_below:
  assumes "gateway_turn (x, e, stale, raw) p = Some (p', acts, err)" "sane_nic p" "external_nic p \<noteq> None" "legal_turn (x, e, stale, raw)"
  shows "external_nic p' = external_nic p \<and> (\<forall>b \<in> set acts. below (packet_rank (drop ETH_HEADER_SIZE raw)) b)"
proof (cases "handle_frame x stale raw")
  case (Rx_notify prot f)
  then have f: "f = received_frame stale raw" by (auto simp: handle_frame_def Let_def split: if_splits)
  have l: "length stale = 1514" "14 \<le> length raw" "length raw \<le> 1514" using assms(4) by (simp_all add: legal_turn_def wire_simps)
  have len: "length (fr_data f) = ETH_MTU"
    unfolding f by (rule received_frame_shape) (use l in \<open>simp_all add: wire_simps\<close>)
  have "segment_rank (fr_data f ! 5) (fr_data f ! 14) \<le> packet_rank (drop ETH_HEADER_SIZE raw)"
  proof (cases "length raw < 29")
    case True
    then have "length (drop 14 raw) < 15" using l(2) by simp
    then show ?thesis using segment_rank_le by (simp add: packet_rank_def wire_simps)
  next
    case False
    then have "5 < length (drop 14 raw)" "14 < length (drop 14 raw)" using l(2) by simp_all
    then have "fr_data f ! 5 = drop 14 raw ! 5" "fr_data f ! 14 = drop 14 raw ! 14"
      using l by (simp_all add: f received_frame_eq nth_append del: length_drop)
    then show ?thesis using False by (simp add: packet_rank_def wire_simps segment_rank_le)
  qed
  then have mono: "below (segment_rank (fr_data f ! 5) (fr_data f ! 14)) b \<Longrightarrow> below (packet_rank (drop ETH_HEADER_SIZE raw)) b"
    for b :: "'a action" by (auto simp: below_def split: action.splits)
  show ?thesis
  proof (cases "prot = ETHERNET_PROTOCOL_NUMBER")
    case True
    then have "update_external e x f p = Some (p', acts, err)" using assms(1) Rx_notify by (simp add: gateway_turn_def)
    from update_external_below [OF this assms(2,3) len] mono show ?thesis by blast
  next
    case False
    then show ?thesis using assms(1) Rx_notify by (auto simp: gateway_turn_def below_def)
  qed
qed (use assms(1) in \<open>simp_all add: gateway_turn_def\<close>)

section \<open>The network falls silent\<close>

lemma reaches_rank:
  assumes "reaches vehicle s i p b it" "below r b"
  shows "item_rank it < 2 * r + 2 \<or> item_rank it = 1"
  using assms
  by (auto simp: reaches_def below_def item_rank_def frame_holds_def raw_send_def wire_simps
      split: action.splits item.splits if_splits)

lemma update_local_below:
  assumes "update_local f p = Some (acts, err)" "sane_nic p" "b \<in> set acts"
  shows "(\<exists>a. b = Remote_send a) \<and> dhost (fr_header f) = BROADCAST_ADDR \<or> b = Free_local \<or> (\<exists>ob. b = Queue ob f)"
proof -
  let ?dp = "dport (fr_data f)"
  have fwd: "\<exists>a. b' = Remote_send a"
    if "protocol_send p \<lparr>paddr = nic_address x, port = sport (fr_data f)\<rparr> \<lparr>paddr = BROADCAST_ADDR, port = ?dp\<rparr> m n = Some (as, er)"
      "external_nic p = Some x" "b' \<in> set as" for x m n as er b'
    using that(1,3) by (rule protocol_send_emits) (use that(2) assms(2) in \<open>auto simp: sane_nic_def\<close>)
  have inside: "b = Free_local \<or> (\<exists>ob. b = Queue ob f)"
    if "b \<in> set (if ?dp = TYPE_BASED_ROUTING_PORT then notify_communicator p ?dp f else [Free_local])"
    using that notify_inside [of b p ?dp f] by (simp split: if_splits)
  show ?thesis
  proof (cases "dhost (fr_header f) = BROADCAST_ADDR")
    case broadcast: True
    show ?thesis
    proof (cases "external_nic p")
      case None
      then show ?thesis using assms(1,3) broadcast inside by (auto simp: update_local_def Let_def)
    next
      case (Some x)
      obtain as er where s: "protocol_send p \<lparr>paddr = nic_address x, port = sport (fr_data f)\<rparr> \<lparr>paddr = BROADCAST_ADDR, port = ?dp\<rparr>
          (packet_data (fr_data f)) (payload_length f) = Some (as, er)"
        using assms(1) broadcast Some by (auto simp: update_local_def Let_def split: option.splits)
      have "b \<in> set as \<or> b \<in> set (if ?dp = TYPE_BASED_ROUTING_PORT then notify_communicator p ?dp f else [Free_local])"
        using assms(1,3) broadcast Some s by (cases er) (auto simp: update_local_def Let_def)
      then show ?thesis using fwd [OF s Some] inside broadcast by blast
    qed
  next
    case False
    then show ?thesis using assms(1,3) notify_inside by (auto simp: update_local_def Let_def)
  qed
qed

lemma delivery_decreases:
  assumes "delivery vehicle s s'" "\<forall>i. sane_nic (process s i)"
  obtains it new where "it \<in># flight s" "flight s' = flight s - {#it#} + new" "\<forall>it' \<in># new. item_rank it' < item_rank it"
  using assms(1)
proof (cases rule: delivery.cases)
  case (read_shm i f acts err new)
  have "item_rank it' < item_rank (In_shm i f)" if new: "it' \<in># new" for it'
  proof -
    obtain b where b: "b \<in> set acts" "reaches vehicle s i (process s i) b it'" using read_shm(4) new by (auto simp: spreads_def)
    have "b = Remote_send a \<Longrightarrow> item_rank it' \<le> 10" for a
      using b(2) packet_rank_le [of "drop ETH_HEADER_SIZE (case it' of On_wire j raw \<Rightarrow> raw)"]
      by (auto simp: reaches_def item_rank_def split: item.splits)
    then show ?thesis using update_local_below [OF read_shm(3) _ b(1)] assms(2) b(2)
      by (fastforce simp: reaches_def item_rank_def)
  qed
  then show ?thesis using read_shm(1,2) that by simp
next
  case (read_wire i raw x e stale p' acts err new)
  have "\<forall>b \<in> set acts. below (packet_rank (drop ETH_HEADER_SIZE raw)) b"
    using gateway_turn_below [OF read_wire(5) _ _ read_wire(4)] read_wire(3) assms(2) by auto
  then have "item_rank it' < item_rank (On_wire i raw)" if "it' \<in># new" for it'
    using read_wire(6) that reaches_rank by (fastforce simp: spreads_def item_rank_def)
  then show ?thesis using read_wire(1,2) that by simp
qed

section \<open>Deliveries always succeed\<close>

text \<open>What is on its way, as the interfaces make it: within the limits of a slot and of a wire frame.\<close>

definition item_ok :: "'o fleet \<Rightarrow> item \<Rightarrow> bool" where
  "item_ok s it = (case it of
     In_shm i f \<Rightarrow> length (fr_data f) = ETH_MTU \<and> 13 \<le> unat (data_length f) \<and> unat (data_length f) \<le> 1500
   | On_wire i raw \<Rightarrow> external_nic (process s i) \<noteq> None \<and> ETH_HEADER_SIZE \<le> length raw \<and> length raw \<le> ETH_HEADER_SIZE + ETH_MTU)"

definition member_ok :: "'o protocol \<Rightarrow> bool" where
  "member_ok p \<longleftrightarrow> protocol_ok p \<and> crypto p = Some XorCryptoProvider \<and> sane_nic p"

definition fleet_ok :: "'o fleet \<Rightarrow> bool" where
  "fleet_ok s \<longleftrightarrow> (\<forall>i. member_ok (process s i)) \<and> (\<forall>it \<in># flight s. item_ok s it)"

text \<open>Sizes: every packet built holds header and MAC and fits into a frame.\<close>

definition fits :: "'o action \<Rightarrow> bool" where
  "fits b = (case b of Local_send a \<Rightarrow> 13 \<le> length (sa_data a) \<and> length (sa_data a) \<le> ETH_MTU
     | Remote_send a \<Rightarrow> 13 \<le> length (sa_data a) \<and> length (sa_data a) \<le> ETH_MTU | _ \<Rightarrow> True)"

lemma fits_simps [simp]: "fits (Queue ob f)" "fits Free_local" "fits Free_external" "fits (Clock_call t)" "fits Undefined_overflow"
  by (simp_all add: fits_def)

lemma protocol_send_fits:
  assumes "protocol_send p from to mem n = Some (acts, err)" "b \<in> set acts"
  shows "fits b"
  using assms by (rule protocol_send_emits) (auto simp: fits_def frame_args_def PACKET_MTU_def wire_simps)

lemma run_call_fits: "run_call c p = Some (p', acts, err) \<Longrightarrow> b \<in> set acts \<Longrightarrow> fits b"
  by (cases c) (auto simp: run_call_def dest: protocol_send_fits)

lemma run_calls_fits: "run_calls cs p = Some (p', acts, err) \<Longrightarrow> b \<in> set acts \<Longrightarrow> fits b"
proof (induction cs arbitrary: p p' acts err)
  case (Cons c cs)
  from Cons.prems(1) obtain p1 acts1 err1 where one: "run_call c p = Some (p1, acts1, err1)"
    by (auto split: option.splits)
  then show ?case using Cons.prems run_call_fits [OF one]
    by (cases err1) (auto split: option.splits dest: Cons.IH)
qed simp

lemma finish_handler_fits: "finish_handler cs err p = Some (p', acts, err') \<Longrightarrow> b \<in> set acts \<Longrightarrow> fits b"
  by (auto simp: finish_handler_def split: option.splits dest: run_calls_fits)

lemma notify_fits: "b \<in> set (notify_communicator p pt f) \<Longrightarrow> fits b"
  by (auto dest!: notify_inside)

lemma update_local_fits: "update_local f p = Some (acts, err) \<Longrightarrow> b \<in> set acts \<Longrightarrow> fits b"
  by (auto simp: update_local_def Let_def split: if_splits option.splits) (erule (1) protocol_send_fits | erule notify_fits)+

lemma forward_inside_fits: "forward_inside f from p = Some (acts, err) \<Longrightarrow> b \<in> set acts \<Longrightarrow> fits b"
  by (auto simp: forward_inside_def Let_def split: if_splits option.splits sum.splits) (erule (1) protocol_send_fits)+

lemma filter_system_fits:
  "filter_system_messages e x f from to p = Some (p', (acts, err), c) \<Longrightarrow> b \<in> set acts \<Longrightarrow> fits b"
  by (auto simp: filter_system_messages_def handle_ptp_message_def handle_group_message_def Let_def
      split: if_splits option.splits msg_type.splits synchronizer.splits group_handler.splits prod.splits
      dest: finish_handler_fits)

lemma update_external_fits: "update_external e x f p = Some (p', acts, err) \<Longrightarrow> b \<in> set acts \<Longrightarrow> fits b"
  by (auto simp: update_external_def Let_def split: if_splits option.splits bool.splits)
    (erule (1) filter_system_fits forward_inside_fits)+

lemma gateway_turn_fits: "gateway_turn t p = Some (p', acts, err) \<Longrightarrow> b \<in> set acts \<Longrightarrow> fits b"
  by (auto simp: gateway_turn_def split: prod.splits rx.splits if_splits dest: update_external_fits)

lemma comm_send_fits:
  assumes "comm_send io p c m = Some ((acts, err), io')" "b \<in> set acts"
  shows "fits b"
proof -
  obtain d where "protocol_send p (c_address c) (m_destination m) d (of_nat (length d)) = Some (acts, err)"
    using assms(1) unfolding comm_send_def Let_def by (metis (no_types, lifting) map_option_eq_Some prod.inject)
  then show ?thesis using assms(2) by (rule protocol_send_fits)
qed

lemma fits_written:
  assumes "13 \<le> length (sa_data a)" "length (sa_data a) \<le> ETH_MTU"
  shows "length (fr_data g) = ETH_MTU \<Longrightarrow> length (fr_data (write_frame a g)) = ETH_MTU \<and>
      unat (data_length (write_frame a g)) = length (sa_data a)"
    "\<exists>raw. snd (raw_send (sa_src a) (sa_dst a) (sa_proto a) (sa_data a) en) = Some raw \<and> length raw = ETH_HEADER_SIZE + length (sa_data a)"
  using assms by (auto simp: write_frame_def memcpy_at_def raw_send_def wire_simps unat_small_u32)

text \<open>
  C15. Everything the protocol emits fits.  A send of any size but the last thirteen that the size
  argument can express is defined, and whatever an application, the forwarding of a broadcast or the answer
  to any bytes from the network makes the protocol emit, it is at least a header and a MAC and at
  most 1500 bytes: written to a slot of the shared memory it stays inside the slot with its length
  intact, and the raw engine does not refuse it.
\<close>

theorem emitted_packets_fit:
  "(unat n \<le> length mem \<and> unat n < 2 ^ 32 - 13 \<longrightarrow> protocol_send p from to mem n \<noteq> None) \<and>
   (protocol_send p from to mem n = Some (acts, err) \<or> comm_send io p c m = Some ((acts, err), io') \<or>
    update_local f p = Some (acts, err) \<or> gateway_turn t p = Some (p', acts, err) \<longrightarrow>
    Local_send a \<in> set acts \<or> Remote_send a \<in> set acts \<longrightarrow>
      13 \<le> length (sa_data a) \<and> length (sa_data a) \<le> 1500 \<and>
      (length (fr_data g) = ETH_MTU \<longrightarrow> length (fr_data (write_frame a g)) = ETH_MTU \<and>
         unat (data_length (write_frame a g)) = length (sa_data a)) \<and>
      (\<exists>raw. snd (raw_send (sa_src a) (sa_dst a) (sa_proto a) (sa_data a) en) = Some raw \<and>
         length raw = ETH_HEADER_SIZE + length (sa_data a)))"
proof -
  have "build_packet k key loc sp dp mem n \<noteq> Out_of_bounds" if "unat n \<le> length mem" "unat n < 2 ^ 32 - 13" for k key loc sp dp
  proof -
    have "of_nat PACKET_HEADER_SIZE + n + of_nat MAC_SIZE = of_nat (13 + unat n)" by (simp add: wire_simps add.commute)
    moreover have "unat (of_nat (13 + unat n) :: u32) = 13 + unat n"
      by (rule unat_small_u32) (use that(2) in simp)
    ultimately have "unat (of_nat PACKET_HEADER_SIZE + n + of_nat MAC_SIZE) = 13 + unat n" by metis
    then show ?thesis using that(1)
      by (auto simp: build_packet_def Let_def PACKET_MTU_def wire_simps split: sum.splits)
  qed
  then have defined: "unat n \<le> length mem \<and> unat n < 2 ^ 32 - 13 \<longrightarrow> protocol_send p from to mem n \<noteq> None"
    by (auto simp: protocol_send_def send_local_frame_def send_remote_frame_def split: option.splits built.splits)
  have "13 \<le> length (sa_data a) \<and> length (sa_data a) \<le> ETH_MTU"
    if "protocol_send p from to mem n = Some (acts, err) \<or> comm_send io p c m = Some ((acts, err), io') \<or>
      update_local f p = Some (acts, err) \<or> gateway_turn t p = Some (p', acts, err)"
      "Local_send a \<in> set acts \<or> Remote_send a \<in> set acts"
  proof -
    have "fits b" if "b \<in> set acts" for b
      using protocol_send_fits [OF _ that] comm_send_fits [OF _ that] update_local_fits [OF _ that] gateway_turn_fits [OF _ that]
        \<open>_ \<or> comm_send io p c m = _ \<or> _\<close> by blast
    then show ?thesis using that(2) by (force simp: fits_def)
  qed
  then show ?thesis using defined fits_written(1) [of a g] fits_written(2) [of a en] by (auto simp: ETH_MTU_def)
qed

theorem emitted_packets_fit_witness:
  "protocol_send sample_gateway (local 7) (broadcast 1000) (replicate 1500 0) 1488 = Some ([], None) \<and>
   (\<exists>a err. protocol_send sample_gateway (local 7) (broadcast 1000) (replicate 1487 0) 1487 = Some ([Remote_send a], err) \<and>
      length (sa_data a) \<le> 1500)"
proof -
  have "length (replicate 1487 (0 :: byte)) \<le> PACKET_MTU" by (simp add: PACKET_MTU_def wire_simps)
  from protocol_send_built [of sample_gateway, OF sample_gateway_fields(1) this, of "local 7" "broadcast 1000"]
  obtain a err where a: "protocol_send sample_gateway (local 7) (broadcast 1000) (replicate 1487 0) 1487 = Some ([Remote_send a], err)"
    by (simp add: sample_gateway_fields broadcast_def local_def BROADCAST_ADDR_def LOCAL_ADDR_def)
  have "length (sa_data a) \<le> 1500" using emitted_packets_fit [of 1487 "replicate 1487 0" sample_gateway "local 7" "broadcast 1000" "[Remote_send a]" err] a
    by simp
  moreover have "protocol_send sample_gateway (local 7) (broadcast 1000) (replicate 1500 0) 1488 = Some ([], None)"
    by (simp add: protocol_send_def send_remote_frame_def build_packet_def Let_def sample_gateway_fields broadcast_def
        BROADCAST_ADDR_def LOCAL_ADDR_def wire_simps)
  ultimately show ?thesis using a by blast
qed

section \<open>Every run of deliveries ends, and ends in silence\<close>

lemma member_okD:
  assumes "fleet_ok s"
  shows "protocol_ok (process s i)" "crypto (process s i) = Some XorCryptoProvider" "sane_nic (process s i)"
    "it \<in># flight s \<Longrightarrow> item_ok s it"
  using assms by (auto simp: fleet_ok_def member_ok_def)

lemma gateway_turn_ok:
  assumes "legal_turn (x, e, stale, raw)" "member_ok p" "external_nic p = Some x"
  shows "\<exists>p' acts. gateway_turn (x, e, stale, raw) p = Some (p', acts, None)"
    "gateway_turn (x, e, stale, raw) p = Some (p', acts, err) \<Longrightarrow> member_ok p' \<and> external_nic p' = external_nic p"
  using gateway_turn_safe [OF assms(1)] gateway_turn_below [OF _ _ _ assms(1), of p] assms
  by (fastforce simp: member_ok_def sane_nic_def)+

lemma reaches_ok:
  assumes "reaches vehicle s i p b it" "fits b"
  shows "item_ok s it"
proof (cases it)
  case (In_shm j f)
  then obtain a where a: "b = Local_send a" "frame_holds a f" "length (fr_data f) = ETH_MTU"
    using assms(1) by (auto simp: reaches_def split: action.splits)
  then have len: "13 \<le> length (sa_data a)" "length (sa_data a) \<le> 1500" using assms(2) by (simp_all add: fits_def wire_simps)
  then have "unat (data_length f) = length (sa_data a)" using a(2) by (simp add: frame_holds_def unat_small_u32)
  then show ?thesis using a(3) len by (simp add: item_ok_def In_shm)
next
  case (On_wire j raw)
  then show ?thesis using assms
    by (auto simp: reaches_def item_ok_def fits_def raw_send_def wire_simps split: action.splits if_splits)
qed

lemma item_ok_cong: "(\<And>i. external_nic (process s' i) = external_nic (process s i)) \<Longrightarrow> item_ok s' it = item_ok s it"
  by (simp add: item_ok_def split: item.split)

lemma delivery_keeps:
  assumes "delivery vehicle s s'" "fleet_ok s"
  shows "fleet_ok s'"
  using assms(1)
proof (cases rule: delivery.cases)
  case (read_shm i f acts err new)
  have "item_ok s it" if "it \<in># new" for it
    using read_shm(4) that reaches_ok update_local_fits [OF read_shm(3)] by (fastforce simp: spreads_def)
  moreover have "item_ok s' it = item_ok s it" for it by (rule item_ok_cong) (simp add: read_shm(1))
  ultimately show ?thesis using assms(2) read_shm(1) by (auto simp: fleet_ok_def dest!: in_diffD)
next
  case (read_wire i raw x e stale p' acts err new)
  have p': "member_ok p'" "external_nic p' = external_nic (process s i)"
    using gateway_turn_ok(2) [OF read_wire(4) _ read_wire(3) read_wire(5)] assms(2) by (auto simp: fleet_ok_def)
  have "item_ok s it" if "it \<in># new" for it
    using read_wire(6) that reaches_ok gateway_turn_fits [OF read_wire(5)] by (fastforce simp: spreads_def)
  moreover have "item_ok s' it = item_ok s it" for it by (rule item_ok_cong) (simp add: read_wire(1) p'(2))
  ultimately show ?thesis using assms(2) read_wire(1) p'(1) by (auto simp: fleet_ok_def dest!: in_diffD)
qed

lemma update_local_defined:
  assumes "length (fr_data f) = ETH_MTU" "13 \<le> unat (data_length f)" "unat (data_length f) \<le> 1500"
  shows "\<exists>eff. update_local f p = Some eff"
proof -
  let ?n = "unat (data_length f) - 13"
  have "data_length f = 13 + of_nat ?n" using assms(2) by (simp only: of_nat_diff) simp
  then have "data_length f - 13 = of_nat ?n" by (metis add_diff_cancel_left')
  then have n: "payload_length f = of_nat ?n" by (simp add: payload_length_def wire_simps)
  have "length (packet_data (fr_data f)) = 1495" using assms(1) by (simp add: packet_data_def wire_simps)
  then have "\<exists>eff. protocol_send p from to (packet_data (fr_data f)) (payload_length f) = Some eff" for "from" to
    unfolding n using assms(3) by (intro protocol_send_defined) (simp_all add: PACKET_MTU_def wire_simps)
  note defined = this
  show ?thesis
  proof (cases "external_nic p")
    case (Some x)
    obtain as er where "protocol_send p \<lparr>paddr = nic_address x, port = sport (fr_data f)\<rparr>
        \<lparr>paddr = BROADCAST_ADDR, port = dport (fr_data f)\<rparr> (packet_data (fr_data f)) (payload_length f) = Some (as, er)"
      using defined by fastforce
    then show ?thesis using Some by (cases er) (auto simp: update_local_def Let_def)
  qed (simp add: update_local_def Let_def)
qed

lemma delivery_enabled:
  assumes "fleet_ok s" "it \<in># flight s"
  shows "\<exists>s'. delivery vehicle s s'"
proof (cases it)
  case (In_shm i f)
  then obtain acts err where "update_local f (process s i) = Some (acts, err)"
    using update_local_defined member_okD(4) [OF assms] by (fastforce simp: item_ok_def)
  from delivery.read_shm [OF _ this, where new = "{#}"] assms(2) In_shm show ?thesis by (auto simp: spreads_def)
next
  case (On_wire i raw)
  then obtain x where x: "external_nic (process s i) = Some x" "ETH_HEADER_SIZE \<le> length raw" "length raw \<le> ETH_HEADER_SIZE + ETH_MTU"
    using member_okD(4) [OF assms] by (auto simp: item_ok_def)
  have turn: "legal_turn (x, undefined, replicate 1514 0, raw)" using x(2,3) by (simp add: legal_turn_def wire_simps)
  have "member_ok (process s i)" using assms(1) by (simp add: fleet_ok_def)
  from gateway_turn_ok(1) [OF turn this x(1)] obtain p' acts
    where "gateway_turn (x, undefined, replicate 1514 0, raw) (process s i) = Some (p', acts, None)" by blast
  from delivery.read_wire [OF _ x(1) turn this, where new = "{#}"] assms(2) On_wire show ?thesis by (auto simp: spreads_def)
qed

lemma delivery_wf: "wf {(flight s', flight s) | (s :: 'o fleet) s'. delivery vehicle s s' \<and> (\<forall>i. sane_nic (process s i))}" (is "wf ?R")
proof -
  let ?r = "{(a, b). item_rank a < item_rank b}"
  have "wf ?r" using wf_measure [of item_rank] by (simp add: measure_def inv_image_def less_than_def less_eq)
  then have "wf (mult1 ?r)" by (rule wf_mult1)
  moreover have "?R \<subseteq> mult1 ?r"
  proof
    fix x assume "x \<in> ?R"
    then obtain s s' :: "'o fleet" where x: "x = (flight s', flight s)" "delivery vehicle s s'" "\<forall>i. sane_nic (process s i)" by blast
    obtain it new where d: "it \<in># flight s" "flight s' = flight s - {#it#} + new" "\<forall>it' \<in># new. item_rank it' < item_rank it"
      using delivery_decreases [OF x(2,3)] by blast
    then have "flight s = add_mset it (flight s - {#it#})" by simp
    then show "x \<in> mult1 ?r" using d(2,3) unfolding x(1) mult1_def by blast
  qed
  ultimately show ?thesis by (rule wf_subset)
qed

lemma deliveries_keep: "(delivery vehicle)\<^sup>*\<^sup>* s s' \<Longrightarrow> fleet_ok s \<Longrightarrow> fleet_ok s'"
  by (induction rule: rtranclp_induct) (auto dest: delivery_keeps)

text \<open>
  C4. The network falls silent.  Whatever frames and packets are on their way among any number of
  vehicles, whatever the medium loses or duplicates, with any clocks and any memory behind short
  packets: the processes do not keep each other busy.  There is no endless sequence of deliveries, every
  protocol stays well formed throughout, and as long as something is on its way the process it is
  for can take it, so that a sequence of deliveries can only stop when nothing is on its way.
\<close>

theorem network_falls_silent:
  fixes s :: "'o fleet"
  assumes "fleet_ok s"
  shows "(\<nexists>run. run 0 = s \<and> (\<forall>n. delivery vehicle (run n) (run (Suc n)))) \<and>
    (\<forall>s'. (delivery vehicle)\<^sup>*\<^sup>* s s' \<longrightarrow> fleet_ok s' \<and> ((\<nexists>s''. delivery vehicle s' s'') \<longleftrightarrow> flight s' = {#}))"
proof -
  have "\<not> (\<forall>n. delivery vehicle (run n) (run (Suc n)))" if "run 0 = s" for run :: "nat \<Rightarrow> 'o fleet"
  proof
    assume steps: "\<forall>n. delivery vehicle (run n) (run (Suc n))"
    have "fleet_ok (run n)" for n using assms that steps delivery_keeps by (induction n) auto
    then have "(flight (run (Suc n)), flight (run n)) \<in> {(flight s', flight s) | (s :: 'o fleet) s'. delivery vehicle s s' \<and> (\<forall>i. sane_nic (process s i))}"
      for n using steps member_okD(3) by blast
    then have "\<exists>f. \<forall>n. (f (Suc n), f n) \<in> {(flight s', flight s) | (s :: 'o fleet) s'. delivery vehicle s s' \<and> (\<forall>i. sane_nic (process s i))}"
      by (intro exI [of _ "\<lambda>n. flight (run n)"] allI)
    then show False using delivery_wf [where vehicle = vehicle and 'o = 'o] unfolding wf_iff_no_infinite_down_chain by (rule notE [rotated])
  qed
  moreover have "fleet_ok s' \<and> ((\<nexists>s''. delivery vehicle s' s'') \<longleftrightarrow> flight s' = {#})" if "(delivery vehicle)\<^sup>*\<^sup>* s s'" for s'
  proof -
    have ok: "fleet_ok s'" using deliveries_keep [OF that assms] .
    have "\<exists>s''. delivery vehicle s' s''" if "flight s' \<noteq> {#}"
      using multiset_nonemptyE [OF that] delivery_enabled [OF ok] by metis
    moreover have "flight s' \<noteq> {#}" if "delivery vehicle s' s''" for s'' using that by (auto elim!: deliveryE)
    ultimately show ?thesis using ok by blast
  qed
  ultimately show ?thesis by blast
qed

text \<open>Two gateways and a component each, and a broadcast of the first component.\<close>

definition sample_fleet :: "nat fleet" where
  "sample_fleet = \<lparr>process = (\<lambda>i. if i = 0 then sample_gateway
       else if i = 1 then sample_gateway\<lparr>external_nic := Some \<lparr>engine = sample_engine, nic_quadrant = EAST, fixed_location = False\<rparr>\<rparr>
       else init_component sample_gateway),
     flight = {#In_shm 0 (sample_frame (packet 99 EAST 7 1000 sample_segment)),
       On_wire 1 (mac_bytes BROADCAST_ADDR @ mac_bytes LOCAL_ADDR @ [0x88, 0xB5, 1, 0, 0, 0, 0])#}\<rparr>"

lemma sample_fleet_ok: "fleet_ok sample_fleet"
proof -
  have p: "protocol_ok (sample_gateway\<lparr>external_nic := x\<rparr>)" for x
    using sample_gateway_ok by (simp add: protocol_ok_fields)
  have "member_ok (process sample_fleet i)" for i
    using sample_gateway_ok p
    by (simp add: sample_fleet_def member_ok_def init_component_def sane_nic_def sample_gateway_fields nic_address_def
        sample_engine_def sample_nic_def BROADCAST_ADDR_def)
  moreover have "length (packet 99 EAST 7 1000 sample_segment) = 25" by (simp add: sample_segment_eq)
  then have "item_ok sample_fleet (In_shm 0 (sample_frame (packet 99 EAST 7 1000 sample_segment)))"
    using sample_frame_shape by (simp add: item_ok_def sample_frame_def wire_simps)
  moreover have "item_ok sample_fleet (On_wire 1 (mac_bytes BROADCAST_ADDR @ mac_bytes LOCAL_ADDR @ [0x88, 0xB5, 1, 0, 0, 0, 0]))"
    by (simp add: item_ok_def sample_fleet_def wire_simps)
  ultimately show ?thesis by (simp add: fleet_ok_def) (simp add: sample_fleet_def)
qed

theorem network_falls_silent_witness:
  "(\<nexists>run. run 0 = sample_fleet \<and> (\<forall>n. delivery (\<lambda>i. i mod 2) (run n) (run (Suc n)))) \<and>
   (\<exists>s'. delivery (\<lambda>i. i mod 2) sample_fleet s')"
proof -
  note silent = network_falls_silent [OF sample_fleet_ok, of "\<lambda>i. i mod 2"]
  have "flight sample_fleet \<noteq> {#}" by (simp add: sample_fleet_def)
  moreover have "(\<nexists>s'. delivery (\<lambda>i. i mod 2) sample_fleet s') \<longleftrightarrow> flight sample_fleet = {#}"
    using conjunct2 [OF silent] rtranclp.rtrancl_refl by metis
  ultimately have "\<exists>s'. delivery (\<lambda>i. i mod 2) sample_fleet s'" by metis
  with conjunct1 [OF silent] show ?thesis by (rule conjI)
qed

end
