(* ===== verification/Fleet_Authenticity.thy ===== *)
theory Fleet_Authenticity
  imports Fleet_Network
begin

text \<open>
  Where the messages of a vehicle come from.  The history of a network of vehicles and of whoever else
  is on the wire: applications send, threads of the handlers send, processes change their state as they
  like, foreign stations put anything on the wire.  What reaches an application was sent in its own
  vehicle or passed the MAC check of a gateway of the vehicle.
\<close>

section \<open>Histories\<close>

text \<open>What an application can tell of a frame: source address, ports and payload.\<close>

definition content :: "frame \<Rightarrow> mac \<times> u16 \<times> u16 \<times> bytes" where
  "content f = (shost (fr_header f), sport (fr_data f), dport (fr_data f), take (unat (payload_length f)) (packet_data (fr_data f)))"

text \<open>
  \<open>Sent\<close> is a call of \<^verbatim>\<open>Protocol::send\<close> by an application, \<open>Arrived\<close> a frame handed up by a socket, with
  the provider and the session key of the gateway at that time, \<open>Handed\<close> a frame read from the shared
  memory and what became of it.
\<close>

datatype 'o incident =
    Sent nat address address bytes
  | Arrived nat "provider option" u64 frame
  | Handed nat "'o action list" frame
  | Other

definition system_call :: "call \<Rightarrow> bool" where
  "system_call c = (case c of Send from to seg \<Rightarrow>
     1 \<le> length seg \<and> length seg \<le> PACKET_MTU \<and> seg ! 0 \<in> {msg_type_byte PTP, msg_type_byte GROUP} | _ \<Rightarrow> True)"

inductive history :: "(nat \<Rightarrow> nat) \<Rightarrow> 'o fleet \<Rightarrow> 'o incident list \<Rightarrow> bool" for vehicle where
  start: "flight s = {#} \<Longrightarrow> \<forall>i. sane_nic (process s i) \<Longrightarrow> history vehicle s []"
| application: "\<lbrakk>history vehicle s h; protocol_send (process s i) from to mem n = Some (acts, err);
     spreads vehicle s i (process s i) acts new\<rbrakk>
   \<Longrightarrow> history vehicle (s\<lparr>flight := flight s + new\<rparr>) (Sent i from to (take (unat n) mem) # h)"
| handler_thread: "\<lbrakk>history vehicle s h; run_calls cs (process s i) = Some (p', acts, err); \<forall>c \<in> set cs. system_call c;
     spreads vehicle s i p' acts new\<rbrakk>
   \<Longrightarrow> history vehicle (s\<lparr>process := (process s)(i := p'), flight := flight s + new\<rparr>) (Other # h)"
| change: "history vehicle s h \<Longrightarrow> sane_nic p' \<Longrightarrow> history vehicle (s\<lparr>process := (process s)(i := p')\<rparr>) (Other # h)"
| foreign: "history vehicle s h \<Longrightarrow> history vehicle (s\<lparr>flight := flight s + {#On_wire i raw#}\<rparr>) (Other # h)"
| lost: "history vehicle s h \<Longrightarrow> history vehicle (s\<lparr>flight := flight s - {#it#}\<rparr>) (Other # h)"
| shared_memory: "\<lbrakk>history vehicle s h; In_shm i f \<in># flight s; update_local f (process s i) = Some (acts, err);
     spreads vehicle s i (process s i) acts new\<rbrakk>
   \<Longrightarrow> history vehicle (s\<lparr>flight := flight s - {#In_shm i f#} + new\<rparr>) (Handed i acts f # h)"
| socket: "\<lbrakk>history vehicle s h; On_wire i raw \<in># flight s; external_nic (process s i) = Some x; legal_turn (x, e, stale, raw);
     handle_frame x stale raw = Rx_notify prot f; update_external e x f (process s i) = Some (p', acts, err);
     spreads vehicle s i p' acts new\<rbrakk>
   \<Longrightarrow> history vehicle (s\<lparr>process := (process s)(i := p'), flight := flight s - {#On_wire i raw#} + new\<rparr>)
         (Arrived i (crypto (process s i)) (session_key (local_block (process s i))) f # h)"

section \<open>Authentic messages\<close>

text \<open>The MAC at the end of the packet is the one the provider makes of the rest under the key.\<close>

definition mac_valid :: "provider option \<Rightarrow> u64 \<Rightarrow> frame \<Rightarrow> bool" where
  "mac_valid c k f = (let n = unat (data_length f) - MAC_SIZE
     in service_generate_mac c (fr_data f) n k = Inr (le_word (read_at n 8 (fr_data f))))"

definition authentic :: "(nat \<Rightarrow> nat) \<Rightarrow> 'o incident list \<Rightarrow> nat \<Rightarrow> frame \<Rightarrow> bool" where
  "authentic vehicle h i f \<longleftrightarrow>
     (\<exists>j from to pl. Sent j from to pl \<in> set h \<and> vehicle j = vehicle i \<and> content f = (paddr from, port from, port to, pl)) \<or>
     (\<exists>j c k g. Arrived j c k g \<in> set h \<and> vehicle j = vehicle i \<and> mac_valid c k g \<and> content f = content g)"

definition system_frame :: "frame \<Rightarrow> bool" where
  "system_frame f \<longleftrightarrow> fr_data f ! 5 \<in> {msg_type_byte PTP, msg_type_byte GROUP}"

lemma authentic_mono: "authentic vehicle h i f \<Longrightarrow> set h \<subseteq> set h' \<Longrightarrow> authentic vehicle h' i f"
  unfolding authentic_def by blast

lemma held_content:
  fixes m :: u64
  assumes "frame_holds (frame_args from to (packet_header loc (port from) (port to) @ pl @ le_bytes 8 m)) f" "length pl \<le> PACKET_MTU"
  shows "content f = (paddr from, port from, port to, pl)" "pl \<noteq> [] \<Longrightarrow> fr_data f ! 5 = pl ! 0"
proof -
  let ?d = "packet_header loc (port from) (port to) @ pl @ le_bytes 8 m"
  have f: "take (length ?d) (fr_data f) = ?d" "data_length f = of_nat (length ?d)" "shost (fr_header f) = paddr from"
    using assms(1) by (simp_all add: frame_holds_def frame_args_def)
  then obtain rest where r: "fr_data f = ?d @ rest" by (metis append_take_drop_id)
  have "payload_length f = of_nat (length pl)" by (simp add: payload_length_def f(2) wire_simps)
  then have "unat (payload_length f) = length pl" using assms(2) by (simp add: unat_small_u32 PACKET_MTU_def wire_simps)
  then show "content f = (paddr from, port from, port to, pl)" by (simp add: content_def f(3) r)
  show "pl \<noteq> [] \<Longrightarrow> fr_data f ! 5 = pl ! 0" by (simp add: r nth_append)
qed

lemma sent_content:
  assumes "protocol_send p from to mem n = Some (acts, err)" "Local_send a \<in> set acts" "frame_holds a f"
  shows "content f = (paddr from, port from, port to, take (unat n) mem)"
    "0 < unat n \<Longrightarrow> 0 < length mem \<Longrightarrow> fr_data f ! 5 = mem ! 0"
proof -
  from assms(1,2) obtain loc and m :: u64 where a: "a = frame_args from to (packet_header loc (port from) (port to) @ take (unat n) mem @ le_bytes 8 m)"
    "unat n \<le> PACKET_MTU"
    by (rule protocol_send_emits) auto
  note H = held_content [OF assms(3) [unfolded a(1)]]
  show "content f = (paddr from, port from, port to, take (unat n) mem)" using H(1) a(2) by simp
  show "0 < unat n \<Longrightarrow> 0 < length mem \<Longrightarrow> fr_data f ! 5 = mem ! 0" using H(2) a(2) by simp
qed

lemma run_calls_system:
  "run_calls cs p = Some (p', acts, err) \<Longrightarrow> \<forall>c \<in> set cs. system_call c \<Longrightarrow> Local_send a \<in> set acts \<Longrightarrow> frame_holds a f \<Longrightarrow>
   system_frame f"
proof (induction cs arbitrary: p p' acts err)
  case (Cons c cs)
  from Cons.prems(1) obtain p1 acts1 err1 where one: "run_call c p = Some (p1, acts1, err1)"
    by (auto split: option.splits)
  have first: "system_frame f" if "Local_send a \<in> set acts1"
  proof (cases c)
    case (Send "from" to seg)
    then have len: "1 \<le> length seg" "length seg < 4294967296" "seg ! 0 \<in> {msg_type_byte PTP, msg_type_byte GROUP}"
      using Cons.prems(2) by (auto simp: system_call_def PACKET_MTU_def wire_simps)
    have "protocol_send p from to seg (of_nat (length seg)) = Some (acts1, err1)"
      using one Send by (auto simp: run_call_def)
    moreover have "seg \<noteq> []" using len(1) by auto
    ultimately have "fr_data f ! 5 = seg ! 0" using sent_content(2) [OF _ that Cons.prems(4)] len(2) by (simp add: unat_small_u32)
    then show ?thesis using len(3) by (simp add: system_frame_def)
  qed (use one that in \<open>auto simp: run_call_def\<close>)
  show ?case
  proof (cases err1)
    case None
    then obtain acts2 where "run_calls cs p1 = Some (p', acts2, err)" "acts = acts1 @ acts2"
      using Cons.prems(1) one by (auto split: option.splits)
    then show ?thesis using Cons.IH [of p1 p' acts2 err] Cons.prems(2-4) first by auto
  next
    case (Some e)
    then show ?thesis using Cons.prems(1,3) one first by auto
  qed
qed simp

lemma handler_calls_system:
  "slave_handle now now' ok pl n from to s = (s', cs, err) \<Longrightarrow> c \<in> set cs \<Longrightarrow> system_call c"
  "master_handle me now pl n from to = (u, cs, err) \<Longrightarrow> c \<in> set cs \<Longrightarrow> system_call c"
  "leader_handle t ns me pl n from l = (l', cs, err) \<Longrightarrow> c \<in> set cs \<Longrightarrow> system_call c"
  "c \<in> set (member_handle pl n from) \<Longrightarrow> system_call c"
  by (auto simp: slave_handle_def receive_sync_def send_delay_req_def receive_delay_resp_def synchronize_def
      master_handle_def master_receive_start_def master_receive_delay_req_def leader_handle_def send_key_def
      member_handle_def Let_def system_call_def ptp_packet_nth group_segment_nth length_replies PACKET_MTU_def wire_simps
      split: if_splits option.splits sync_type.splits)

lemma finish_handler_system:
  assumes "finish_handler cs err p = Some (p', acts, err')" "\<And>c. c \<in> set cs \<Longrightarrow> system_call c"
    and "Local_send a \<in> set acts" "frame_holds a f"
  shows "system_frame f"
proof -
  obtain e where "run_calls cs p = Some (p', acts, e)" using assms(1) by (auto simp: finish_handler_def split: option.splits)
  from run_calls_system [OF this _ assms(3,4)] assms(2) show ?thesis by blast
qed

lemma filter_system_locals:
  assumes "filter_system_messages e x f from to p = Some (p', (acts, err), b)"
  shows "b \<or> p' = p \<and> acts = [] \<and> err = None"
    "Local_send a \<in> set acts \<Longrightarrow> frame_holds a g \<Longrightarrow> system_frame g"
proof -
  show "b \<or> p' = p \<and> acts = [] \<and> err = None"
    using assms by (auto simp: filter_system_messages_def Let_def split: if_splits option.splits msg_type.splits)
  have ptp: "system_frame g" if "handle_ptp_message e x pl n from to p = Some (p', acts, err)" "Local_send a \<in> set acts" "frame_holds a g" for pl n
    using that(1) finish_handler_system [OF _ _ that(2,3)] handler_calls_system(1,2)
    by (simp add: handle_ptp_message_def split: synchronizer.splits prod.splits)
  have group: "system_frame g" if "handle_group_message e x pl n from p = Some (p', acts, err)" "Local_send a \<in> set acts" "frame_holds a g" for pl n
    using that(1) finish_handler_system [OF _ _ that(2,3)] handler_calls_system(3,4)
    by (simp add: handle_group_message_def split: group_handler.splits prod.splits)
  show "Local_send a \<in> set acts \<Longrightarrow> frame_holds a g \<Longrightarrow> system_frame g"
    using assms ptp group by (auto simp: filter_system_messages_def Let_def split: if_splits option.splits msg_type.splits)
qed

lemma forward_inside_content:
  assumes "forward_inside f \<lparr>paddr = shost (fr_header f), port = sport (fr_data f)\<rparr> p = Some (acts, err)"
    and "Local_send a \<in> set acts" "frame_holds a g"
  shows "mac_valid (crypto p) (session_key (local_block p)) f \<and> content g = content f"
proof -
  let ?from = "\<lparr>paddr = shost (fr_header f), port = sport (fr_data f)\<rparr>"
  let ?to = "\<lparr>paddr = LOCAL_ADDR, port = dport (fr_data f)\<rparr>"
  obtain as er where s: "protocol_send p ?from ?to (packet_data (fr_data f)) (payload_length f) = Some (as, er)"
      "Local_send a \<in> set as" and mac: "mac_valid (crypto p) (session_key (local_block p)) f"
    using assms(1,2)
    by (auto simp: forward_inside_def mac_valid_def Let_def split: if_splits sum.splits option.splits)
  from sent_content(1) [OF s assms(3)] mac show ?thesis by (simp add: content_def)
qed

lemma update_external_locals:
  assumes "update_external e x f p = Some (p', acts, err)" "Local_send a \<in> set acts" "frame_holds a g"
  shows "system_frame g \<or> mac_valid (crypto p) (session_key (local_block p)) f \<and> content g = content f"
proof -
  let ?from = "\<lparr>paddr = shost (fr_header f), port = sport (fr_data f)\<rparr>"
  let ?to = "\<lparr>paddr = dhost (fr_header f), port = dport (fr_data f)\<rparr>"
  let ?p1 = "p\<lparr>local_block := register_nearby_entity (shost (fr_header f)) (local_block p)\<rparr>"
  show ?thesis
  proof (cases "unat (data_length f) < PACKET_HEADER_SIZE + MAC_SIZE")
    case True
    then show ?thesis using assms(1,2) by (auto simp: update_external_def Let_def)
  next
    case False
    then obtain p2 acts1 err1 b where flt: "filter_system_messages e x f ?from ?to ?p1 = Some (p2, (acts1, err1), b)"
      using assms(1) by (auto simp: update_external_def Let_def split: option.splits)
    note F = filter_system_locals [OF flt]
    show ?thesis
    proof (cases "b \<or> err1 \<noteq> None")
      case True
      then have "Local_send a \<in> set acts1" using assms(1,2) False flt
        by (cases err1; cases b) (auto simp: update_external_def Let_def)
      then show ?thesis using F(2) [OF _ assms(3)] by blast
    next
      case no: False
      then have "forward_inside f ?from ?p1 = Some (acts, err)" using F(1) assms(1) False flt
        by (auto simp: update_external_def Let_def)
      from forward_inside_content [OF this assms(2,3)] show ?thesis by simp
    qed
  qed
qed

lemma update_local_inside:
  assumes "update_local f p = Some (acts, err)"
  shows "Queue ob g \<in> set acts \<Longrightarrow> g = f" "Local_send a \<in> set acts \<Longrightarrow> frame_holds a g \<Longrightarrow> sane_nic p \<Longrightarrow> False"
proof -
  have no: False if "protocol_send p from to m n = Some (as, er)" "Queue ob g \<in> set as" for "from" to m n as er
    using that by (rule protocol_send_emits) auto
  have inside: "g = f" if "Queue ob g \<in> set (notify_communicator p pt f)" for pt using notify_inside [OF that] by simp
  show "Queue ob g \<in> set acts \<Longrightarrow> g = f"
    using assms by (auto simp: update_local_def Let_def split: if_splits option.splits) (erule (1) no [THEN FalseE] | erule inside)+
  show "Local_send a \<in> set acts \<Longrightarrow> frame_holds a g \<Longrightarrow> sane_nic p \<Longrightarrow> False"
    using update_local_below [OF assms] by blast
qed

lemma run_calls_nic: "run_calls cs p = Some (p', acts, err) \<Longrightarrow> external_nic p' = external_nic p"
proof (induction cs arbitrary: p p' acts err)
  case (Cons c cs)
  from Cons.prems(1) obtain p1 acts1 err1 where one: "run_call c p = Some (p1, acts1, err1)"
    by (auto split: option.splits)
  then have "external_nic p1 = external_nic p" by (cases c) (auto simp: run_call_def)
  then show ?case using Cons.prems one by (cases err1) (auto split: option.splits dest: Cons.IH)
qed simp

lemma history_sane: "history vehicle s h \<Longrightarrow> sane_nic (process s k)"
proof (induction arbitrary: k rule: history.induct)
  case (handler_thread s h cs i p' acts err new)
  then show ?case using run_calls_nic [OF handler_thread(2)] by (simp add: sane_nic_def)
next
  case (socket s h i raw x e stale prot f p' acts err new)
  have "f = received_frame stale raw" using socket(5) by (auto simp: handle_frame_def Let_def split: if_splits)
  then have "length (fr_data f) = ETH_MTU" using received_frame_shape(1) [of stale raw] socket(4) by (simp add: legal_turn_def)
  then have "external_nic p' = external_nic (process s i)"
    using update_external_below [OF socket(6)] socket(3) socket.IH by simp
  then show ?case using socket.IH by (simp add: sane_nic_def)
qed simp_all

definition accounted :: "(nat \<Rightarrow> nat) \<Rightarrow> 'o fleet \<Rightarrow> 'o incident list \<Rightarrow> bool" where
  "accounted vehicle s h \<longleftrightarrow> (\<forall>i f. In_shm i f \<in># flight s \<longrightarrow> authentic vehicle h i f \<or> system_frame f)"

lemma accountedI:
  assumes "accounted vehicle s h" "spreads vehicle s i p acts new" "set h \<subseteq> set h'" "flight s' \<subseteq># flight s + new"
    and "\<And>a f j. Local_send a \<in> set acts \<Longrightarrow> frame_holds a f \<Longrightarrow> vehicle j = vehicle i \<Longrightarrow> authentic vehicle h' j f \<or> system_frame f"
  shows "accounted vehicle s' h'"
  unfolding accounted_def
proof (intro allI impI)
  fix j f assume "In_shm j f \<in># flight s'"
  then have "In_shm j f \<in># flight s + new" by (rule mset_subset_eqD [OF assms(4)])
  then consider "In_shm j f \<in># flight s" | "In_shm j f \<in># new" by auto
  then show "authentic vehicle h' j f \<or> system_frame f"
  proof cases
    case 1
    then show ?thesis using assms(1) authentic_mono [OF _ assms(3), of vehicle j f] unfolding accounted_def by blast
  next
    case 2
    then obtain act where act: "act \<in> set acts" "reaches vehicle s i p act (In_shm j f)" using assms(2) unfolding spreads_def by blast
    from act(2) obtain a where "act = Local_send a" "frame_holds a f" "vehicle j = vehicle i"
      by (simp add: reaches_def split: action.splits)
    with act(1) have "Local_send a \<in> set acts" "frame_holds a f" "vehicle j = vehicle i" by auto
    then show ?thesis by (rule assms(5))
  qed
qed

lemma history_accounted: "history vehicle s h \<Longrightarrow> accounted vehicle s h"
proof (induction rule: history.induct)
  case (start s)
  then show ?case by (simp add: accounted_def)
next
  case (application s h i "from" to mem n acts err new)
  have "authentic vehicle (Sent i from to (take (unat n) mem) # h) j f"
    if "Local_send a \<in> set acts" "frame_holds a f" "vehicle j = vehicle i" for a f j
    using sent_content(1) [OF application(2) that(1,2)] that(3) unfolding authentic_def by fastforce
  then show ?case by (intro accountedI [OF application.IH application(3)]) auto
next
  case (handler_thread s h cs i p' acts err new)
  then show ?case using run_calls_system [OF handler_thread(2,3)]
    by (intro accountedI [OF handler_thread.IH handler_thread(4)]) auto
next
  case (shared_memory s h i f acts err new)
  show ?case using update_local_inside(2) [OF shared_memory(3)] history_sane [OF shared_memory(1)]
    by (intro accountedI [OF shared_memory.IH shared_memory(4)]) auto
next
  case (socket s h i raw x e stale prot f p' acts err new)
  let ?h = "Arrived i (crypto (process s i)) (session_key (local_block (process s i))) f # h"
  have "authentic vehicle ?h j g \<or> system_frame g" if "Local_send a \<in> set acts" "frame_holds a g" "vehicle j = vehicle i" for a g j
    using update_external_locals [OF socket(6) that(1,2)] that(3) unfolding authentic_def by fastforce
  then show ?case by (intro accountedI [OF socket.IH socket(7)]) auto
qed (auto simp: accounted_def authentic_def dest!: in_diffD)

text \<open>
  C3. What an application reads is authentic.  In any history of a network of vehicles, in which
  anybody puts anything on the wire, any frame handed to a communicator that is no system message was,
  with the same source address, ports and payload, earlier either passed to \<^verbatim>\<open>Protocol::send\<close> by an
  application of the same vehicle, or received by a gateway of the same vehicle with a MAC that the
  provider of this gateway makes of it under the session key it had then.
\<close>

theorem received_messages_authentic:
  assumes "history vehicle s (Handed i acts f # h)" "Queue ob g \<in> set acts" "\<not> system_frame g"
  shows "(\<exists>j from to pl. Sent j from to pl \<in> set h \<and> vehicle j = vehicle i \<and> content g = (paddr from, port from, port to, pl)) \<or>
    (\<exists>j c k g'. Arrived j c k g' \<in> set h \<and> vehicle j = vehicle i \<and> mac_valid c k g' \<and> content g = content g')"
  using assms(1)
proof cases
  case (shared_memory s0 err new)
  have "g = f" using update_local_inside(1) [OF shared_memory(4) assms(2)] .
  then show ?thesis using history_accounted [OF shared_memory(2)] shared_memory(3) assms(3)
    unfolding accounted_def authentic_def by blast
qed

text \<open>
  The exception for system messages is real: nothing keeps the source address of a network frame from
  being the address that stands for the own machine.  A master that is asked to start an exchange from
  there answers into its own shared memory, to the port the sender of the frame chose.
\<close>

theorem local_source_reflected:
  assumes "synchronizer p = Master" "crypto p = Some XorCryptoProvider" "external_nic p = Some x"
    and "dhost (fr_header f) = BROADCAST_ADDR" "shost (fr_header f) = LOCAL_ADDR" "length (fr_data f) = ETH_MTU"
    and "31 \<le> unat (data_length f)" "fr_data f ! 5 = msg_type_byte PTP" "fr_data f ! 14 = sync_type_byte START"
  shows "\<exists>p'. update_external e x f p = Some (p', [Local_send (frame_args (external_address x)
      \<lparr>paddr = LOCAL_ADDR, port = sport (fr_data f)\<rparr> (packet (session_key (local_block p)) (location (local_block p)) 0
         (sport (fr_data f)) (ptp_packet (now_ms e) SYNC (le_bytes 8 (now_ms e))))), Free_external], None)"
proof -
  let ?from = "\<lparr>paddr = shost (fr_header f), port = sport (fr_data f)\<rparr>"
  let ?to = "\<lparr>paddr = dhost (fr_header f), port = dport (fr_data f)\<rparr>"
  let ?p1 = "p\<lparr>local_block := register_nearby_entity (shost (fr_header f)) (local_block p)\<rparr>"
  let ?seg = "ptp_packet (now_ms e) SYNC (le_bytes 8 (now_ms e))"
  let ?pl = "drop SEG_HEADER_SIZE (packet_data (fr_data f))"
  let ?n = "unat (ucast (data_length f) - of_nat PACKET_HEADER_SIZE - of_nat MAC_SIZE - of_nat SEG_HEADER_SIZE :: u64)"
  have "?n = unat (data_length f) - 22" using system_payload_size [OF assms(7)] by (simp add: wire_simps)
  then have n: "\<not> ?n < TIME_HEADER_SIZE" using assms(7) by (simp add: wire_simps)
  have hd: "?pl ! 0 = sync_type_byte START" "msg_type_of (seg_type (read_seg_header (packet_data (fr_data f)))) = Some PTP"
    using assms(6,8,9) by (simp_all add: packet_data_def read_seg_header_def wire_simps msg_type_of_def)
  have m: "master_handle (external_address x) (now_ms e) ?pl ?n ?from ?to = ((), [Send (external_address x) ?from ?seg], None)"
    using n unfolding master_handle_def hd(1) by (simp add: master_receive_start_def sync_type_of_def)
  have "length ?seg \<le> PACKET_MTU" by (simp add: length_replies PACKET_MTU_def wire_simps)
  from protocol_send_built [of ?p1, OF _ this, of "external_address x" ?from]
  have "protocol_send ?p1 (external_address x) ?from ?seg (of_nat (length ?seg)) =
      Some ([Local_send (frame_args (external_address x) ?from (packet (session_key (local_block p)) (location (local_block p)) 0
        (sport (fr_data f)) ?seg))], None)"
    using assms(2,3,5) by (simp add: external_address_def)
  then have "handle_ptp_message e x ?pl ?n ?from ?to ?p1 = Some (?p1, [Local_send (frame_args (external_address x) ?from
      (packet (session_key (local_block p)) (location (local_block p)) 0 (sport (fr_data f)) ?seg))], None)"
    using assms(1) m by (simp add: handle_ptp_message_def finish_handler_def run_call_def)
  then show ?thesis using assms(4,5,7) hd(2)
    by (simp add: update_external_def filter_system_messages_def Let_def) (simp add: wire_simps)
qed

definition spoofed_start_frame :: frame where
  "spoofed_start_frame = (sample_frame ([1, 7, 0, 0, 0] @ ptp_packet 0 START (replicate 8 0) @ replicate 8 0))
     \<lparr>fr_header := \<lparr>dhost = BROADCAST_ADDR, shost = LOCAL_ADDR, eth_type = 0xB588\<rparr>\<rparr>"

text \<open>A component of the first vehicle sends to port 1000, on which the gateway has a communicator.\<close>

definition sample_message_args :: send_args where
  "sample_message_args = frame_args (local 7) (local 1000) (packet 99 (location (local_block sample_gateway)) 7 1000 sample_segment)"

definition sample_slot_frame :: frame where
  "sample_slot_frame = write_frame sample_message_args (sample_frame [])"

lemma sample_slot_frame_content:
  "dhost (fr_header sample_slot_frame) = LOCAL_ADDR" "dport (fr_data sample_slot_frame) = 1000"
  "fr_data sample_slot_frame ! 5 = msg_type_byte TEDS" "length (fr_data sample_slot_frame) = ETH_MTU"
  by (simp_all add: sample_slot_frame_def sample_message_args_def write_frame_def frame_args_def memcpy_at_def local_def
      packet_def sample_segment_eq sample_frame_def nth_append wire_simps)

theorem received_messages_authentic_witness:
  "\<exists>s h acts. history (\<lambda>i. i mod 2) (s :: nat fleet) (Handed 0 acts sample_slot_frame # h) \<and> Queue 1 sample_slot_frame \<in> set acts \<and>
     ((\<exists>j from to pl. Sent j from to pl \<in> set h \<and> j mod 2 = (0 :: nat) mod 2 \<and> content sample_slot_frame = (paddr from, port from, port to, pl)) \<or>
      (\<exists>j c k g'. Arrived j c k g' \<in> set h \<and> j mod 2 = (0 :: nat) mod 2 \<and> mac_valid c k g' \<and> content sample_slot_frame = content g'))"
proof -
  let ?v = "\<lambda>i. i mod 2 :: nat" and ?s = "sample_fleet\<lparr>flight := {#}\<rparr>" and ?f = sample_slot_frame
  have p: "process ?s 2 = init_component sample_gateway" "process sample_fleet 0 = sample_gateway" by (simp_all add: sample_fleet_def)
  have "history ?v ?s []" using sample_fleet_ok by (intro history.start) (auto simp: fleet_ok_def member_ok_def)
  moreover have len: "length sample_segment \<le> PACKET_MTU" by (simp add: sample_segment_eq PACKET_MTU_def wire_simps)
  have "protocol_send (process ?s 2) (local 7) (local 1000) sample_segment (of_nat (length sample_segment))
      = Some ([Local_send sample_message_args], None)"
    using protocol_send_built [of "init_component sample_gateway", OF _ len] unfolding p
    by (simp add: init_component_def sample_gateway_fields sample_message_args_def local_def)
  moreover have "spreads ?v ?s 2 (process ?s 2) [Local_send sample_message_args] {#In_shm 0 ?f#}"
    using sample_slot_frame_content(4) by (simp add: spreads_def reaches_def sample_slot_frame_def)
  ultimately have one: "history ?v (?s\<lparr>flight := {#} + {#In_shm 0 ?f#}\<rparr>)
      [Sent 2 (local 7) (local 1000) (take (unat (of_nat (length sample_segment) :: u32)) sample_segment)]"
    using history.application [of ?v ?s "[]" 2] by fastforce
  let ?s1 = "?s\<lparr>flight := {#} + {#In_shm 0 ?f#}\<rparr>"
  have "update_local ?f (process ?s1 0) = Some ([Queue 1 ?f], None)"
  proof -
    have "observed_ok (port_observed sample_gateway)" using sample_gateway_observers(1) by (simp add: observers_ok_def)
    from notify_or_free_targets [OF this] show ?thesis
      using sample_slot_frame_content(1,2) sample_gateway_observers(3)
      by (simp add: update_local_def Let_def notify_communicator_def TYPE_BASED_ROUTING_PORT_def p)
  qed
  from history.shared_memory [OF one _ this, of "{#}"]
  have two: "history ?v (?s1\<lparr>flight := flight ?s1 - {#In_shm 0 ?f#} + {#}\<rparr>) (Handed 0 [Queue 1 ?f] ?f #
      [Sent 2 (local 7) (local 1000) (take (unat (of_nat (length sample_segment) :: u32)) sample_segment)])"
    by (simp add: spreads_def)
  have user: "\<not> system_frame ?f" by (simp add: system_frame_def sample_slot_frame_content)
  have queued: "Queue 1 ?f \<in> set [Queue 1 ?f]" by simp
  show ?thesis by (intro exI conjI, rule two, rule queued, rule received_messages_authentic [OF two queued user])
qed

theorem local_source_reflected_witness:
  "\<exists>p' a. update_external sample_env sample_nic spoofed_start_frame (sample_gateway\<lparr>synchronizer := Master\<rparr>)
     = Some (p', [Local_send a, Free_external], None)"
proof -
  have "unat (data_length spoofed_start_frame) = 31" "fr_data spoofed_start_frame ! 5 = msg_type_byte PTP"
      "fr_data spoofed_start_frame ! 14 = sync_type_byte START" "length (fr_data spoofed_start_frame) = ETH_MTU"
    by code_simp+
  then show ?thesis
    using local_source_reflected [of "sample_gateway\<lparr>synchronizer := Master\<rparr>" sample_nic spoofed_start_frame sample_env]
    by (auto simp: sample_gateway_fields spoofed_start_frame_def)
qed

end
