(* ===== verification/Shm_Data_Path.thy ===== *)
theory Shm_Data_Path
  imports Shm_Ring
begin

text \<open>
  The data path of \<^verbatim>\<open>ShmEngine\<close> as uninterrupted executions of \<^verbatim>\<open>send\<close>, \<^verbatim>\<open>receive\<close>,
  \<^verbatim>\<open>receive_zerocopy\<close> and \<^verbatim>\<open>release_frame\<close>.  Failing system calls are parameters, and \<open>None\<close> is a
  call that never returns while no other process runs: a semaphore nobody signals, or the
  compare-and-exchange loop waiting for a publication nobody makes.
\<close>

section \<open>Sending\<close>

record send_os =
  acquire_ok :: bool
  release_ok :: bool
  wait_ok :: bool
  signal_ok :: bool

definition scan_client :: "shared_block \<Rightarrow> bool \<times> nat \<Rightarrow> nat \<Rightarrow> bool \<times> nat" where
  "scan_client b acc i = (if cl_active (client_registry b i)
     then (True, min (snd acc) (last_read_sequence_id (client_registry b i))) else acc)"

definition slowest_reader :: "nat \<Rightarrow> shared_block \<Rightarrow> bool \<times> nat" where
  "slowest_reader t b = foldl (scan_client b) (False, t) [0..<MAX_CLIENTS]"

definition may_write :: "nat \<Rightarrow> shared_block \<Rightarrow> bool" where
  "may_write t b \<longleftrightarrow> (case slowest_reader t b of (act, slow) \<Rightarrow> \<not> act \<or> t - slow < BUFFER_SLOTS)"

function send_wait :: "bool \<Rightarrow> nat \<Rightarrow> ipc \<Rightarrow> (ipc \<times> bool) option" where
  "send_wait ok t s =
     (if may_write t (blk s) then Some (s\<lparr>blk := (blk s)\<lparr>writer_is_blocked := False\<rparr>\<rparr>, True)
      else if \<not> ok then Some (s\<lparr>blk := (blk s)\<lparr>writer_is_blocked := False\<rparr>\<rparr>, False)
      else if sems s WRITER_WAIT_SEM = 0 then None
      else send_wait ok t (s\<lparr>blk := (blk s)\<lparr>writer_is_blocked := True\<rparr>,
             sems := (sems s)(WRITER_WAIT_SEM := sems s WRITER_WAIT_SEM - 1)\<rparr>))"
  by pat_completeness auto
termination by (relation "measure (\<lambda>(ok, t, s). sems s WRITER_WAIT_SEM)") auto

declare send_wait.simps [simp del]

definition active_clients_list :: "shared_block \<Rightarrow> nat list" where
  "active_clients_list b = filter (\<lambda>i. cl_active (client_registry b i)) [0..<MAX_CLIENTS]"

definition signal_clients :: "ipc \<Rightarrow> ipc" where
  "signal_clients s = s\<lparr>sems := (\<lambda>k. sems s k + count_list (map ((+) CONTROL_SEMS) (active_clients_list (blk s))) k)\<rparr>"

definition shm_send :: "send_os \<Rightarrow> send_args \<Rightarrow> ipc \<Rightarrow> (ipc \<times> int) option" where
  "shm_send os a s =
     (if \<not> acquire_ok os then Some (s, - 1)
      else if sems s CLAIM_SEM = 0 then None
      else
        let t = claim_sequence_id (blk s);
            s1 = s\<lparr>blk := (blk s)\<lparr>claim_sequence_id := t + 1\<rparr>\<rparr>
        in if \<not> release_ok os then Some (s1\<lparr>sems := (sems s)(CLAIM_SEM := sems s CLAIM_SEM - 1)\<rparr>, - 1)
           else case send_wait (wait_ok os) t s1 of
             None \<Rightarrow> None
           | Some (s2, False) \<Rightarrow> Some (s2, - 1)
           | Some (s2, True) \<Rightarrow>
               (let b = upd_slot t (\<lambda>m. m\<lparr>slot_frame := write_frame a (slot_frame m), sequence_id := t\<rparr>) (blk s2)
                in if publish_sequence_id b \<noteq> t - 1 then None
                   else let s3 = s2\<lparr>blk := b\<lparr>publish_sequence_id := t\<rparr>\<rparr>
                        in Some (if signal_ok os then signal_clients s3 else s3,
                             int ETH_HEADER_SIZE + int (length (sa_data a)))))"

section \<open>Receiving\<close>

datatype sem_result = Sem_ok | Sem_eintr | Sem_error

definition receive_zerocopy :: "sem_result \<Rightarrow> nat \<Rightarrow> nat \<Rightarrow> ipc \<Rightarrow> (ipc \<times> message_slot option) option" where
  "receive_zerocopy res c target s =
     (if res \<noteq> Sem_ok then Some (s, None)
      else if sems s (CONTROL_SEMS + c) = 0 then None
      else
        let s' = s\<lparr>sems := (sems s)(CONTROL_SEMS + c := sems s (CONTROL_SEMS + c) - 1)\<rparr>;
            m = buffer (blk s) (target mod BUFFER_SLOTS)
        in Some (s', if sequence_id m \<noteq> target then None else Some m))"

definition release_slowest :: "nat \<Rightarrow> shared_block \<Rightarrow> bool" where
  "release_slowest c b \<longleftrightarrow> writer_is_blocked b \<and>
     (let my = last_read_sequence_id (client_registry b c)
      in my \<le> foldl (\<lambda>slow i. if i \<noteq> c \<and> cl_active (client_registry b i)
            then min slow (last_read_sequence_id (client_registry b i)) else slow) (my + 1) [0..<MAX_CLIENTS])"

definition signal_writer :: "bool \<Rightarrow> ipc \<Rightarrow> ipc" where
  "signal_writer ok s = (if ok then s\<lparr>sems := (sems s)(WRITER_WAIT_SEM := sems s WRITER_WAIT_SEM + 1)\<rparr> else s)"

definition release_frame :: "bool \<Rightarrow> nat \<Rightarrow> nat \<Rightarrow> ipc \<Rightarrow> ipc" where
  "release_frame ok c q s =
     signal_writer (release_slowest c (blk s) \<and> ok)
       (s\<lparr>blk := set_client c (\<lambda>x. x\<lparr>last_read_sequence_id := q\<rparr>) (blk s)\<rparr>)"

text \<open>The copying receive; the bytes are the beginning of the frame struct as it lies in memory.\<close>

definition frame_image :: "frame \<Rightarrow> bytes" where
  "frame_image f = mac_bytes (dhost (fr_header f)) @ mac_bytes (shost (fr_header f)) @
     le_bytes 2 (eth_type (fr_header f)) @ fr_data f"

definition receive_slowest :: "nat \<Rightarrow> shared_block \<Rightarrow> bool" where
  "receive_slowest lr b \<longleftrightarrow> writer_is_blocked b \<and>
     lr = foldl (\<lambda>slow i. if cl_active (client_registry b i)
            then min slow (last_read_sequence_id (client_registry b i)) else slow) lr [0..<MAX_CLIENTS]"

definition shm_receive :: "sem_result \<Rightarrow> bool \<Rightarrow> nat \<Rightarrow> int \<Rightarrow> ipc \<Rightarrow> (ipc \<times> int \<times> bytes) option" where
  "shm_receive res ok c max_size s =
     (let lr = last_read_sequence_id (client_registry (blk s) c);
          target = lr + 1;
          slowest = receive_slowest lr (blk s)
      in case res of
        Sem_eintr \<Rightarrow> Some (s, 0, [])
      | Sem_error \<Rightarrow> Some (s, - 1, [])
      | Sem_ok \<Rightarrow>
          (if sems s (CONTROL_SEMS + c) = 0 then None
           else
             let s1 = s\<lparr>sems := (sems s)(CONTROL_SEMS + c := sems s (CONTROL_SEMS + c) - 1)\<rparr>;
                 m = buffer (blk s) (target mod BUFFER_SLOTS)
             in if sequence_id m \<noteq> target then Some (s1, - 1, [])
                else
                  let n = min (sint (of_nat ETH_HEADER_SIZE + data_length (slot_frame m))) max_size;
                      s2 = s1\<lparr>blk := set_client c (\<lambda>x. x\<lparr>last_read_sequence_id := target\<rparr>) (blk s1)\<rparr>
                  in Some (signal_writer (slowest \<and> ok) s2, n, take (nat n) (frame_image (slot_frame m)))))"

section \<open>An uninterrupted send is a run of the step relation\<close>

lemma ring_reach_trans:
  assumes "ring_reach N a b" "ring_reach N b c"
  shows "ring_reach N a c"
  using assms(2,1) by induction (auto intro: ring_reach.step)

lemma ring_reach_send: "send_step N w Tau r r' \<Longrightarrow> ring_reach N r r'"
  by (rule ring_reach.step [OF ring_reach.start]) (auto intro: ring_step.writer simp: disciplined_def)

lemma ring_reach_send_eq: "send_step N w Tau r r'' \<Longrightarrow> r'' = r' \<Longrightarrow> ring_reach N r r'"
  using ring_reach_send by simp

lemma ring_reach_client: "c < MAX_CLIENTS \<Longrightarrow> client_step c l r r' \<Longrightarrow> disciplined l r \<Longrightarrow> ring_reach N r r'"
  by (rule ring_reach.step [OF ring_reach.start]) (auto intro: ring_step.client)

lemma scan_run:
  assumes "wr r w = W_scan a t 0 t False" "i \<le> MAX_CLIENTS"
  shows "ring_reach N r (r\<lparr>wr := (wr r)(w := case foldl (scan_client (blk r)) (False, t) [0..<i] of
    (act, slow) \<Rightarrow> W_scan a t i slow act)\<rparr>)"
  using assms(2)
proof (induction i)
  case 0
  then show ?case using assms(1) ring_reach.start [of N r] by (simp add: fun_upd_idem)
next
  case (Suc i)
  obtain act slow where acc: "foldl (scan_client (blk r)) (False, t) [0..<i] = (act, slow)" by fastforce
  let ?r = "r\<lparr>wr := (wr r)(w := W_scan a t i slow act)\<rparr>"
  have "ring_reach N r ?r" using Suc.IH [OF Suc_leD [OF Suc.prems]] unfolding acc prod.case .
  moreover have "ring_reach N ?r (r\<lparr>wr := (wr r)(w := case foldl (scan_client (blk r)) (False, t) [0..<Suc i] of
      (act, slow) \<Rightarrow> W_scan a t (Suc i) slow act)\<rparr>)"
  proof (cases "active r i")
    case True
    let ?s = "?r\<lparr>wr := (wr ?r)(w := W_seen a t i slow)\<rparr>"
    have "send_step N w Tau ?r ?s" using send_step.scan_active [of ?r w a t i slow act N] Suc.prems True by simp
    moreover have "send_step N w Tau ?s (?s\<lparr>wr := (wr ?s)(w := W_scan a t (Suc i) (min slow (last_read ?s i)) True)\<rparr>)"
      by (rule send_step.scan_read) simp
    ultimately have "ring_reach N ?r (?s\<lparr>wr := (wr ?s)(w := W_scan a t (Suc i) (min slow (last_read ?s i)) True)\<rparr>)"
      by (blast intro: ring_reach_trans ring_reach_send)
    then show ?thesis using acc True by (simp add: scan_client_def)
  next
    case False
    then show ?thesis using send_step.scan_inactive [of ?r w a t i slow act N] Suc.prems acc
      by (intro ring_reach_send [of N w]) (auto simp: scan_client_def)
  qed
  ultimately show ?case by (rule ring_reach_trans)
qed

lemma wait_run:
  assumes "send_wait True t s = Some (s', b)" "blk r = blk s" "sems r = sems s" "wr r w = W_scan a t 0 t False"
  shows "b \<and> ring_reach N r (r\<lparr>blk := blk s', sems := sems s', wr := (wr r)(w := W_write a t)\<rparr>)"
  using assms
proof (induction True t s arbitrary: r rule: send_wait.induct)
  case (1 t s)
  obtain act slow where acc: "slowest_reader t (blk s) = (act, slow)" by fastforce
  let ?r = "r\<lparr>wr := (wr r)(w := W_scan a t MAX_CLIENTS slow act)\<rparr>"
  have scan: "ring_reach N r ?r" using scan_run [OF 1(5), of MAX_CLIENTS N] acc 1(3) by (simp add: slowest_reader_def)
  show ?case
  proof (cases "may_write t (blk s)")
    case True
    have "r\<lparr>blk := blk s', sems := sems s', wr := (wr r)(w := W_write a t)\<rparr> =
        ?r\<lparr>blk := (blk ?r)\<lparr>writer_is_blocked := False\<rparr>, wr := (wr ?r)(w := W_write a t)\<rparr>"
      using True 1(2-4) by (intro ring.equality) (auto simp: send_wait.simps [of True t s])
    moreover have "send_step N w Tau ?r (?r\<lparr>blk := (blk ?r)\<lparr>writer_is_blocked := False\<rparr>, wr := (wr ?r)(w := W_write a t)\<rparr>)"
      using True acc 1(3) by (intro send_step.scan_pass [of ?r w a t slow act N]) (auto simp: may_write_def)
    ultimately show ?thesis using ring_reach_trans [OF scan ring_reach_send] 1(2) True
      by (simp add: send_wait.simps [of True t s])
  next
    case False
    then have pos: "sems s WRITER_WAIT_SEM > 0" using 1(2) by (auto simp: send_wait.simps [of True t s] split: if_splits)
    let ?r1 = "?r\<lparr>blk := (blk r)\<lparr>writer_is_blocked := True\<rparr>, wr := (wr r)(w := W_blocked a t)\<rparr>"
    let ?r2 = "?r1\<lparr>sems := (sems r)(WRITER_WAIT_SEM := sems r WRITER_WAIT_SEM - 1),
      wr := (wr r)(w := W_scan a t 0 t False)\<rparr>"
    have "ring_reach N ?r ?r1" using send_step.scan_block [of ?r w a t slow act N] False acc 1(3)
      by (intro ring_reach_send [of N w]) (auto simp: may_write_def)
    moreover have "ring_reach N ?r1 ?r2" using send_step.wait_done [of ?r1 w a t N] pos 1(4)
      by (intro ring_reach_send [of N w]) auto
    ultimately have "ring_reach N r ?r2" using scan ring_reach_trans by blast
    moreover have "b \<and> ring_reach N ?r2 (?r2\<lparr>blk := blk s', sems := sems s', wr := (wr ?r2)(w := W_write a t)\<rparr>)"
      by (rule 1(1)) (use 1 False pos in \<open>auto simp: send_wait.simps [of True t s]\<close>)
    ultimately show ?thesis using ring_reach_trans by fastforce
  qed
qed

lemma collect_run:
  assumes "wr r w = W_collect t 0 []" "i \<le> MAX_CLIENTS"
  shows "ring_reach N r (r\<lparr>wr := (wr r)(w := W_collect t i (filter (active r) [0..<i]))\<rparr>)"
  using assms(2)
proof (induction i)
  case 0
  then show ?case using assms(1) ring_reach.start [of N r] by (simp add: fun_upd_idem)
next
  case (Suc i)
  let ?r = "r\<lparr>wr := (wr r)(w := W_collect t i (filter (active r) [0..<i]))\<rparr>"
  have "ring_reach N ?r (r\<lparr>wr := (wr r)(w := W_collect t (Suc i) (filter (active r) [0..<Suc i]))\<rparr>)"
    using send_step.collect [of ?r w t i "filter (active r) [0..<i]" N] Suc.prems
    by (intro ring_reach_send [of N w]) auto
  with Suc.IH [OF Suc_leD [OF Suc.prems]] show ?case by (rule ring_reach_trans)
qed

definition all_ok :: send_os where
  "all_ok = \<lparr>acquire_ok = True, release_ok = True, wait_ok = True, signal_ok = True\<rparr>"

lemma publish_run:
  assumes "wr r w = W_write a t" "publish r = t - 1"
    and b: "b = upd_slot t (\<lambda>m. m\<lparr>slot_frame := write_frame a (slot_frame m), sequence_id := t\<rparr>) (blk r)"
  shows "ring_reach N r (r\<lparr>blk := b\<lparr>publish_sequence_id := t\<rparr>,
    sems := (\<lambda>k. sems r k + count_list (map ((+) CONTROL_SEMS) (active_clients_list (blk r))) k),
    wr := (wr r)(w := W_idle)\<rparr>)"
proof -
  let ?r1 = "r\<lparr>blk := upd_slot t (\<lambda>m. m\<lparr>slot_frame := write_frame a (slot_frame m)\<rparr>) (blk r), wr := (wr r)(w := W_frame a t)\<rparr>"
  let ?r2 = "?r1\<lparr>blk := b, wr := (wr r)(w := W_seq a t)\<rparr>"
  let ?r3 = "?r2\<lparr>blk := b\<lparr>publish_sequence_id := t\<rparr>, wr := (wr r)(w := W_collect t 0 [])\<rparr>"
  let ?r4 = "?r3\<lparr>wr := (wr ?r3)(w := W_collect t MAX_CLIENTS (filter (active ?r3) [0..<MAX_CLIENTS]))\<rparr>"
  have "ring_reach N r ?r1" by (rule ring_reach_send, rule send_step.write_data) (rule assms)
  moreover have "ring_reach N ?r1 ?r2"
    by (rule ring_reach_send_eq [OF send_step.write_seq [of ?r1 w a t N]])
      (simp_all add: b upd_slot_def)
  moreover have "ring_reach N ?r2 ?r3" using send_step.publish_cas [of ?r2 w a t N] assms(2)
    by (intro ring_reach_send [of N w]) (simp add: b upd_slot_def)
  moreover have "ring_reach N ?r3 ?r4" by (rule collect_run) simp_all
  moreover have "ring_reach N ?r4 (r\<lparr>blk := b\<lparr>publish_sequence_id := t\<rparr>,
      sems := (\<lambda>k. sems r k + count_list (map ((+) CONTROL_SEMS) (active_clients_list (blk r))) k),
      wr := (wr r)(w := W_idle)\<rparr>)"
    using send_step.signal [of ?r4 w t "filter (active ?r3) [0..<MAX_CLIENTS]" N]
    by (intro ring_reach_send [of N w]) (simp add: b upd_slot_def active_clients_list_def)
  ultimately show ?thesis by (blast intro: ring_reach_trans)
qed

lemma shm_send_run:
  assumes "shm_send all_ok a (ipc.truncate r) = Some (s', n)" "w < N" "wr r w = W_idle"
  shows "ring_reach N r (r\<lparr>sent := (sent r)(claim r := a), blk := blk s', sems := sems s'\<rparr>) \<and>
    n = 14 + int (length (sa_data a))"
proof -
  let ?t = "claim r"
  let ?s1 = "(ipc.truncate r)\<lparr>blk := (blk r)\<lparr>claim_sequence_id := ?t + 1\<rparr>\<rparr>"
  let ?r1 = "r\<lparr>sems := (sems r)(CLAIM_SEM := sems r CLAIM_SEM - 1), wr := (wr r)(w := W_claiming a)\<rparr>"
  let ?r2 = "?r1\<lparr>wr := (wr r)(w := W_loaded a ?t)\<rparr>"
  let ?r3 = "?r2\<lparr>blk := (blk r)\<lparr>claim_sequence_id := ?t + 1\<rparr>, wr := (wr r)(w := W_stored a ?t), sent := (sent r)(?t := a)\<rparr>"
  let ?r4 = "r\<lparr>blk := blk ?s1, wr := (wr r)(w := W_scan a ?t 0 ?t False), sent := (sent r)(?t := a)\<rparr>"
  from assms(1) have pos: "sems r CLAIM_SEM > 0" by (auto simp: shm_send_def all_ok_def ipc.defs split: if_splits)
  obtain s2 ok where wait: "send_wait True ?t ?s1 = Some (s2, ok)"
    using assms(1) pos by (auto simp: shm_send_def all_ok_def ipc.defs Let_def split: option.splits)
  have "ring_reach N r ?r1" using send_step.claim_acquire [of w N r a] assms(2,3) pos
    by (intro ring_reach_send [of N w])
  moreover have "ring_reach N ?r1 ?r2" using send_step.claim_load [of ?r1 w a N]
    by (intro ring_reach_send [of N w]) simp
  moreover have "ring_reach N ?r2 ?r3" using send_step.claim_store [of ?r2 w a ?t N]
    by (intro ring_reach_send [of N w]) simp
  moreover have "ring_reach N ?r3 ?r4"
    by (rule ring_reach_send_eq [OF send_step.claim_release [of ?r3 w a ?t N]])
      (use pos in \<open>auto intro!: ring.equality\<close>)
  moreover have run: "ok \<and> ring_reach N ?r4 (?r4\<lparr>blk := blk s2, sems := sems s2, wr := (wr ?r4)(w := W_write a ?t)\<rparr>)"
    by (rule wait_run [OF wait]) (simp_all add: ipc.defs)
  ultimately have "ring_reach N r (?r4\<lparr>blk := blk s2, sems := sems s2, wr := (wr ?r4)(w := W_write a ?t)\<rparr>)"
    by (blast intro: ring_reach_trans)
  note this [THEN ring_reach_trans, OF publish_run [OF _ _ refl, of _ w a ?t]]
  then show ?thesis using assms(1,3) pos wait run
    by (auto simp: shm_send_def all_ok_def ipc.defs Let_def signal_clients_def upd_slot_def active_clients_list_def
        ETH_HEADER_SIZE_def fun_upd_idem split: if_splits)
qed

text \<open>Before the ring wraps the reader check always passes.\<close>

lemma may_write_early: "t < BUFFER_SLOTS \<Longrightarrow> may_write t b"
  by (auto simp: may_write_def split: prod.splits)

lemma shm_send_early:
  assumes "sems s CLAIM_SEM > 0" "claim_sequence_id (blk s) < BUFFER_SLOTS"
    and "publish_sequence_id (blk s) = claim_sequence_id (blk s) - 1"
  shows "shm_send all_ok a s = Some (signal_clients (s\<lparr>blk := (upd_slot (claim_sequence_id (blk s))
      (\<lambda>m. m\<lparr>slot_frame := write_frame a (slot_frame m), sequence_id := claim_sequence_id (blk s)\<rparr>)
      ((blk s)\<lparr>claim_sequence_id := claim_sequence_id (blk s) + 1, writer_is_blocked := False\<rparr>))
        \<lparr>publish_sequence_id := claim_sequence_id (blk s)\<rparr>\<rparr>), 14 + int (length (sa_data a)))"
  using assms may_write_early [OF assms(2)]
  by (simp add: shm_send_def all_ok_def Let_def send_wait.simps upd_slot_def ETH_HEADER_SIZE_def)

text \<open>
  A \<^verbatim>\<open>send\<close> that runs to completion on its own is one interleaving of the step relation: from an
  idle writer it reaches exactly the shared state the sequential function computes, with the ticket
  recorded as carrying its arguments, and it returns the header size plus the payload size.
\<close>

theorem shm_send_is_a_run:
  assumes "shm_send all_ok a (ipc.truncate r) = Some (s', n)" "w < N" "wr r w = W_idle"
  shows "ring_reach N r (r\<lparr>sent := (sent r)(claim r := a), blk := blk s', sems := sems s'\<rparr>) \<and>
    n = 14 + int (length (sa_data a))"
  using assms by (rule shm_send_run)

end
