(* ===== verification/Nic_Engines.thy ===== *)
theory Nic_Engines
  imports Nic_Model Shm_Data_Path Observer_Subjects
begin

text \<open>
  How the network interface drives its engine: the constructors of both engines, the calls \<^verbatim>\<open>NIC\<close>
  passes on to the shared-memory engine or drops on the raw one, sending and freeing a buffer, and the
  receiver thread that turns slots of the shared memory into views.
\<close>

section \<open>Constructing a RawSocketEngine\<close>

text \<open>What the system calls of the constructor return, in their order.\<close>

record raw_os =
  os_socket :: bool
  os_setown :: bool
  os_getfl :: bool
  os_setfl :: bool
  os_ifindex :: "nat option"
  os_hwaddr :: "mac option"
  os_bind :: bool
  os_strerror :: string

datatype fd = Fd_none | Fd_open | Fd_closed

text \<open>The descriptor afterwards, and the engine or the exception; the link-layer address is not set.\<close>

definition raw_new :: "mac \<Rightarrow> raw_os \<Rightarrow> fd \<times> raw_engine result" where
  "raw_new junk os =
     (if \<not> os_socket os then (Fd_none, Inl (Runtime_error ''Failed to create raw socket''))
      else if \<not> os_setown os then (Fd_closed, Inl (Runtime_error ''Failed to set socket owner (F_SETOWN)''))
      else if \<not> os_getfl os then (Fd_closed, Inl (Runtime_error ''Failed to get socket flags (F_GETFL)''))
      else if \<not> os_setfl os then (Fd_closed, Inl (Runtime_error ''Failed to set non-blocking/async flags (F_SETFL)''))
      else case os_ifindex os of
          None \<Rightarrow> (Fd_closed, Inl (Runtime_error (''Failed to get interface index for eth0: '' @ os_strerror os)))
        | Some i \<Rightarrow> (case os_hwaddr os of
            None \<Rightarrow> (Fd_closed, Inl (Runtime_error (''Failed to get MAC address for eth0: '' @ os_strerror os)))
          | Some hw \<Rightarrow>
              (if \<not> os_bind os then (Fd_closed, Inl (Runtime_error ''Failed to bind raw socket to interface eth0''))
               else (Fd_open, Inr \<lparr>my_mac = hw, sll_addr = junk\<rparr>))))"

definition raw_delete :: "fd \<Rightarrow> fd" where
  "raw_delete d = (if d \<noteq> Fd_none then Fd_closed else d)"

lemma raw_new_outcome:
  "case raw_new junk os of
     (d, Inl e) \<Rightarrow> d \<noteq> Fd_open \<and> (d = Fd_none \<longleftrightarrow> \<not> os_socket os)
   | (d, Inr e) \<Rightarrow> d = Fd_open \<and> os_hwaddr os = Some (my_mac e) \<and> os_setfl os \<and> os_bind os \<and> raw_delete d = Fd_closed"
  by (auto simp: raw_new_def raw_delete_def split: option.splits)

section \<open>Constructing a ShmEngine\<close>

text \<open>
  The identifiers come from the environment, \<open>None\<close> where a variable is missing: \<^verbatim>\<open>atoi\<close> of a null
  pointer is undefined.
\<close>

definition shm_new :: "int option \<Rightarrow> int option \<Rightarrow> bool \<Rightarrow> bool \<Rightarrow> bool \<Rightarrow> nat \<Rightarrow> ipc \<Rightarrow> (ipc \<times> nat result) option" where
  "shm_new shared_id sem_id attach_ok lock_ok unlock_ok pid s =
     (if shared_id = None \<or> sem_id = None then None
      else if \<not> attach_ok then Some (cleanupAndThrow s ''Failed to attach shared memory segment'')
      else Some (register_client lock_ok unlock_ok pid s))"

section \<open>What the interface passes on\<close>

text \<open>The state behind an interface: the shared block, or the raw engine with the quadrant.\<close>

datatype nic = Shm_nic shared_block | Raw_nic ext_nic

definition nic_own_address :: "nic \<Rightarrow> mac" where
  "nic_own_address n = (case n of Shm_nic b \<Rightarrow> LOCAL_ADDR | Raw_nic x \<Rightarrow> nic_address x)"

definition nic_set_session_key :: "u64 \<Rightarrow> nic \<Rightarrow> nic" where
  "nic_set_session_key k n = (case n of Shm_nic b \<Rightarrow> Shm_nic (set_session_key k b) | Raw_nic x \<Rightarrow> Raw_nic x)"

definition nic_get_session_key :: "nic \<Rightarrow> u64 result" where
  "nic_get_session_key n = (case n of Shm_nic b \<Rightarrow> Inr (get_session_key b)
     | Raw_nic x \<Rightarrow> Inl (Runtime_error ''Session key should be located at NIC<ShmEngine''))"

definition nic_register_nearby :: "mac \<Rightarrow> nic \<Rightarrow> nic" where
  "nic_register_nearby a n = (case n of Shm_nic b \<Rightarrow> Shm_nic (register_nearby_entity a b) | Raw_nic x \<Rightarrow> Raw_nic x)"

definition nic_reset_nearby :: "nic \<Rightarrow> nic" where
  "nic_reset_nearby n = (case n of Shm_nic b \<Rightarrow> Shm_nic (reset_entities_nearby b) | Raw_nic x \<Rightarrow> Raw_nic x)"

definition nic_is_nearby :: "mac \<Rightarrow> nic \<Rightarrow> bool" where
  "nic_is_nearby a n = (case n of Shm_nic b \<Rightarrow> is_entity_nearby a b | Raw_nic x \<Rightarrow> False)"

text \<open>The list the caller passes in is replaced by the shared one, or left alone.\<close>

definition nic_entities_nearby :: "nic \<Rightarrow> mac list \<Rightarrow> mac list" where
  "nic_entities_nearby n out = (case n of Shm_nic b \<Rightarrow> get_entities_nearby b | Raw_nic x \<Rightarrow> out)"

definition nic_unregister_nearby :: "mac \<Rightarrow> nic \<Rightarrow> nic" where
  "nic_unregister_nearby a n = (case n of Shm_nic b \<Rightarrow> Shm_nic (unregister_nearby_entity a b) | Raw_nic x \<Rightarrow> Raw_nic x)"

definition nic_move :: "quadrant \<Rightarrow> nic \<Rightarrow> nic" where
  "nic_move q n = (case n of Shm_nic b \<Rightarrow> Shm_nic (set_location q b) | Raw_nic x \<Rightarrow> Raw_nic (nic_set_location q x))"

definition nic_get_location :: "nic \<Rightarrow> quadrant" where
  "nic_get_location n = (case n of Shm_nic b \<Rightarrow> get_location b | Raw_nic x \<Rightarrow> nic_quadrant x)"

definition nic_component_service :: "bool \<Rightarrow> nat \<Rightarrow> string \<Rightarrow> u32 \<Rightarrow> shared_block \<Rightarrow> u16 \<times> shared_block" where
  "nic_component_service lock_ok pid name tid b = registerService lock_ok pid name tid b"

definition nic_lookup_by_type :: "u32 \<Rightarrow> shared_block \<Rightarrow> u16" where
  "nic_lookup_by_type tid b = lookupServiceByType tid b"

text \<open>
  Through any sequence of calls the raw interface keeps everything but its quadrant, knows nobody and
  has no key; the calls on the other interface are those of the shared block.
\<close>

datatype nic_call = Set_key u64 | Register mac | Unregister mac | Reset_nearby | Move quadrant

definition nic_call :: "nic_call \<Rightarrow> nic \<Rightarrow> nic" where
  "nic_call a n = (case a of Set_key k \<Rightarrow> nic_set_session_key k n | Register m \<Rightarrow> nic_register_nearby m n
     | Unregister m \<Rightarrow> nic_unregister_nearby m n | Reset_nearby \<Rightarrow> nic_reset_nearby n | Move q \<Rightarrow> nic_move q n)"

lemma raw_nic_calls:
  "\<exists>q. fold nic_call as (Raw_nic x) = Raw_nic (x\<lparr>nic_quadrant := q\<rparr>)"
proof (induction as arbitrary: x)
  case Nil
  show ?case by (intro exI [of _ "nic_quadrant x"]) simp
next
  case (Cons a as)
  obtain q where q: "nic_call a (Raw_nic x) = Raw_nic (x\<lparr>nic_quadrant := q\<rparr>)"
  proof (cases a)
    case (Move q)
    then show ?thesis using that [of q] by (simp add: nic_call_def nic_move_def nic_set_location_def)
  qed (use that [of "nic_quadrant x"] in \<open>simp_all add: nic_call_def nic_set_session_key_def nic_register_nearby_def
      nic_unregister_nearby_def nic_reset_nearby_def\<close>)
  from Cons.IH [of "x\<lparr>nic_quadrant := q\<rparr>"] show ?case by (simp add: q)
qed

section \<open>Sending and freeing a buffer\<close>

text \<open>A buffer of the interface: a frame of its own, or a view of a slot with its sequence number.\<close>

datatype nic_buffer = Own_frame frame | View nat nat

definition nic_free :: "bool \<Rightarrow> bool \<Rightarrow> nat \<Rightarrow> nic_buffer \<Rightarrow> ipc \<Rightarrow> ipc" where
  "nic_free shm ok c buf s = (case buf of View i q \<Rightarrow> if shm then release_frame ok c q s else s | Own_frame f \<Rightarrow> s)"

text \<open>The arguments of the engine's \<^verbatim>\<open>send\<close> for a buffer; \<open>None\<close> for a null pointer.\<close>

definition frame_call :: "frame \<Rightarrow> send_args" where
  "frame_call f = \<lparr>sa_src = shost (fr_header f), sa_dst = dhost (fr_header f), sa_proto = eth_type (fr_header f),
     sa_data = take (unat (data_length f)) (fr_data f)\<rparr>"

definition nic_send_shm :: "send_os \<Rightarrow> frame option \<Rightarrow> ipc \<Rightarrow> (ipc \<times> int) option" where
  "nic_send_shm os buf s = (case buf of None \<Rightarrow> Some (s, - 1) | Some f \<Rightarrow> shm_send os (frame_call f) s)"

definition nic_send_raw :: "frame option \<Rightarrow> raw_engine \<Rightarrow> raw_engine \<times> bytes option" where
  "nic_send_raw buf e = (case buf of None \<Rightarrow> (e, None)
     | Some f \<Rightarrow> (case frame_call f of a \<Rightarrow> raw_send (sa_src a) (sa_dst a) (sa_proto a) (sa_data a) e))"

text \<open>What a caller allocates, fills and sends reaches the engine as the arguments it named.\<close>

lemma alloc_fill_call:
  assumes "length d \<le> ETH_MTU"
  shows "\<exists>f. alloc_frame src dst prot (of_nat (length d)) = Some f \<and>
    frame_call (f\<lparr>fr_data := memcpy_at 0 d (fr_data f)\<rparr>) = \<lparr>sa_src = src, sa_dst = dst, sa_proto = prot, sa_data = d\<rparr>"
proof -
  have "unat (of_nat (length d) :: u32) = length d" using assms by (intro unat_of_nat_small) (simp add: ETH_MTU_def)
  then show ?thesis using assms by (simp add: alloc_frame_def frame_call_def memcpy_at_def)
qed

section \<open>The receiver thread of the shared memory\<close>

text \<open>One turn: the shared state, the next number to read, and what observers were handed.\<close>

definition nic_hand :: "'o \<Rightarrow> u16 \<Rightarrow> nic_buffer \<Rightarrow> ('o \<times> u16 \<times> nic_buffer) list \<Rightarrow> ('o \<times> u16 \<times> nic_buffer) list" where
  "nic_hand ob prot buf log = log @ [(ob, prot, buf)]"

type_synonym 'o receiver = "ipc \<times> nat \<times> ('o \<times> u16 \<times> nic_buffer) list"

definition nic_receive_turn ::
  "bool \<Rightarrow> nat \<Rightarrow> ('o, u16) observed \<Rightarrow> sem_result \<Rightarrow> 'o receiver \<Rightarrow> 'o receiver option" where
  "nic_receive_turn ok c subj res rc = (case rc of (s, next, log) \<Rightarrow>
     (case receive_zerocopy res c next s of None \<Rightarrow> None
      | Some (s', None) \<Rightarrow> Some (s', next, log)
      | Some (s', Some m) \<Rightarrow>
          (let prot = htons (eth_type (fr_header (slot_frame m)));
               view = View (next mod BUFFER_SLOTS) (sequence_id m)
           in case notify nic_hand subj prot view log of
                (True, log') \<Rightarrow> Some (s', next + 1, log')
              | (False, log') \<Rightarrow> Some (nic_free True ok c view s', next + 1, log'))))"

primrec nic_receive_run ::
  "bool \<Rightarrow> nat \<Rightarrow> ('o, u16) observed \<Rightarrow> sem_result list \<Rightarrow> 'o receiver \<Rightarrow> 'o receiver option" where
  "nic_receive_run ok c subj [] rc = Some rc"
| "nic_receive_run ok c subj (r # rs) rc = (case nic_receive_turn ok c subj r rc of None \<Rightarrow> None
     | Some rc' \<Rightarrow> nic_receive_run ok c subj rs rc')"

definition slot_proto :: "shared_block \<Rightarrow> nat \<Rightarrow> u16" where
  "slot_proto b i = htons (eth_type (fr_header (slot_frame (buffer b (i mod BUFFER_SLOTS)))))"

lemma nic_turn_fails: "res \<noteq> Sem_ok \<Longrightarrow> nic_receive_turn ok c subj res (s, next, log) = Some (s, next, log)"
  by (simp add: nic_receive_turn_def receive_zerocopy_def)

lemma nic_turn_reads:
  assumes "observed_ok subj" "sequence_id (buffer (blk s) (next mod BUFFER_SLOTS)) = next" "sems s (CONTROL_SEMS + c) > 0"
  shows "nic_receive_turn ok c subj Sem_ok (s, next, log) =
    (let s' = s\<lparr>sems := (sems s)(CONTROL_SEMS + c := sems s (CONTROL_SEMS + c) - 1)\<rparr>;
         obs = targets subj (slot_proto (blk s) next); view = View (next mod BUFFER_SLOTS) next
     in Some (if obs = [] then release_frame ok c next s' else s', next + 1, log @ map (\<lambda>ob. (ob, slot_proto (blk s) next, view)) obs))"
proof -
  have "fold (\<lambda>ob. nic_hand ob prot view) obs log = log @ map (\<lambda>ob. (ob, prot, view)) obs"
    for obs :: "'a list" and prot view log
    by (induction obs arbitrary: log) (simp_all add: nic_hand_def)
  then show ?thesis using assms
    by (simp add: nic_receive_turn_def receive_zerocopy_def notify_targets nic_free_def slot_proto_def Let_def)
qed

text \<open>
  C27. The receiver thread of an interface turns published slots into views, in order.  If the next
  \<open>k\<close> slots hold the next \<open>k\<close> messages and as many wake-ups are pending, then whatever
  failing and interrupted waits come between them, after \<open>k\<close> successful waits every observer of each message's
  protocol number has been handed a view of its slot with its sequence number, message by message and once
  each; a message nobody observes is released at once, so that it never holds up a sender.
\<close>

theorem receiver_thread_in_order:
  assumes "observed_ok subj" "\<forall>i. next \<le> i \<and> i < next + k \<longrightarrow> sequence_id (buffer (blk s) (i mod BUFFER_SLOTS)) = i"
    and "count_list rs Sem_ok = k" "k \<le> sems s (CONTROL_SEMS + c)" "c < MAX_CLIENTS"
  shows "\<exists>s'. nic_receive_run ok c subj rs (s, next, log) = Some (s', next + k,
      log @ concat (map (\<lambda>i. map (\<lambda>ob. (ob, slot_proto (blk s) i, View (i mod BUFFER_SLOTS) i)) (targets subj (slot_proto (blk s) i)))
        [next..<next + k])) \<and>
    buffer (blk s') = buffer (blk s) \<and>
    last_read_sequence_id (client_registry (blk s') c) = fold (\<lambda>i lr. if targets subj (slot_proto (blk s) i) = [] then i else lr)
      [next..<next + k] (last_read_sequence_id (client_registry (blk s) c))"
  using assms
proof (induction rs arbitrary: s "next" k log)
  case (Cons r rs)
  show ?case
  proof (cases "r = Sem_ok")
    case False
    then show ?thesis using Cons.IH [OF Cons.prems(1,2) _ Cons.prems(4,5)] Cons.prems(3) by (simp add: nic_turn_fails)
  next
    case True
    then obtain k' where k: "k = Suc k'" "count_list rs Sem_ok = k'" using Cons.prems(3) by auto
    let ?s = "s\<lparr>sems := (sems s)(CONTROL_SEMS + c := sems s (CONTROL_SEMS + c) - 1)\<rparr>"
    let ?obs = "targets subj (slot_proto (blk s) next)"
    define s1 where "s1 = (if ?obs = [] then release_frame ok c next ?s else ?s)"
    have s1: "buffer (blk s1) = buffer (blk s)" "k' \<le> sems s1 (CONTROL_SEMS + c)"
        "last_read_sequence_id (client_registry (blk s1) c)
          = (if ?obs = [] then next else last_read_sequence_id (client_registry (blk s) c))"
      using Cons.prems(4) k(1)
      by (auto simp: s1_def release_frame_def signal_writer_def set_client_def shm_simps)
    have step: "nic_receive_turn ok c subj r (s, next, log) = Some (s1, next + 1,
        log @ map (\<lambda>ob. (ob, slot_proto (blk s) next, View (next mod BUFFER_SLOTS) next)) ?obs)"
      using nic_turn_reads [OF Cons.prems(1), of s "next" c ok log] Cons.prems(2,4) k(1) True by (simp add: s1_def Let_def)
    have proto: "slot_proto (blk s1) = slot_proto (blk s)" by (intro ext) (simp add: slot_proto_def s1(1))
    from Cons.IH [of "next + 1" k' s1 "log @ map (\<lambda>ob. (ob, slot_proto (blk s) next, View (next mod BUFFER_SLOTS) next)) ?obs"]
      Cons.prems(1,2,5) k s1(1,2) obtain s' where
      "nic_receive_run ok c subj rs (s1, next + 1, log @ map (\<lambda>ob. (ob, slot_proto (blk s) next, View (next mod BUFFER_SLOTS) next)) ?obs)
        = Some (s', next + 1 + k', (log @ map (\<lambda>ob. (ob, slot_proto (blk s) next, View (next mod BUFFER_SLOTS) next)) ?obs) @
          concat (map (\<lambda>i. map (\<lambda>ob. (ob, slot_proto (blk s) i, View (i mod BUFFER_SLOTS) i)) (targets subj (slot_proto (blk s) i)))
            [next + 1..<next + 1 + k']))"
      "buffer (blk s') = buffer (blk s1)"
      "last_read_sequence_id (client_registry (blk s') c) = fold (\<lambda>i lr. if targets subj (slot_proto (blk s) i) = [] then i else lr)
        [next + 1..<next + 1 + k'] (last_read_sequence_id (client_registry (blk s1) c))"
      unfolding proto by auto
    then show ?thesis using step s1 k(1) by (simp add: upt_conv_Cons del: upt_Suc)
  qed
qed simp

definition one_message :: ipc where
  "one_message = \<lparr>blk = sample_block\<lparr>buffer := (buffer sample_block)(1 := (buffer sample_block 1)\<lparr>sequence_id := 1\<rparr>)\<rparr>,
     sems = (\<lambda>_. 1), ipc_alive = True\<rparr>"

definition one_observer :: "(nat, u16) observed" where
  "one_observer = attach observed_empty (Some 7) 0"

theorem receiver_thread_in_order_witness:
  "\<exists>s'. nic_receive_run True 0 one_observer [Sem_eintr, Sem_ok] (one_message, 1, []) = Some (s', 2, [(7, 0, View 1 1)])"
proof -
  have "slot_proto (blk one_message) 1 = 0" by (simp add: slot_proto_def one_message_def sample_block_def shm_simps htons_def numeral_2_eq_2)
  moreover have "targets one_observer 0 = [7]" "observed_ok one_observer"
    by (simp_all add: one_observer_def attach_def observed_empty_def targets_def observed_ok_def)
  moreover have "\<forall>i. 1 \<le> i \<and> i < 1 + 1 \<longrightarrow> sequence_id (buffer (blk one_message) (i mod BUFFER_SLOTS)) = i"
  proof (intro allI impI)
    fix i :: nat assume "1 \<le> i \<and> i < 1 + 1"
    then have "i = 1" by simp
    then show "sequence_id (buffer (blk one_message) (i mod BUFFER_SLOTS)) = i" by (simp add: one_message_def shm_simps)
  qed
  moreover have "1 \<le> sems one_message (CONTROL_SEMS + 0)" by (simp add: one_message_def)
  moreover have "[1..<1 + 1] = [1 :: nat]" by simp
  ultimately show ?thesis
    using receiver_thread_in_order [of one_observer 1 1 one_message "[Sem_eintr, Sem_ok]" 0 True "[]"]
    by (auto simp: shm_simps numeral_2_eq_2 simp del: nic_receive_run.simps upt_Suc)
qed

end
