(* ===== verification/Shm_Ring_Inv.thy ===== *)
theory Shm_Ring_Inv
  imports Shm_Ring
begin

text \<open>
  The invariant of the circular buffer and its preservation by every disciplined step: tickets in
  flight are distinct, contiguous above the publish counter and bounded by the number of writers;
  no writer that passed its check can touch a slot some registered client has still to read; and
  what a client was handed is, message by message, what was sent.
\<close>

section \<open>Derived notions\<close>

primrec ticket :: "wpc \<Rightarrow> (send_args \<times> nat) option" where
  "ticket W_idle = None"
| "ticket (W_claiming a) = None"
| "ticket (W_loaded a t) = None"
| "ticket (W_stored a t) = Some (a, t)"
| "ticket (W_scan a t i slow act) = Some (a, t)"
| "ticket (W_seen a t i slow) = Some (a, t)"
| "ticket (W_blocked a t) = Some (a, t)"
| "ticket (W_write a t) = Some (a, t)"
| "ticket (W_frame a t) = Some (a, t)"
| "ticket (W_seq a t) = Some (a, t)"
| "ticket (W_collect t i ops) = None"

primrec in_claim :: "wpc \<Rightarrow> bool" where
  "in_claim W_idle = False"
| "in_claim (W_claiming a) = True"
| "in_claim (W_loaded a t) = True"
| "in_claim (W_stored a t) = True"
| "in_claim (W_scan a t i slow act) = False"
| "in_claim (W_seen a t i slow) = False"
| "in_claim (W_blocked a t) = False"
| "in_claim (W_write a t) = False"
| "in_claim (W_frame a t) = False"
| "in_claim (W_seq a t) = False"
| "in_claim (W_collect t i ops) = False"

text \<open>
  The clients whose last-read counter protects their messages, and the messages whose sequence
  number has been stored in their slot.
\<close>

definition member :: "ring \<Rightarrow> nat \<Rightarrow> bool" where
  "member r c \<longleftrightarrow> c < MAX_CLIENTS \<and> (case cl r c of C_loaded p \<Rightarrow> True | C_active \<Rightarrow> True | _ \<Rightarrow> False)"

definition written :: "ring \<Rightarrow> nat \<Rightarrow> bool" where
  "written r s \<longleftrightarrow> 0 < s \<and> (s \<le> publish r \<or> (\<exists>w a. wr r w = W_seq a s))"

primrec live :: "vpc \<Rightarrow> bool" where
  "live V_none = False"
| "live V_held = True"
| "live V_my = True"
| "live (V_scan my i slow) = True"
| "live (V_seen my i slow) = True"
| "live (V_store b) = True"
| "live (V_signal b) = False"
| "live V_done = False"

lemma set_client_simps [simp]:
  "claim_sequence_id (set_client c f b) = claim_sequence_id b"
  "publish_sequence_id (set_client c f b) = publish_sequence_id b"
  "buffer (set_client c f b) = buffer b"
  "writer_is_blocked (set_client c f b) = writer_is_blocked b"
  "client_registry (set_client c f b) d = (if d = c then f (client_registry b c) else client_registry b d)"
  by (simp_all add: set_client_def)

lemma upd_slot_simps [simp]:
  "claim_sequence_id (upd_slot q f b) = claim_sequence_id b"
  "publish_sequence_id (upd_slot q f b) = publish_sequence_id b"
  "client_registry (upd_slot q f b) = client_registry b"
  "writer_is_blocked (upd_slot q f b) = writer_is_blocked b"
  "buffer (upd_slot q f b) k = (if k = q mod BUFFER_SLOTS then f (buffer b k) else buffer b k)"
  by (auto simp: upd_slot_def)

section \<open>What a step changes\<close>

lemma count_list_control [simp]: "k < CONTROL_SEMS \<Longrightarrow> count_list (map ((+) CONTROL_SEMS) ops) k = 0"
  by (auto simp: count_list_0_iff)

lemma control_sem_order [simp]: "CLAIM_SEM < CONTROL_SEMS" "CLAIM_SEM \<noteq> WRITER_WAIT_SEM" "WRITER_WAIT_SEM \<noteq> CLAIM_SEM"
  by (simp_all add: shm_simps)

lemma send_step_frame:
  assumes "send_step N w l r r'"
  shows "v \<noteq> w \<Longrightarrow> wr r' v = wr r v" "cl r' = cl r" "rd r' = rd r" "nxt r' = nxt r" "vw r' = vw r"
    "got r' = got r" "client_registry (blk r') = client_registry (blk r)"
  using assms by (auto elim!: send_step.cases)

lemma send_step_id: "send_step N w l r r' \<Longrightarrow> wr r w \<noteq> W_idle \<or> w < N"
  by (auto elim!: send_step.cases)

lemma send_step_ticket:
  assumes "send_step N w l r r'" "l \<noteq> Ticket_lost"
  obtains (neutral) "ticket (wr r' w) = ticket (wr r w)" "claim r' = claim r" "publish r' = publish r"
      "sent r' = sent r"
    | (drawn) a t where "wr r w = W_loaded a t" "wr r' w = W_stored a t" "claim r' = t + 1"
      "publish r' = publish r" "sent r' = (sent r)(t := a)"
    | (published) a t where "wr r w = W_seq a t" "wr r' w = W_collect t 0 []" "publish r = t - 1"
      "publish r' = t" "claim r' = claim r" "sent r' = sent r"
  using assms by (cases rule: send_step.cases) auto

lemma send_step_lock:
  assumes "send_step N w l r r'" "l \<noteq> Ticket_lost"
  obtains (neutral) "in_claim (wr r' w) = in_claim (wr r w)" "sems r' CLAIM_SEM = sems r CLAIM_SEM"
    | (acquired) "\<not> in_claim (wr r w)" "in_claim (wr r' w)" "sems r CLAIM_SEM > 0"
      "sems r' CLAIM_SEM = sems r CLAIM_SEM - 1"
    | (released) "in_claim (wr r w)" "\<not> in_claim (wr r' w)" "sems r' CLAIM_SEM = sems r CLAIM_SEM + 1"
  using assms
  by (cases rule: send_step.cases) auto

lemma send_step_loaded:
  assumes "send_step N w l r r'" "wr r' w = W_loaded a t"
  shows "t = claim r'"
  using assms by (cases rule: send_step.cases) auto

lemma client_step_frame:
  assumes "client_step c l r r'"
  shows "wr r' = wr r" "sent r' = sent r" "claim r' = claim r" "publish r' = publish r"
    "buffer (blk r') = buffer (blk r)" "sems r' CLAIM_SEM = sems r CLAIM_SEM"
    "d \<noteq> c \<Longrightarrow> cl r' d = cl r d" "d \<noteq> c \<Longrightarrow> rd r' d = rd r d" "d \<noteq> c \<Longrightarrow> nxt r' d = nxt r d"
    "d \<noteq> c \<Longrightarrow> vw r' d = vw r d" "d \<noteq> c \<Longrightarrow> got r' d = got r d"
    "d \<noteq> c \<Longrightarrow> client_registry (blk r') d = client_registry (blk r) d"
  using assms by (auto elim!: client_step.cases simp: shm_simps)

lemma disciplined_no_loss [simp]: "disciplined l r \<Longrightarrow> l \<noteq> Ticket_lost"
  by (auto simp: disciplined_def)

section \<open>Tickets\<close>

definition inv_lock :: "nat \<Rightarrow> ring \<Rightarrow> bool" where
  "inv_lock N r \<longleftrightarrow>
     (\<forall>w. wr r w \<noteq> W_idle \<longrightarrow> w < N) \<and>
     (\<exists>h. (\<forall>w. in_claim (wr r w) \<longleftrightarrow> h = Some w) \<and> sems r CLAIM_SEM = (if h = None then 1 else 0)) \<and>
     (\<forall>w a t. wr r w = W_loaded a t \<longrightarrow> t = claim r)"

definition inv_tickets :: "ring \<Rightarrow> bool" where
  "inv_tickets r \<longleftrightarrow> publish r < claim r \<and>
     (\<forall>w a t. ticket (wr r w) = Some (a, t) \<longrightarrow> publish r < t \<and> t < claim r \<and> sent r t = a) \<and>
     (\<forall>w v a b t. ticket (wr r w) = Some (a, t) \<longrightarrow> ticket (wr r v) = Some (b, t) \<longrightarrow> w = v) \<and>
     (\<forall>t. publish r < t \<longrightarrow> t < claim r \<longrightarrow> (\<exists>w a. ticket (wr r w) = Some (a, t)))"

lemma inv_ticketsD:
  assumes "inv_tickets r"
  shows "publish r < claim r"
    and "ticket (wr r w) = Some (a, t) \<Longrightarrow> publish r < t \<and> t < claim r \<and> sent r t = a"
    and "ticket (wr r w) = Some (a, t) \<Longrightarrow> ticket (wr r v) = Some (b, t) \<Longrightarrow> w = v"
    and "publish r < t \<Longrightarrow> t < claim r \<Longrightarrow> \<exists>w a. ticket (wr r w) = Some (a, t)"
  using assms unfolding inv_tickets_def by blast+

lemma inv_lock_loaded: "inv_lock N r \<Longrightarrow> wr r w = W_loaded a t \<Longrightarrow> t = claim r"
  unfolding inv_lock_def by blast

lemma inv_lock_step:
  assumes step: "ring_step N l r r'" and "disciplined l r" and inv: "inv_lock N r"
  shows "inv_lock N r'"
  using step
proof cases
  case (client c)
  then show ?thesis using inv unfolding inv_lock_def by (simp add: client_step_frame)
next
  case (writer w)
  note other = send_step_frame(1) [OF writer]
  from inv obtain h where h: "\<And>v. in_claim (wr r v) \<longleftrightarrow> h = Some v"
    "sems r CLAIM_SEM = (if h = None then 1 else 0)" unfolding inv_lock_def by blast
  have ids: "v < N" if "wr r' v \<noteq> W_idle" for v
    using that inv other [of v] send_step_id [OF writer] unfolding inv_lock_def by metis
  from writer disciplined_no_loss [OF assms(2)]
  have "\<exists>h'. (\<forall>v. in_claim (wr r' v) \<longleftrightarrow> h' = Some v) \<and> sems r' CLAIM_SEM = (if h' = None then 1 else 0)"
  proof (cases rule: send_step_lock)
    case neutral
    then show ?thesis using h other by (intro exI [of _ h]) metis
  next
    case acquired
    then have "h = None" using h(2) by (auto split: if_splits)
    then show ?thesis using acquired h other by (intro exI [of _ "Some w"]) (metis diff_self_eq_0 option.inject option.simps(3))
  next
    case released
    then have "h = Some w" using h by blast
    then show ?thesis using released h other by (intro exI [of _ None]) (metis add_0 option.inject option.simps(3))
  qed
  moreover have "t = claim r'" if "wr r' v = W_loaded a t" for v a t
  proof (cases "v = w")
    case True
    then show ?thesis using send_step_loaded [OF writer] that by simp
  next
    case False
    then have v: "wr r v = W_loaded a t" using that other by simp
    then have w: "\<not> in_claim (wr r w)" using h(1) [of v] h(1) [of w] False by auto
    from writer disciplined_no_loss [OF assms(2)] have "claim r' = claim r"
      by (cases rule: send_step_ticket) (use w in auto)
    then show ?thesis using inv_lock_loaded [OF inv v] by simp
  qed
  ultimately show ?thesis using ids unfolding inv_lock_def by blast
qed

lemma inv_tickets_step:
  assumes step: "ring_step N l r r'" and disc: "disciplined l r" and lock: "inv_lock N r"
    and inv: "inv_tickets r"
  shows "inv_tickets r'"
  using step
proof cases
  case (client c)
  then show ?thesis using inv unfolding inv_tickets_def by (simp add: client_step_frame)
next
  case (writer w)
  note other = send_step_frame(1) [OF writer]
  note D = inv_ticketsD [OF inv]
  from writer disciplined_no_loss [OF disc] show ?thesis
  proof (cases rule: send_step_ticket)
    case neutral
    then have "ticket (wr r' v) = ticket (wr r v)" for v using other by (cases "v = w") auto
    then show ?thesis using inv neutral unfolding inv_tickets_def by simp
  next
    case (drawn a t)
    have t: "t = claim r" using drawn inv_lock_loaded [OF lock] by simp
    have tk: "ticket (wr r' v) = (if v = w then Some (a, t) else ticket (wr r v))" for v
      using drawn other by auto
    have none: "ticket (wr r w) = None" using drawn by simp
    have fresh: "ticket (wr r v) = Some (b, u) \<Longrightarrow> publish r < u \<and> u < t \<and> sent r u = b" for v b u
      using D(2) t by blast
    have "\<exists>v b. ticket (wr r' v) = Some (b, u)" if u: "publish r < u" "u < Suc t" for u
    proof (cases "u = t")
      case False
      then have "u < claim r" using u t by linarith
      then obtain v b where "ticket (wr r v) = Some (b, u)" using D(4) [of u] u(1) by blast
      then show ?thesis using none tk by (metis option.distinct(1))
    qed (use tk in auto)
    then show ?thesis using drawn D(1) D(3) fresh t unfolding inv_tickets_def tk
      by (simp add: less_Suc_eq) (metis less_irrefl option.inject prod.inject)
  next
    case (published a t)
    have tw: "ticket (wr r w) = Some (a, t)" using published by simp
    have t: "publish r < t" "t < claim r" using D(2) [OF tw] by auto
    have tk: "ticket (wr r' v) = (if v = w then None else ticket (wr r v))" for v
      using published other by auto
    have above: "t < u \<and> u < claim r \<and> sent r u = b" if "v \<noteq> w" "ticket (wr r v) = Some (b, u)" for v b u
    proof -
      have "u \<noteq> t" using D(3) [OF tw] that by blast
      then show ?thesis using D(2) [OF that(2)] t published by linarith
    qed
    have "\<exists>v b. ticket (wr r' v) = Some (b, u)" if u: "t < u" "u < claim r" for u
    proof -
      obtain v b where v: "ticket (wr r v) = Some (b, u)" using D(4) [of u] u t by auto
      then have "v \<noteq> w" using tw u by auto
      then show ?thesis using v tk by auto
    qed
    then show ?thesis using published t above D(3) unfolding inv_tickets_def tk by auto
  qed
qed

text \<open>Every ticket in flight is held by one of the \<open>N\<close> writers, so there are at most \<open>N\<close>.\<close>

lemma tickets_bounded:
  assumes "inv_lock N r" "inv_tickets r" "t < claim r"
  shows "t \<le> publish r + N"
proof -
  let ?f = "\<lambda>w. snd (the (ticket (wr r w)))"
  have "{publish r <..< claim r} \<subseteq> ?f ` {..<N}"
  proof
    fix u assume "u \<in> {publish r <..< claim r}"
    then obtain w a where w: "ticket (wr r w) = Some (a, u)"
      using assms(2) unfolding inv_tickets_def by auto
    then have "wr r w \<noteq> W_idle" by auto
    then show "u \<in> ?f ` {..<N}" using w assms(1) by (force simp: inv_lock_def image_iff)
  qed
  then have "card {publish r <..< claim r} \<le> card {..<N}"
    by (meson card_image_le card_mono finite_imageI finite_lessThan order_trans)
  then show ?thesis using assms(3) by simp
qed

section \<open>Registration\<close>

definition inv_quiet :: "ring \<Rightarrow> bool" where
  "inv_quiet r \<longleftrightarrow> (publish r = 0 \<longrightarrow>
     (\<forall>w t i ops. wr r w \<noteq> W_collect t i ops) \<and>
     (\<forall>c<MAX_CLIENTS. last_read r c = 0 \<and> sems r (CONTROL_SEMS + c) = 0 \<and> rd r c = R_wait \<and>
        (\<forall>q. vw r c q = V_none)))"

definition inv_reg :: "ring \<Rightarrow> bool" where
  "inv_reg r \<longleftrightarrow> (\<forall>c<MAX_CLIENTS. (active r c \<longleftrightarrow> cl r c \<noteq> C_absent) \<and>
     (\<forall>p. cl r c = C_loaded p \<longrightarrow> p = 0 \<and> last_read r c = 0))"

lemma inv_quietD:
  assumes "inv_quiet r" "publish r = 0"
  shows "wr r w \<noteq> W_collect t i ops"
    and "c < MAX_CLIENTS \<Longrightarrow> last_read r c = 0"
    and "c < MAX_CLIENTS \<Longrightarrow> sems r (CONTROL_SEMS + c) = 0"
    and "c < MAX_CLIENTS \<Longrightarrow> rd r c = R_wait"
    and "c < MAX_CLIENTS \<Longrightarrow> vw r c q = V_none"
  using assms unfolding inv_quiet_def by blast+

lemma inv_regD:
  assumes "inv_reg r" "c < MAX_CLIENTS"
  shows "active r c \<longleftrightarrow> cl r c \<noteq> C_absent"
    and "cl r c = C_loaded p \<Longrightarrow> p = 0 \<and> last_read r c = 0"
  using assms unfolding inv_reg_def by blast+

lemma publish_mono: "ring_step N l r r' \<Longrightarrow> inv_tickets r \<Longrightarrow> publish r \<le> publish r'"
  by (erule ring_step.cases; erule send_step.cases client_step.cases) auto

lemma control_sem_neq [simp]: "CLAIM_SEM \<noteq> CONTROL_SEMS + c" "CONTROL_SEMS + c \<noteq> CLAIM_SEM"
    "WRITER_WAIT_SEM \<noteq> CONTROL_SEMS + c" "CONTROL_SEMS + c \<noteq> WRITER_WAIT_SEM"
  by (simp_all add: shm_simps)

lemma inv_quiet_step:
  assumes step: "ring_step N l r r'" and disc: "disciplined l r" and tk: "inv_tickets r"
    and reg: "inv_reg r" and inv: "inv_quiet r"
  shows "inv_quiet r'"
  using step
proof cases
  case (writer w)
  show ?thesis
  proof (cases "publish r' = 0")
    case True
    then have z: "publish r = 0" using publish_mono [OF step tk] by simp
    note Q = inv_quietD [OF inv z]
    have "wr r' v \<noteq> W_collect t i ops" for v t i ops
      using writer True Q(1) [of v] Q(1) [of w] inv_ticketsD(2) [OF tk, of w]
      by (cases rule: send_step.cases) (auto split: if_splits)
    moreover have "sems r' (CONTROL_SEMS + c) = 0" if "c < MAX_CLIENTS" for c
      using writer Q(1) [of w] Q(3) [OF that] by (cases rule: send_step.cases) auto
    ultimately show ?thesis using Q send_step_frame [OF writer] unfolding inv_quiet_def by simp
  qed (simp add: inv_quiet_def)
next
  case (client c)
  note fr = client_step_frame [OF client(2)]
  show ?thesis
  proof (cases "publish r' = 0")
    case True
    then have z: "publish r = 0" using fr by simp
    note Q = inv_quietD [OF inv z]
    have "last_read r' c = 0 \<and> rd r' c = R_wait \<and> (\<forall>q. vw r' c q = V_none) \<and>
        (\<forall>d<MAX_CLIENTS. sems r' (CONTROL_SEMS + d) = 0)"
      using client(2,1) Q inv_regD(2) [OF reg client(1)] by (cases rule: client_step.cases) auto
    then show ?thesis using Q fr unfolding inv_quiet_def by metis
  qed (simp add: inv_quiet_def)
qed

lemma inv_reg_step:
  assumes step: "ring_step N l r r'" and disc: "disciplined l r" and quiet: "inv_quiet r"
    and inv: "inv_reg r"
  shows "inv_reg r'"
  using step
proof cases
  case (writer w)
  then show ?thesis using inv send_step_frame [OF writer] unfolding inv_reg_def by simp
next
  case (client c)
  note fr = client_step_frame [OF client(2)]
  have "(active r' c \<longleftrightarrow> cl r' c \<noteq> C_absent) \<and> (\<forall>p. cl r' c = C_loaded p \<longrightarrow> p = 0 \<and> last_read r' c = 0)"
    using client(2,1) disc inv_regD [OF inv client(1)] inv_quietD(2) [OF quiet]
    by (cases rule: client_step.cases) (auto simp: disciplined_def)
  then show ?thesis using inv fr unfolding inv_reg_def by metis
qed

section \<open>Room in the buffer\<close>

text \<open>
  What a writer knows of client \<open>d\<close>, whose counter is \<open>lr\<close>: nothing before its scan reached \<open>d\<close>,
  that its slot is free of messages \<open>d\<close> has to read once it passed the check.
\<close>

fun room :: "nat \<Rightarrow> nat \<Rightarrow> wpc \<Rightarrow> bool" where
  "room d lr (W_scan a t i slow act) \<longleftrightarrow>
     d < i \<longrightarrow> t \<le> lr + BUFFER_SLOTS \<or> act \<and> slow \<le> lr"
| "room d lr (W_seen a t i slow) \<longleftrightarrow>
     d < i \<longrightarrow> t \<le> lr + BUFFER_SLOTS \<or> slow \<le> lr"
| "room d lr (W_write a t) \<longleftrightarrow> t \<le> lr + BUFFER_SLOTS"
| "room d lr (W_frame a t) \<longleftrightarrow> t \<le> lr + BUFFER_SLOTS"
| "room d lr _ \<longleftrightarrow> True"

definition inv_room :: "ring \<Rightarrow> bool" where
  "inv_room r \<longleftrightarrow> (\<forall>w d. member r d \<longrightarrow> room d (last_read r d) (wr r w))"

lemma room_mono: "room d lr p \<Longrightarrow> lr \<le> lr' \<Longrightarrow> room d lr' p"
  by (cases p) auto

lemma room_small: "(\<And>a t. ticket p = Some (a, t) \<Longrightarrow> t \<le> BUFFER_SLOTS) \<Longrightarrow> room d lr p"
  by (cases p) (simp_all add: trans_le_add2)

lemma member_active: "inv_reg r \<Longrightarrow> member r d \<Longrightarrow> active r d"
  by (auto simp: member_def inv_reg_def split: cpc.splits)

lemma client_step_member:
  assumes "client_step c l r r'" "c < MAX_CLIENTS" "disciplined l r" "inv_reg r" "inv_quiet r" "member r' d"
  shows "member r d \<and> last_read r d \<le> last_read r' d \<or> publish r = 0 \<and> last_read r' d = 0"
proof (cases "d = c")
  case True
  show ?thesis using assms True inv_regD(2) [OF assms(4,2)] inv_quietD(2) [OF assms(5) _ assms(2)]
    by (cases rule: client_step.cases) (auto simp: member_def disciplined_def)
qed (use assms client_step_frame [OF assms(1)] in \<open>auto simp: member_def\<close>)

lemma send_step_member:
  assumes "send_step N w l r r'"
  shows "member r' d \<longleftrightarrow> member r d" "last_read r' d = last_read r d"
  using send_step_frame [OF assms] by (simp_all add: member_def)

lemma inv_room_step:
  assumes step: "ring_step N l r r'" and disc: "disciplined l r" and N: "N \<le> BUFFER_SLOTS"
    and lock: "inv_lock N r" and tk: "inv_tickets r"
    and reg: "inv_reg r" and quiet: "inv_quiet r" and inv: "inv_room r"
  shows "inv_room r'"
  using step
proof cases
  case (writer w)
  note fr = send_step_frame [OF writer] send_step_member [OF writer]
  have "room d (last_read r d) (wr r' w)" if d: "member r d" for d
  proof -
    have a: "d < MAX_CLIENTS" "active r d" using d member_active [OF reg d] by (auto simp: member_def)
    have b: "room d (last_read r d) (wr r w)" using inv d unfolding inv_room_def by blast
    from writer show ?thesis
      by (cases rule: send_step.cases) (use a b in \<open>auto simp: less_Suc_eq\<close>)
  qed
  then show ?thesis using inv fr unfolding inv_room_def by metis
next
  case (client c)
  note fr = client_step_frame [OF client(2)]
  show ?thesis unfolding inv_room_def
  proof (intro allI impI)
    fix w d assume "member r' d"
    from client_step_member [OF client(2,1) disc reg quiet this]
    show "room d (last_read r' d) (wr r' w)"
    proof
      assume "member r d \<and> last_read r d \<le> last_read r' d"
      then show ?thesis using inv fr room_mono unfolding inv_room_def by metis
    next
      assume "publish r = 0 \<and> last_read r' d = 0"
      then have "t \<le> BUFFER_SLOTS" if "ticket (wr r w) = Some (a, t)" for a t
        using tickets_bounded [OF lock tk] inv_ticketsD(2) [OF tk that] N by fastforce
      then show ?thesis using fr room_small by metis
    qed
  qed
qed

section \<open>Slots\<close>

definition holds :: "ring \<Rightarrow> nat \<Rightarrow> bool" where
  "holds r s \<longleftrightarrow> frame_holds (sent r s) (slot_frame (slot r s))"

definition inv_slots :: "ring \<Rightarrow> bool" where
  "inv_slots r \<longleftrightarrow>
     (\<forall>w a t. wr r w = W_frame a t \<longrightarrow> holds r t) \<and>
     (\<forall>w a t. wr r w = W_seq a t \<longrightarrow> holds r t \<and> sequence_id (slot r t) = t) \<and>
     (\<forall>c s. member r c \<longrightarrow> last_read r c < s \<longrightarrow> written r s \<longrightarrow> holds r s \<and> sequence_id (slot r s) = s)"

definition inv_ids :: "ring \<Rightarrow> bool" where
  "inv_ids r \<longleftrightarrow> (\<forall>k<BUFFER_SLOTS. sequence_id (buffer (blk r) k) = 0 \<or> written r (sequence_id (buffer (blk r) k)))"

lemma inv_slotsD:
  assumes "inv_slots r"
  shows "wr r w = W_frame a t \<Longrightarrow> holds r t"
    and "wr r w = W_seq a t \<Longrightarrow> holds r t \<and> sequence_id (slot r t) = t"
    and "member r c \<Longrightarrow> last_read r c < s \<Longrightarrow> written r s \<Longrightarrow> holds r s \<and> sequence_id (slot r s) = s"
  using assms unfolding inv_slots_def by blast+

lemma inv_slotsI:
  assumes "\<And>w a t. wr r w = W_frame a t \<Longrightarrow> holds r t"
    and "\<And>w a t. wr r w = W_seq a t \<Longrightarrow> holds r t \<and> sequence_id (slot r t) = t"
    and "\<And>c s. member r c \<Longrightarrow> last_read r c < s \<Longrightarrow> written r s \<Longrightarrow> holds r s \<and> sequence_id (slot r s) = s"
  shows "inv_slots r"
  unfolding inv_slots_def using assms by blast

lemma mod_apart: "s \<noteq> t \<Longrightarrow> s < t + n \<Longrightarrow> t < s + n \<Longrightarrow> s mod n \<noteq> t mod (n::nat)"
proof (induction s t rule: linorder_wlog)
  case (le s t)
  show ?case
  proof
    assume "s mod n = t mod n"
    then have "n dvd t - s" using le(1) mod_eq_dvd_iff_nat [of s t n] by metis
    then show False using le by (auto dest: dvd_imp_le)
  qed
next
  case (sym s t)
  then show ?case by metis
qed

lemma written_less_claim:
  assumes "inv_tickets r" "written r s"
  shows "s < claim r"
proof -
  have "s < claim r" if "wr r w = W_seq a s" for w a
    using inv_ticketsD(2) [OF assms(1), of w a s] that by simp
  then show ?thesis using assms(2) inv_ticketsD(1) [OF assms(1)] by (auto simp: written_def)
qed

lemma send_step_written:
  assumes step: "send_step N w l r r'" and loss: "l \<noteq> Ticket_lost" and tk: "inv_tickets r"
  shows "written r' s \<longleftrightarrow> written r s \<or> (\<exists>a. wr r w = W_frame a s \<and> wr r' w = W_seq a s)"
proof -
  let ?E = "\<exists>v a. v \<noteq> w \<and> wr r v = W_seq a s"
  have f: "0 < t" if "wr r w = W_frame a t" for a t using inv_ticketsD(2) [OF tk, of w a t] that by simp
  have q: "0 < t \<and> publish r < t" if "wr r w = W_seq a t" for a t
    using inv_ticketsD(2) [OF tk, of w a t] that by auto
  have "(\<exists>v a. wr r' v = W_seq a s) \<longleftrightarrow> (\<exists>a. wr r' w = W_seq a s) \<or> ?E"
    using send_step_frame(1) [OF step] by metis
  moreover have "(\<exists>v a. wr r v = W_seq a s) \<longleftrightarrow> (\<exists>a. wr r w = W_seq a s) \<or> ?E" by metis
  ultimately have eq: "written r' s \<longleftrightarrow> 0 < s \<and> (s \<le> publish r' \<or> (\<exists>a. wr r' w = W_seq a s) \<or> ?E)"
      "written r s \<longleftrightarrow> 0 < s \<and> (s \<le> publish r \<or> (\<exists>a. wr r w = W_seq a s) \<or> ?E)"
    unfolding written_def by simp_all
  from step show ?thesis unfolding eq
    by (cases rule: send_step.cases) (use loss f q in \<open>auto simp del: split_paired_Ex\<close>)
qed

text \<open>A slot changes only under a writer whose ticket maps to it.\<close>

lemma send_step_slot:
  assumes "send_step N w l r r'"
  obtains (same) "buffer (blk r') = buffer (blk r)" "\<And>a t. wr r' w \<noteq> W_frame a t"
      "\<And>a t. wr r' w \<noteq> W_seq a t"
    | (data) a t where "wr r w = W_write a t" "wr r' w = W_frame a t" "sent r' = sent r"
      "blk r' = upd_slot t (\<lambda>m. m\<lparr>slot_frame := write_frame a (slot_frame m)\<rparr>) (blk r)"
    | (seq) a t where "wr r w = W_frame a t" "wr r' w = W_seq a t" "sent r' = sent r"
      "blk r' = upd_slot t (\<lambda>m. m\<lparr>sequence_id := t\<rparr>) (blk r)"
  using assms by (cases rule: send_step.cases) auto

text \<open>Two tickets in flight, or one in flight and an unread message, never share a slot.\<close>

lemma tickets_apart:
  assumes N: "N \<le> BUFFER_SLOTS" and lock: "inv_lock N r" and tk: "inv_tickets r"
    and w: "ticket (wr r w) = Some (a, t)" and v: "ticket (wr r v) = Some (b, u)" and "v \<noteq> w"
  shows "u mod BUFFER_SLOTS \<noteq> t mod BUFFER_SLOTS"
proof (rule mod_apart)
  note D = inv_ticketsD(2) [OF tk w] inv_ticketsD(2) [OF tk v]
  show "u \<noteq> t" using inv_ticketsD(3) [OF tk w] v assms(6) by blast
  show "u < t + BUFFER_SLOTS" "t < u + BUFFER_SLOTS"
    using D tickets_bounded [OF lock tk, of t] tickets_bounded [OF lock tk, of u] N by linarith+
qed

lemma unread_apart:
  assumes N: "N \<le> BUFFER_SLOTS" and lock: "inv_lock N r" and tk: "inv_tickets r"
    and w: "ticket (wr r w) = Some (a, t)" and nseq: "wr r w \<noteq> W_seq a t"
    and s: "lr < s" "written r s" and t: "t \<le> lr + BUFFER_SLOTS"
  shows "s mod BUFFER_SLOTS \<noteq> t mod BUFFER_SLOTS"
proof (rule mod_apart)
  note D = inv_ticketsD(2) [OF tk w]
  have "wr r v \<noteq> W_seq b t" for v b
    using inv_ticketsD(3) [OF tk w, of v b] inv_ticketsD(2) [OF tk, of v b t] D nseq by auto
  then show "s \<noteq> t" using s(2) D unfolding written_def by (metis leD)
  show "s < t + BUFFER_SLOTS"
    using D tickets_bounded [OF lock tk written_less_claim [OF tk s(2)]] N by linarith
  show "t < s + BUFFER_SLOTS" using s t by linarith
qed

lemma inv_slots_client:
  assumes step: "client_step c l r r'" "c < MAX_CLIENTS" and disc: "disciplined l r"
    and reg: "inv_reg r" and quiet: "inv_quiet r" and inv: "inv_slots r"
  shows "inv_slots r'"
proof -
  note fr = client_step_frame [OF step(1)]
  have same: "holds r' = holds r" "written r' = written r" using fr by (auto simp: holds_def written_def fun_eq_iff)
  have "holds r s \<and> sequence_id (slot r s) = s" if m: "member r' d" "last_read r' d < s" "written r s" for d s
    using client_step_member [OF step disc reg quiet m(1)]
  proof
    assume "member r d \<and> last_read r d \<le> last_read r' d"
    then show ?thesis using inv_slotsD(3) [OF inv, of d s] m by simp
  next
    assume "publish r = 0 \<and> last_read r' d = 0"
    then obtain w a where "wr r w = W_seq a s" using m(3) unfolding written_def by auto
    then show ?thesis using inv_slotsD(2) [OF inv] by blast
  qed
  then show ?thesis using inv fr unfolding inv_slots_def same by simp
qed

lemma sent_kept:
  assumes "send_step N w l r r'" "inv_lock N r" "s < claim r"
  shows "sent r' s = sent r s"
  using assms(1) by (cases rule: send_step.cases) (use assms inv_lock_loaded [OF assms(2)] in auto)

lemma ticket_frame_seq:
  "p = W_write a t \<Longrightarrow> ticket p = Some (a, t)" "p = W_frame a t \<Longrightarrow> ticket p = Some (a, t)"
  "p = W_seq a t \<Longrightarrow> ticket p = Some (a, t)"
  by simp_all

text \<open>
  A writer that touches slot \<open>t\<close> leaves the slots of all other tickets in flight and of all unread
  messages as they are.
\<close>

lemma slot_write_frame:
  assumes N: "N \<le> BUFFER_SLOTS" and lock: "inv_lock N r" and tk: "inv_tickets r" and room: "inv_room r"
    and w: "wr r w = W_write a t \<or> wr r w = W_frame a t"
    and b: "blk r' = upd_slot t f (blk r)" and sent: "sent r' = sent r"
  shows "v \<noteq> w \<Longrightarrow> ticket (wr r v) = Some (b, u) \<Longrightarrow> slot r' u = slot r u \<and> (holds r' u \<longleftrightarrow> holds r u)"
    and "member r c \<Longrightarrow> last_read r c < s \<Longrightarrow> written r s \<Longrightarrow> slot r' s = slot r s \<and> (holds r' s \<longleftrightarrow> holds r s)"
proof -
  have tw: "ticket (wr r w) = Some (a, t)" "wr r w \<noteq> W_seq a t" using w by auto
  show "slot r' u = slot r u \<and> (holds r' u \<longleftrightarrow> holds r u)" if "v \<noteq> w" "ticket (wr r v) = Some (b, u)"
    using tickets_apart [OF N lock tk tw(1) that(2,1)] b sent by (simp add: holds_def)
  show "slot r' s = slot r s \<and> (holds r' s \<longleftrightarrow> holds r s)" if m: "member r c" "last_read r c < s" "written r s"
  proof -
    have "room c (last_read r c) (wr r w)" using room m(1) unfolding inv_room_def by blast
    then have "t \<le> last_read r c + BUFFER_SLOTS" using w by auto
    from unread_apart [OF N lock tk tw m(2,3) this] show ?thesis using b sent by (simp add: holds_def)
  qed
qed

lemma inv_slots_writer:
  assumes step: "send_step N w l r r'" and disc: "disciplined l r" and N: "N \<le> BUFFER_SLOTS"
    and lock: "inv_lock N r" and tk: "inv_tickets r" and room: "inv_room r" and inv: "inv_slots r"
  shows "inv_slots r'"
proof -
  note other = send_step_frame(1) [OF step] and mem = send_step_member [OF step]
  note I = inv_slotsD [OF inv] and wr' = send_step_written [OF step disciplined_no_loss [OF disc] tk]
  from step show ?thesis
  proof (cases rule: send_step_slot)
    case same
    have h: "holds r' s \<longleftrightarrow> holds r s" if "s < claim r" for s
      using same sent_kept [OF step lock that] by (simp add: holds_def)
    have v: "v \<noteq> w \<and> wr r v = W_frame a t \<and> t < claim r" if "wr r' v = W_frame a t" for v a t
      using same that other [of v] inv_ticketsD(2) [OF tk ticket_frame_seq(2)] by (cases "v = w") auto
    have u: "v \<noteq> w \<and> wr r v = W_seq a t \<and> t < claim r" if "wr r' v = W_seq a t" for v a t
      using same that other [of v] inv_ticketsD(2) [OF tk ticket_frame_seq(3)] by (cases "v = w") auto
    have wt: "written r' s \<longleftrightarrow> written r s" for s using wr' same by blast
    show ?thesis
    proof (rule inv_slotsI)
      show "holds r' t" if "wr r' x = W_frame a t" for x a t using v [OF that] I(1) h by blast
      show "holds r' t \<and> sequence_id (slot r' t) = t" if "wr r' x = W_seq a t" for x a t
        using u [OF that] I(2) h same(1) by auto
      show "holds r' s \<and> sequence_id (slot r' s) = s" if "member r' c" "last_read r' c < s" "written r' s" for c s
        using that I(3) [of c s] h [OF written_less_claim [OF tk]] mem wt same(1) by simp
    qed
  next
    case (data a t)
    note W = slot_write_frame [OF N lock tk room disjI1 [OF data(1)] data(4,3)]
    have h: "holds r' t" using data inv_ticketsD(2) [OF tk ticket_frame_seq(1) [OF data(1)]] by (simp add: holds_def)
    have wt: "written r' s \<longleftrightarrow> written r s" for s using wr' data by simp
    show ?thesis
    proof (rule inv_slotsI)
      show "holds r' u" if "wr r' x = W_frame b u" for x b u
        using that data h other [of x] W(1) [OF _ ticket_frame_seq(2)] I(1) [of x] by (cases "x = w") auto
      show "holds r' u \<and> sequence_id (slot r' u) = u" if "wr r' x = W_seq b u" for x b u
        using that data other [of x] W(1) [OF _ ticket_frame_seq(3)] I(2) [of x] by (cases "x = w") auto
      show "holds r' s \<and> sequence_id (slot r' s) = s" if "member r' c" "last_read r' c < s" "written r' s" for c s
        using that I(3) [of c s] W(2) [of c s] mem wt by auto
    qed
  next
    case (seq a t)
    note W = slot_write_frame [OF N lock tk room disjI2 [OF seq(1)] seq(4,3)]
    have h: "holds r' t \<and> sequence_id (slot r' t) = t" using seq I(1) by (simp add: holds_def)
    have wt: "written r' s \<longleftrightarrow> written r s \<or> s = t" for s using wr' seq by auto
    show ?thesis
    proof (rule inv_slotsI)
      show "holds r' u" if "wr r' x = W_frame b u" for x b u
        using that seq other [of x] W(1) [OF _ ticket_frame_seq(2)] I(1) [of x] by (cases "x = w") auto
      show "holds r' u \<and> sequence_id (slot r' u) = u" if "wr r' x = W_seq b u" for x b u
        using that seq h other [of x] W(1) [OF _ ticket_frame_seq(3)] I(2) [of x] by (cases "x = w") auto
      show "holds r' s \<and> sequence_id (slot r' s) = s" if "member r' c" "last_read r' c < s" "written r' s" for c s
        using that h I(3) [of c s] W(2) [of c s] mem wt by (cases "s = t") auto
    qed
  qed
qed

end
