(* ===== verification/Shm_Ring_Safety.thy ===== *)
theory Shm_Ring_Safety
  imports Shm_Ring_Inv Shm_Data_Path
begin

text \<open>
  What the clients of the circular buffer see: the second half of the invariant (views, delivered
  frames), its proof for every reachable state, and the properties of the buffer that follow from it.
\<close>

section \<open>Views and deliveries\<close>

lemma inv_ids_step:
  assumes step: "ring_step N l r r'" and disc: "disciplined l r" and tk: "inv_tickets r" and inv: "inv_ids r"
  shows "inv_ids r'"
  using step
proof cases
  case (client c)
  then show ?thesis using inv client_step_frame [OF client(2)] by (simp add: inv_ids_def written_def)
next
  case (writer w)
  note wt = send_step_written [OF writer disciplined_no_loss [OF disc] tk]
  have mono: "written r s \<Longrightarrow> written r' s" for s using wt by blast
  from writer show ?thesis
  proof (cases rule: send_step_slot)
    case (seq a t)
    then have "written r' t" using wt by blast
    then show ?thesis using inv mono seq(4) by (auto simp: inv_ids_def)
  qed (use inv mono in \<open>auto simp: inv_ids_def\<close>)
qed

definition inv_view :: "ring \<Rightarrow> nat \<Rightarrow> bool" where
  "inv_view r c \<longleftrightarrow> (cl r c = C_active \<longrightarrow>
     last_read r c < nxt r c \<and> (\<forall>q. live (vw r c q) \<longrightarrow> last_read r c < q \<and> q < nxt r c) \<and>
     (\<forall>q. 0 < q \<longrightarrow> q < nxt r c \<longrightarrow> written r q))"

definition inv_got :: "ring \<Rightarrow> nat \<Rightarrow> bool" where
  "inv_got r c \<longleftrightarrow> (cl r c = C_active \<longrightarrow> Suc (length (got r c)) = nxt r c \<and>
     (\<forall>i<length (got r c). frame_holds (sent r (Suc i)) (got r c ! i)))"

lemma inv_viewD:
  assumes "inv_view r c" "cl r c = C_active"
  shows "last_read r c < nxt r c" and "live (vw r c q) \<Longrightarrow> last_read r c < q \<and> q < nxt r c"
    and "0 < q \<Longrightarrow> q < nxt r c \<Longrightarrow> written r q"
  using assms unfolding inv_view_def by blast+

lemma delivered_written:
  "inv_ids r \<Longrightarrow> sequence_id (slot r q) = q \<Longrightarrow> 0 < q \<Longrightarrow> written r q"
  by (metis BUFFER_SLOTS_def inv_ids_def less_not_refl mod_less_divisor zero_less_numeral)

lemma inv_view_client:
  assumes step: "client_step c l r r'" "c < MAX_CLIENTS" and disc: "disciplined l r"
    and reg: "inv_reg r" and ids: "inv_ids r" and inv: "inv_view r c"
  shows "inv_view r' c"
proof -
  note fr = client_step_frame [OF step(1)] and V = inv_viewD [OF inv]
  have wt: "written r' = written r" using fr by (auto simp: written_def fun_eq_iff)
  show ?thesis using step(1) unfolding inv_view_def wt
  proof (cases rule: client_step.cases)
    case reg_store
    then show "cl r' c = C_active \<longrightarrow> last_read r' c < nxt r' c \<and>
        (\<forall>q. live (vw r' c q) \<longrightarrow> last_read r' c < q \<and> q < nxt r' c) \<and> (\<forall>q. 0 < q \<longrightarrow> q < nxt r' c \<longrightarrow> written r q)"
      using inv_regD(2) [OF reg step(2)] by auto
  next
    case deliver
    have "written r (nxt r c)" using V(1) deliver delivered_written [OF ids deliver(5)] by linarith
    then show "cl r' c = C_active \<longrightarrow> last_read r' c < nxt r' c \<and>
        (\<forall>q. live (vw r' c q) \<longrightarrow> last_read r' c < q \<and> q < nxt r' c) \<and> (\<forall>q. 0 < q \<longrightarrow> q < nxt r' c \<longrightarrow> written r q)"
      using V deliver by (auto simp: less_Suc_eq)
  next
    case (rel_store q b)
    then have "q = Suc (last_read r c)" using disc by (simp add: disciplined_def)
    then show "cl r' c = C_active \<longrightarrow> last_read r' c < nxt r' c \<and>
        (\<forall>q. live (vw r' c q) \<longrightarrow> last_read r' c < q \<and> q < nxt r' c) \<and> (\<forall>q. 0 < q \<longrightarrow> q < nxt r' c \<longrightarrow> written r q)"
      using V(2) [of q] V(2,3) rel_store by (auto simp: Suc_lessI)
  qed (use V in \<open>auto split: if_splits\<close>)
qed

lemma inv_view_step:
  assumes step: "ring_step N l r r'" and disc: "disciplined l r" and tk: "inv_tickets r"
    and reg: "inv_reg r" and ids: "inv_ids r" and inv: "\<forall>c<MAX_CLIENTS. inv_view r c"
  shows "\<forall>c<MAX_CLIENTS. inv_view r' c"
  using step
proof cases
  case (writer w)
  then show ?thesis using inv send_step_frame [OF writer]
      send_step_written [OF writer disciplined_no_loss [OF disc] tk] by (simp add: inv_view_def)
next
  case (client c)
  note fr = client_step_frame [OF client(2)]
  have "inv_view r' d" if "d \<noteq> c" "d < MAX_CLIENTS" for d
    using inv that fr by (simp add: inv_view_def written_def)
  then show ?thesis using inv_view_client [OF client(2,1) disc reg ids] inv client(1) by metis
qed

lemma all_nth_snoc: "\<forall>i<length xs. P (Suc i) (xs ! i) \<Longrightarrow> P (Suc (length xs)) x \<Longrightarrow>
    \<forall>i<length (xs @ [x]). P (Suc i) ((xs @ [x]) ! i)"
  by (auto simp: nth_append less_Suc_eq)

lemma inv_got_client:
  assumes step: "client_step c l r r'" "c < MAX_CLIENTS"
    and slots: "inv_slots r" and ids: "inv_ids r" and view: "inv_view r c" and inv: "inv_got r c"
  shows "inv_got r' c"
  using step(1)
proof (cases rule: client_step.cases)
  case deliver
  note V = inv_viewD [OF view deliver(3)]
  have "written r (nxt r c)" using V(1) delivered_written [OF ids deliver(5)] by linarith
  moreover have "member r c" using deliver step(2) by (simp add: member_def)
  ultimately have "frame_holds (sent r (nxt r c)) (slot_frame (slot r (nxt r c)))"
    using inv_slotsD(3) [OF slots _ V(1)] by (simp add: holds_def)
  moreover have n: "Suc (length (got r c)) = nxt r c"
    and old: "\<forall>i<length (got r c). frame_holds (sent r (Suc i)) (got r c ! i)"
    using inv deliver(3) unfolding inv_got_def by blast+
  ultimately have new: "frame_holds (sent r (Suc (length (got r c)))) (slot_frame (slot r (nxt r c)))" by metis
  have eq: "got r' c = got r c @ [slot_frame (slot r (nxt r c))]" "nxt r' c = Suc (nxt r c)" "sent r' = sent r"
    using deliver(2) by simp_all
  show ?thesis unfolding inv_got_def eq
    using all_nth_snoc [of "got r c" "\<lambda>k. frame_holds (sent r k)", OF old new] n by (metis length_append_singleton)
qed (use inv in \<open>auto simp: inv_got_def\<close>)

lemma inv_got_step:
  assumes step: "ring_step N l r r'" and lock: "inv_lock N r" and tk: "inv_tickets r"
    and slots: "inv_slots r" and ids: "inv_ids r" and view: "\<forall>c<MAX_CLIENTS. inv_view r c"
    and inv: "\<forall>c<MAX_CLIENTS. inv_got r c"
  shows "\<forall>c<MAX_CLIENTS. inv_got r' c"
  using step
proof cases
  case (writer w)
  have "sent r' (Suc i) = sent r (Suc i)"
    if "c < MAX_CLIENTS" "cl r c = C_active" "i < length (got r c)" for c i
  proof -
    have "Suc i < nxt r c" using inv that unfolding inv_got_def by (metis Suc_mono)
    then have "written r (Suc i)" using inv_viewD(3) [of r c "Suc i"] view that by simp
    from written_less_claim [OF tk this] show ?thesis by (rule sent_kept [OF writer lock])
  qed
  then show ?thesis using inv send_step_frame [OF writer] by (simp add: inv_got_def)
next
  case (client c)
  note fr = client_step_frame [OF client(2)]
  have "inv_got r' d" if "d \<noteq> c" "d < MAX_CLIENTS" for d
    using inv that fr by (simp add: inv_got_def)
  then show ?thesis using inv_got_client [OF client(2,1) slots ids] view inv client(1) by metis
qed

section \<open>Wake-up tokens\<close>

text \<open>
  Each published message gives every client at most one token, counted from the publication on: it
  is in the writer's list of operations, in the client's semaphore, or spent on a delivery.
\<close>

primrec pend :: "nat \<Rightarrow> wpc \<Rightarrow> nat" where
  "pend c (W_collect t i ops) = (if i \<le> c then 1 else count_list ops c)"
| "pend c W_idle = 0"
| "pend c (W_claiming a) = 0"
| "pend c (W_loaded a t) = 0"
| "pend c (W_stored a t) = 0"
| "pend c (W_scan a t i slow act) = 0"
| "pend c (W_seen a t i slow) = 0"
| "pend c (W_blocked a t) = 0"
| "pend c (W_write a t) = 0"
| "pend c (W_frame a t) = 0"
| "pend c (W_seq a t) = 0"

definition spent :: "ring \<Rightarrow> nat \<Rightarrow> nat" where
  "spent r c = (if cl r c = C_active then (if rd r c = R_check then 1 else 0) + (nxt r c - 1) else 0)"

definition tokens :: "nat \<Rightarrow> ring \<Rightarrow> nat \<Rightarrow> nat" where
  "tokens N r c = sems r (CONTROL_SEMS + c) + (\<Sum>w<N. pend c (wr r w)) + spent r c"

definition inv_tokens :: "nat \<Rightarrow> ring \<Rightarrow> bool" where
  "inv_tokens N r \<longleftrightarrow> (\<forall>w t i ops. wr r w = W_collect t i ops \<longrightarrow> (\<forall>k\<in>set ops. k < i)) \<and>
     (\<forall>c<MAX_CLIENTS. tokens N r c \<le> publish r)"

lemma sum_change_one:
  fixes f :: "'a \<Rightarrow> nat"
  assumes "w < (N::nat)" "\<And>v. v \<noteq> w \<Longrightarrow> g' v = g v"
  shows "(\<Sum>v<N. f (g' v)) + f (g w) = (\<Sum>v<N. f (g v)) + f (g' w)"
proof -
  have "(\<Sum>v\<in>{..<N} - {w}. f (g' v)) = (\<Sum>v\<in>{..<N} - {w}. f (g v))" by (rule sum.cong) (use assms in auto)
  then show ?thesis using assms(1) by (simp add: sum.remove [of _ w])
qed

lemma count_list_map_plus: "count_list (map ((+) k) ops) (k + c) = count_list ops (c::nat)"
  by (induction ops) auto

lemma inv_tokens_writer:
  assumes step: "send_step N w l r r'" and disc: "disciplined l r" and lock: "inv_lock N r"
    and tk: "inv_tickets r" and inv: "inv_tokens N r"
  shows "inv_tokens N r'"
proof -
  note fr = send_step_frame [OF step]
  have w: "w < N" using lock send_step_id [OF step] unfolding inv_lock_def by blast
  have old: "k < i" if "wr r v = W_collect t i ops" "k \<in> set ops" for v t i ops k
    using inv that unfolding inv_tokens_def by blast
  have "k < i" if "wr r' v = W_collect t i ops" "k \<in> set ops" for v t i ops k
  proof (cases "v = w")
    case True
    from step show ?thesis
      by (cases rule: send_step.cases) (use that True old [of w] in \<open>auto split: if_splits simp: less_Suc_eq\<close>)
  qed (use that old fr(1) in metis)
  moreover have "tokens N r' c \<le> publish r'" if c: "c < MAX_CLIENTS" for c
  proof -
    have none: "count_list ops c = 0" if "wr r w = W_collect t i ops" "i \<le> c" for t i ops
      using old [OF that(1), of c] that(2) by (auto simp: count_list_0_iff)
    have pos: "0 < t" if "wr r w = W_seq a t" for a t using inv_ticketsD(2) [OF tk, of w a t] that by simp
    have "sems r' (CONTROL_SEMS + c) + pend c (wr r' w) + publish r \<le> sems r (CONTROL_SEMS + c) + pend c (wr r w) + publish r'"
      using step
      by (cases rule: send_step.cases)
        (use c none pos in \<open>auto simp: count_list_map_plus\<close>)
    moreover have "spent r' c = spent r c" using fr by (simp add: spent_def)
    moreover have "tokens N r c \<le> publish r" using inv c unfolding inv_tokens_def by blast
    ultimately show ?thesis
      using sum_change_one [of w N "wr r'" "wr r" "pend c", OF w fr(1)] unfolding tokens_def by linarith
  qed
  ultimately show ?thesis unfolding inv_tokens_def by blast
qed

lemma inv_tokens_client:
  assumes step: "client_step c l r r'" "c < MAX_CLIENTS" and view: "inv_view r c" and inv: "inv_tokens N r"
  shows "inv_tokens N r'"
proof -
  note fr = client_step_frame [OF step(1)]
  have "sems r' (CONTROL_SEMS + d) + spent r' d \<le> sems r (CONTROL_SEMS + d) + spent r d" for d
    using step(1) by (cases rule: client_step.cases) (use inv_viewD(1) [OF view] in \<open>auto simp: spent_def\<close>)
  note this [THEN add_right_mono]
  then have "tokens N r' d \<le> tokens N r d" for d
    unfolding tokens_def fr(1) by (metis (no_types, lifting) add.assoc add.commute)
  then show ?thesis using inv fr unfolding inv_tokens_def by (metis le_trans)
qed

section \<open>The invariant of reachable states\<close>

definition fresh_ipc :: "ipc \<Rightarrow> bool" where
  "fresh_ipc s \<longleftrightarrow> claim_sequence_id (blk s) = 1 \<and> publish_sequence_id (blk s) = 0 \<and> sems s CLAIM_SEM = 1 \<and>
     (\<forall>c<MAX_CLIENTS. \<not> cl_active (client_registry (blk s) c) \<and>
        last_read_sequence_id (client_registry (blk s) c) = 0 \<and> sems s (CONTROL_SEMS + c) = 0) \<and>
     (\<forall>k<BUFFER_SLOTS. sequence_id (buffer (blk s) k) = 0)"

definition ring_inv :: "nat \<Rightarrow> ring \<Rightarrow> bool" where
  "ring_inv N r \<longleftrightarrow> inv_lock N r \<and> inv_tickets r \<and> inv_quiet r \<and> inv_reg r \<and> inv_room r \<and> inv_slots r \<and>
     inv_ids r \<and> (\<forall>c<MAX_CLIENTS. inv_view r c) \<and> (\<forall>c<MAX_CLIENTS. inv_got r c) \<and> inv_tokens N r"

lemma ring_invD:
  assumes "ring_inv N r"
  shows "inv_lock N r" "inv_tickets r" "inv_quiet r" "inv_reg r" "inv_room r" "inv_slots r" "inv_ids r"
    "\<forall>c<MAX_CLIENTS. inv_view r c" "\<forall>c<MAX_CLIENTS. inv_got r c" "inv_tokens N r"
  using assms unfolding ring_inv_def by blast+

lemma ring_inv_init:
  assumes "fresh_ipc s"
  shows "ring_inv N (ring_init s g)"
  using assms unfolding ring_inv_def fresh_ipc_def ring_init_def
  by (auto simp: ipc.defs inv_lock_def inv_tickets_def inv_quiet_def inv_reg_def inv_room_def inv_slots_def
      inv_ids_def inv_view_def inv_got_def member_def inv_tokens_def tokens_def spent_def intro: exI [of _ None])

lemma ring_inv_step:
  assumes "ring_step N l r r'" "disciplined l r" "N \<le> BUFFER_SLOTS" and inv: "ring_inv N r"
  shows "ring_inv N r'"
proof -
  note I = ring_invD [OF inv]
  have "inv_slots r'" using assms(1)
    by cases (use I inv_slots_writer [OF _ assms(2,3) I(1,2,5,6)] inv_slots_client [OF _ _ assms(2) I(4,3,6)] in auto)
  moreover have "inv_tokens N r'" using assms(1)
    by cases (use I inv_tokens_writer [OF _ assms(2) I(1,2,10)] inv_tokens_client [OF _ _ _ I(10)] in auto)
  ultimately show ?thesis unfolding ring_inv_def
    using inv_lock_step [OF assms(1,2) I(1)] inv_tickets_step [OF assms(1,2) I(1,2)]
      inv_quiet_step [OF assms(1,2) I(2,4,3)] inv_reg_step [OF assms(1,2) I(3,4)]
      inv_room_step [OF assms(1-3) I(1,2,4,3,5)] inv_ids_step [OF assms(1,2) I(2,7)]
      inv_view_step [OF assms(1,2) I(2,4,7,8)] inv_got_step [OF assms(1) I(1,2,6,7,8,9)] by blast
qed

lemma ring_inv_reach:
  assumes "ring_reach N (ring_init s g) r" "fresh_ipc s" "N \<le> BUFFER_SLOTS"
  shows "ring_inv N r"
  using assms(1) by induction (use ring_inv_init [OF assms(2)] ring_inv_step assms(3) in auto)

text \<open>
  The kernel hands out zeroed segments; when every call of the bootstrap succeeds, its result
  satisfies the initial condition of the invariant.
\<close>

definition boot_ok :: "boot_os \<Rightarrow> bool" where
  "boot_ok os \<longleftrightarrow> shmget_ok os \<and> shmat_ok os \<and> semget_ok os \<and> (\<forall>k \<in> set [0..<CONTROL_SEMS + MAX_CLIENTS]. semctl_ok os k)"

definition zeroed_ring :: "shared_block \<Rightarrow> bool" where
  "zeroed_ring b \<longleftrightarrow> (\<forall>k \<in> set [0..<BUFFER_SLOTS]. sequence_id (buffer b k) = 0)"

definition ring_boot :: "boot_os \<Rightarrow> shared_block \<Rightarrow> (nat \<Rightarrow> nat) \<Rightarrow> (nat \<Rightarrow> send_args) \<Rightarrow> ring" where
  "ring_boot os b0 s0 g = ring_init (snd (bootstrapIPC os b0 s0)) g"

lemma boot_fresh:
  assumes "boot_ok os" "zeroed_ring b0"
  shows "fresh_ipc (snd (bootstrapIPC os b0 s0))"
proof -
  let ?s = "s0(0 := 1, 1 := 1, 2 := 1, 3 := 0)"
  have "semctl_ok os (CONTROL_SEMS + i)" if "i < MAX_CLIENTS" for i
    using assms(1) that unfolding boot_ok_def by simp
  moreover have "semctl_ok os k" if "k < 4" for k
    using assms(1) that unfolding boot_ok_def by (simp add: shm_simps)
  ultimately show ?thesis using assms init_client_sems_all [of "[0..<MAX_CLIENTS]" "semctl_ok os" _ ?s]
      init_client_sems_other [of "[0..<MAX_CLIENTS]" CLAIM_SEM "semctl_ok os" ?s]
    by (simp add: fresh_ipc_def bootstrapIPC_def Let_def boot_ok_def zeroed_ring_def init_block_def
        REGISTRY_SEM_def CLAIM_SEM_def DIRECTORY_SEM_def WRITER_WAIT_SEM_def CONTROL_SEMS_def)
qed

lemmas ring_boot_inv = ring_inv_reach [OF _ boot_fresh, folded ring_boot_def]

section \<open>Properties of the buffer\<close>

text \<open>
  C9. Mutual exclusion of slots: in every state reachable from a successful bootstrap by disciplined
  use with at most 32 concurrent writers, the frame behind every view a client still holds is the
  one sent under that sequence number, and no writer that passed its check works on that slot.
\<close>

theorem held_frames_stable:
  assumes "boot_ok os" "zeroed_ring b0" "N \<le> BUFFER_SLOTS" "ring_reach N (ring_boot os b0 s0 g) r"
    and "c < MAX_CLIENTS" "cl r c = C_active" "live (vw r c q)"
  shows "sequence_id (slot r q) = q \<and> frame_holds (sent r q) (slot_frame (slot r q)) \<and>
    (\<forall>w a t. wr r w = W_write a t \<or> wr r w = W_frame a t \<longrightarrow> t mod BUFFER_SLOTS \<noteq> q mod BUFFER_SLOTS)"
proof -
  note I = ring_invD [OF ring_boot_inv [OF assms(4,1,2,3)]]
  have V: "last_read r c < q" "q < nxt r c" "written r q"
    using inv_viewD(2) [OF I(8) [rule_format, OF assms(5)] assms(6,7)]
      inv_viewD(3) [OF I(8) [rule_format, OF assms(5)] assms(6)] by auto
  have m: "member r c" using assms(5,6) by (simp add: member_def)
  have "q mod BUFFER_SLOTS \<noteq> t mod BUFFER_SLOTS" if w: "wr r w = W_write a t \<or> wr r w = W_frame a t" for w a t
  proof -
    have "room c (last_read r c) (wr r w)" using I(5) m unfolding inv_room_def by blast
    then have "t \<le> last_read r c + BUFFER_SLOTS" using w by auto
    then show ?thesis using unread_apart [OF assms(3) I(1,2) _ _ V(1,3), of w a t] w by auto
  qed
  then show ?thesis using inv_slotsD(3) [OF I(6) m V(1,3)] by (metis holds_def)
qed

text \<open>
  C10. Every client is handed a prefix of the published messages, in ticket order, each exactly once
  and with the header, length and bytes that were sent: the buffer refines a broadcast log that
  every client reads from its beginning.
\<close>

theorem clients_read_broadcast_log:
  assumes "boot_ok os" "zeroed_ring b0" "N \<le> BUFFER_SLOTS" "ring_reach N (ring_boot os b0 s0 g) r"
    and "c < MAX_CLIENTS" "cl r c = C_active"
  shows "length (got r c) \<le> publish r \<and>
    list_all2 frame_holds (take (length (got r c)) (map (sent r) [1..<Suc (publish r)])) (got r c)"
proof -
  note I = ring_invD [OF ring_boot_inv [OF assms(4,1,2,3)]]
  have g: "Suc (length (got r c)) = nxt r c" "\<forall>i<length (got r c). frame_holds (sent r (Suc i)) (got r c ! i)"
    using I(9) assms(5,6) unfolding inv_got_def by auto
  have "tokens N r c \<le> publish r" using I(10) assms(5) unfolding inv_tokens_def by blast
  then have "length (got r c) \<le> publish r" using assms(6) g(1) unfolding tokens_def spent_def by simp
  then show ?thesis using g(2) by (auto simp: list_all2_conv_all_nth simp del: upt_Suc)
qed

text \<open>
  C25. Tickets: the sends in flight hold pairwise different tickets, exactly those between the publish
  and the claim counter, and there are never more of them than writers; a ticket once drawn is
  neither lost nor drawn twice.
\<close>

theorem tickets_in_flight:
  assumes "boot_ok os" "zeroed_ring b0" "N \<le> BUFFER_SLOTS" "ring_reach N (ring_boot os b0 s0 g) r"
  shows "{t. \<exists>w a. ticket (wr r w) = Some (a, t)} = {publish r<..<claim r} \<and>
    (\<forall>w v a b t. ticket (wr r w) = Some (a, t) \<and> ticket (wr r v) = Some (b, t) \<longrightarrow> w = v \<and> a = sent r t) \<and>
    publish r < claim r \<and> claim r \<le> Suc (publish r + N)"
proof -
  note I = ring_invD [OF ring_boot_inv [OF assms(4,1,2,3)]]
  note D = inv_ticketsD [OF I(2)]
  have "claim r - 1 \<le> publish r + N" using tickets_bounded [OF I(1,2), of "claim r - 1"] D(1) by simp
  then have "claim r \<le> Suc (publish r + N)" by simp
  moreover have "{t. \<exists>w a. ticket (wr r w) = Some (a, t)} = {publish r<..<claim r}" using D(2,4) by fastforce
  ultimately show ?thesis using D(1,2,3) by blast
qed

section \<open>A concrete run\<close>

text \<open>Bootstrap, registration of client 0, one complete send, and its delivery to client 0.\<close>

definition sample_boot :: boot_os where
  "sample_boot = \<lparr>shmget_ok = True, shmat_ok = True, semget_ok = True, semctl_ok = (\<lambda>k. True)\<rparr>"

definition sample_msg :: send_args where
  "sample_msg = \<lparr>sa_src = LOCAL_ADDR, sa_dst = BROADCAST_ADDR, sa_proto = 0x8888, sa_data = [1, 2, 3]\<rparr>"

definition sample_r0 :: ring where
  "sample_r0 = ring_boot sample_boot sample_block (\<lambda>_. 0) (\<lambda>_. sample_msg)"

definition sample_r1 :: ring where
  "sample_r1 = sample_r0\<lparr>blk := set_client 0 (\<lambda>s. s\<lparr>cl_active := True, process_id := 7\<rparr>) (blk sample_r0),
     cl := (cl sample_r0)(0 := C_activating)\<rparr>"

definition sample_r2 :: ring where
  "sample_r2 = sample_r1\<lparr>cl := (cl sample_r1)(0 := C_loaded (publish sample_r1))\<rparr>"

definition sample_r3 :: ring where
  "sample_r3 = sample_r2\<lparr>blk := set_client 0 (\<lambda>s. s\<lparr>last_read_sequence_id := 0\<rparr>) (blk sample_r2),
      cl := (cl sample_r2)(0 := C_active), rd := (rd sample_r2)(0 := R_wait), nxt := (nxt sample_r2)(0 := 1),
      vw := (vw sample_r2)(0 := (\<lambda>_. V_none)), got := (got sample_r2)(0 := [])\<rparr>"

definition sample_sent :: ipc where
  "sample_sent = fst (the (shm_send all_ok sample_msg (ipc.truncate sample_r3)))"

definition sample_r4 :: ring where
  "sample_r4 = sample_r3\<lparr>sent := (sent sample_r3)(claim sample_r3 := sample_msg), blk := blk sample_sent, sems := sems sample_sent\<rparr>"

definition sample_r5 :: ring where
  "sample_r5 = sample_r4\<lparr>sems := (sems sample_r4)(CONTROL_SEMS + 0 := sems sample_r4 (CONTROL_SEMS + 0) - 1),
      rd := (rd sample_r4)(0 := R_check)\<rparr>"

definition sample_r6 :: ring where
  "sample_r6 = sample_r5\<lparr>rd := (rd sample_r5)(0 := R_wait), nxt := (nxt sample_r5)(0 := Suc (nxt sample_r5 0)),
      vw := (vw sample_r5)(0 := (vw sample_r5 0)(nxt sample_r5 0 := V_held)),
      got := (got sample_r5)(0 := got sample_r5 0 @ [slot_frame (slot sample_r5 (nxt sample_r5 0))])\<rparr>"

lemmas sample_rings = sample_r0_def sample_r1_def sample_r2_def sample_r3_def sample_r4_def sample_r5_def sample_r6_def

lemma sample_boot_ok: "boot_ok sample_boot" "zeroed_ring sample_block"
  by (simp_all add: boot_ok_def zeroed_ring_def sample_boot_def sample_block_def)

lemma sample_r0_fields:
  "sems sample_r0 CLAIM_SEM = 1" "claim sample_r0 = 1" "publish sample_r0 = 0" "sems sample_r0 CONTROL_SEMS = 0"
  "c < MAX_CLIENTS \<Longrightarrow> \<not> active sample_r0 c" "cl sample_r0 c = C_absent" "wr sample_r0 w = W_idle"
proof -
  note fresh = boot_fresh [OF sample_boot_ok, of "\<lambda>_. 0", unfolded fresh_ipc_def]
  note simps = sample_r0_def ring_boot_def ring_init_def ipc.defs
  have "sems (snd (bootstrapIPC sample_boot sample_block (\<lambda>_. 0))) (CONTROL_SEMS + 0) = 0"
    using fresh MAX_CLIENTS_def by (metis zero_less_numeral)
  then show "sems sample_r0 CLAIM_SEM = 1" "claim sample_r0 = 1" "publish sample_r0 = 0" "sems sample_r0 CONTROL_SEMS = 0"
    "c < MAX_CLIENTS \<Longrightarrow> \<not> active sample_r0 c" "cl sample_r0 c = C_absent" "wr sample_r0 w = W_idle"
    using fresh by (simp_all add: simps)
qed

lemma sample_r3_fields:
  "sems sample_r3 CLAIM_SEM = 1" "claim sample_r3 = 1" "publish sample_r3 = 0" "sems sample_r3 CONTROL_SEMS = 0"
  "c < MAX_CLIENTS \<Longrightarrow> active sample_r3 c \<longleftrightarrow> c = 0"
  "cl sample_r3 0 = C_active" "rd sample_r3 0 = R_wait" "nxt sample_r3 0 = 1" "wr sample_r3 w = W_idle"
  "got sample_r3 0 = []"
  using sample_r0_fields by (auto simp: sample_r1_def sample_r2_def sample_r3_def)

lemma sample_reach3: "ring_reach N sample_r0 sample_r3"
proof -
  have z: "(0::nat) < MAX_CLIENTS" by (simp add: shm_simps)
  have "free_client_slot (blk sample_r0) = Some 0"
    using sample_r0_fields(5) by (auto simp: free_client_slot_def find_upt_Some_iff z)
  then have "client_step 0 Tau sample_r0 sample_r1" unfolding sample_r1_def
    by (intro client_step.reg_activate) (simp_all add: registry_free_def sample_r0_fields)
  then have "ring_reach N sample_r0 sample_r1" by (rule ring_reach_client [OF z]) (simp add: disciplined_def)
  moreover have "client_step 0 (Reg_load 0) sample_r1 sample_r2" unfolding sample_r2_def
    by (intro client_step.reg_load) (simp add: sample_r1_def)
  then have "ring_reach N sample_r1 sample_r2"
    by (rule ring_reach_client [OF z]) (simp add: disciplined_def sample_r1_def sample_r0_fields)
  moreover have "client_step 0 Tau sample_r2 sample_r3" unfolding sample_r3_def
    by (intro client_step.reg_store) (simp add: sample_r2_def sample_r1_def sample_r0_fields)
  then have "ring_reach N sample_r2 sample_r3" by (rule ring_reach_client [OF z]) (simp add: disciplined_def)
  ultimately show ?thesis by (blast intro: ring_reach_trans)
qed

lemma active_clients_0: "(\<And>c. c < MAX_CLIENTS \<Longrightarrow> cl_active (client_registry b c) \<longleftrightarrow> c = 0) \<Longrightarrow> active_clients_list b = [0]"
  by (simp add: active_clients_list_def upt_conv_Cons shm_simps)

lemma sample_send:
  "shm_send all_ok sample_msg (ipc.truncate sample_r3) = Some (sample_sent, 17)"
  "sems sample_sent CONTROL_SEMS = 1" "sequence_id (buffer (blk sample_sent) 1) = 1"
  "publish_sequence_id (blk sample_sent) = 1"
proof -
  note early = shm_send_early [of "ipc.truncate sample_r3" sample_msg]
  show s: "shm_send all_ok sample_msg (ipc.truncate sample_r3) = Some (sample_sent, 17)"
    using early by (simp add: sample_sent_def ipc.defs sample_r3_fields BUFFER_SLOTS_def sample_msg_def)
  have e: "sample_sent = signal_clients ((ipc.truncate sample_r3)\<lparr>blk := (upd_slot 1
      (\<lambda>m. m\<lparr>slot_frame := write_frame sample_msg (slot_frame m), sequence_id := 1\<rparr>)
      ((blk sample_r3)\<lparr>claim_sequence_id := Suc 1, writer_is_blocked := False\<rparr>))\<lparr>publish_sequence_id := 1\<rparr>\<rparr>)"
    using s early by (simp add: ipc.defs sample_r3_fields BUFFER_SLOTS_def)
  show "sems sample_sent CONTROL_SEMS = 1" "sequence_id (buffer (blk sample_sent) 1) = 1"
    "publish_sequence_id (blk sample_sent) = 1"
    unfolding e by (simp_all add: ipc.defs sample_r3_fields BUFFER_SLOTS_def signal_clients_def active_clients_0)
qed

lemma sample_reach6: "ring_reach 2 (ring_boot sample_boot sample_block (\<lambda>_. 0) (\<lambda>_. sample_msg)) sample_r6"
proof -
  have z: "(0::nat) < MAX_CLIENTS" by (simp add: shm_simps)
  have "ring_reach 2 sample_r3 sample_r4" unfolding sample_r4_def
    using shm_send_run [OF sample_send(1), of 0 2] sample_r3_fields(9) by simp
  moreover have "client_step 0 Tau sample_r4 sample_r5" unfolding sample_r5_def
    by (intro client_step.take_token) (simp_all add: sample_r4_def sample_r3_fields sample_send)
  then have "ring_reach 2 sample_r4 sample_r5" by (rule ring_reach_client [OF z]) (simp add: disciplined_def)
  moreover have "client_step 0 Tau sample_r5 sample_r6" unfolding sample_r6_def
    by (intro client_step.deliver) (use sample_send(3) in \<open>simp_all add: sample_r5_def sample_r4_def sample_r3_fields BUFFER_SLOTS_def\<close>)
  then have "ring_reach 2 sample_r5 sample_r6" by (rule ring_reach_client [OF z]) (simp add: disciplined_def)
  ultimately show ?thesis using sample_reach3 unfolding sample_r0_def by (blast intro: ring_reach_trans)
qed

lemma sample_r6_fields:
  "cl sample_r6 0 = C_active" "vw sample_r6 0 1 = V_held" "publish sample_r6 = 1" "length (got sample_r6 0) = 1"
  "sent sample_r6 1 = sample_msg"
  by (simp_all add: sample_r6_def sample_r5_def sample_r4_def sample_r3_fields sample_send)

lemmas sample_small = BUFFER_SLOTS_def MAX_CLIENTS_def

theorem held_frames_stable_witness: "frame_holds sample_msg (slot_frame (slot sample_r6 1))"
  using held_frames_stable [OF sample_boot_ok _ sample_reach6, of 0 1] sample_r6_fields by (simp add: sample_small)

theorem clients_read_broadcast_log_witness: "\<exists>f. got sample_r6 0 = [f] \<and> frame_holds sample_msg f"
proof -
  obtain f where f: "got sample_r6 0 = [f]" using sample_r6_fields(4) by (metis length_0_conv length_Suc_conv One_nat_def)
  then show ?thesis using clients_read_broadcast_log [OF sample_boot_ok _ sample_reach6, of 0] sample_r6_fields
    by (simp add: sample_small)
qed

theorem tickets_in_flight_witness: "publish sample_r6 < claim sample_r6 \<and> claim sample_r6 \<le> 4"
  using tickets_in_flight [OF sample_boot_ok _ sample_reach6] sample_r6_fields by (simp add: sample_small)

theorem shm_send_is_a_run_witness:
  "\<exists>s' n. shm_send all_ok sample_msg (ipc.truncate sample_r3) = Some (s', n) \<and> n = 17 \<and>
     ring_reach 1 sample_r3 (sample_r3\<lparr>sent := (sent sample_r3)(claim sample_r3 := sample_msg), blk := blk s', sems := sems s'\<rparr>)"
  using shm_send_is_a_run [OF sample_send(1), of 0 1] sample_send(1) sample_r3_fields(9) by simp

end
