(* ===== verification/Shm_Hazards.thy ===== *)
theory Shm_Hazards
  imports Shm_Ring_Safety
begin

text \<open>
  What happens outside the discipline the circular buffer relies on: a frame released after a later
  one, a client that registers after messages were published, and a system call that fails once a
  ticket was drawn.  The statements are about the uninterrupted calls, so each of them is a run of
  the program in which only one process moves.
\<close>

section \<open>The effect of a send\<close>

lemma may_write_flag [simp]: "may_write t (b\<lparr>writer_is_blocked := f\<rparr>) = may_write t b"
proof -
  have "scan_client (b\<lparr>writer_is_blocked := f\<rparr>) = scan_client b" by (intro ext) (simp add: scan_client_def)
  then show ?thesis by (simp add: may_write_def slowest_reader_def)
qed

lemma may_write_claim [simp]: "may_write t (b\<lparr>claim_sequence_id := k\<rparr>) = may_write t b"
proof -
  have "scan_client (b\<lparr>claim_sequence_id := k\<rparr>) = scan_client b" by (intro ext) (simp add: scan_client_def)
  then show ?thesis by (simp add: may_write_def slowest_reader_def)
qed

lemma send_wait_result:
  "send_wait ok t s = (if may_write t (blk s) then Some (s\<lparr>blk := (blk s)\<lparr>writer_is_blocked := False\<rparr>\<rparr>, True)
     else if ok then None else Some (s\<lparr>blk := (blk s)\<lparr>writer_is_blocked := False\<rparr>\<rparr>, False))"
proof (induction ok t s rule: send_wait.induct)
  case (1 ok t s)
  then show ?case by (subst send_wait.simps) simp
qed

lemma foldl_scan_le:
  "snd (foldl (scan_client b) acc is) \<le> snd acc \<and>
   (\<forall>i \<in> set is. cl_active (client_registry b i) \<longrightarrow>
      snd (foldl (scan_client b) acc is) \<le> last_read_sequence_id (client_registry b i) \<and> fst (foldl (scan_client b) acc is)) \<and>
   (fst acc \<longrightarrow> fst (foldl (scan_client b) acc is))"
proof (induction "is" arbitrary: acc)
  case (Cons i js)
  show ?case using Cons [of "scan_client b acc i"] by (auto simp: scan_client_def split: if_splits)
qed simp

lemma may_write_iff_room:
  assumes "c < MAX_CLIENTS" "cl_active (client_registry b c)" "may_write t b"
  shows "t < last_read_sequence_id (client_registry b c) + BUFFER_SLOTS"
proof -
  have "c \<in> set [0..<MAX_CLIENTS]" using assms(1) by simp
  with foldl_scan_le [of b "(False, t)" "[0..<MAX_CLIENTS]"] assms(2,3)
  show ?thesis by (fastforce simp: may_write_def slowest_reader_def split: prod.splits)
qed

lemma foldl_scan_attained:
  "snd (foldl (scan_client b) acc is) = snd acc \<or>
   (\<exists>i \<in> set is. cl_active (client_registry b i) \<and> snd (foldl (scan_client b) acc is) = last_read_sequence_id (client_registry b i))"
proof (induction "is" arbitrary: acc)
  case (Cons i js)
  show ?case using Cons [of "scan_client b acc i"] by (auto simp: scan_client_def min_def split: if_splits)
qed simp

text \<open>The reader check passes when no active reader is 32 or more tickets behind.\<close>

lemma may_write_iff:
  "may_write t b \<longleftrightarrow> (\<forall>c < MAX_CLIENTS. cl_active (client_registry b c) \<longrightarrow>
     t < last_read_sequence_id (client_registry b c) + BUFFER_SLOTS)"
proof
  assume late: "\<forall>c < MAX_CLIENTS. cl_active (client_registry b c) \<longrightarrow>
     t < last_read_sequence_id (client_registry b c) + BUFFER_SLOTS"
  show "may_write t b"
    using foldl_scan_attained [of b "(False, t)" "[0..<MAX_CLIENTS]"] late
    by (auto simp: may_write_def slowest_reader_def BUFFER_SLOTS_def split: prod.splits)
qed (use may_write_iff_room in blast)

text \<open>A complete \<^verbatim>\<open>send\<close>: what it leaves behind.\<close>

lemma shm_send_effect:
  assumes "shm_send all_ok a s = Some (s', n)"
  shows "buffer (blk s') = (buffer (blk s))(claim_sequence_id (blk s) mod BUFFER_SLOTS :=
      (buffer (blk s) (claim_sequence_id (blk s) mod BUFFER_SLOTS))\<lparr>
        slot_frame := write_frame a (slot_frame (buffer (blk s) (claim_sequence_id (blk s) mod BUFFER_SLOTS))),
        sequence_id := claim_sequence_id (blk s)\<rparr>)"
    "client_registry (blk s') = client_registry (blk s)"
    "publish_sequence_id (blk s') = claim_sequence_id (blk s)"
    "sems s' (CONTROL_SEMS + c) = sems s (CONTROL_SEMS + c) + count_list (active_clients_list (blk s)) c"
    "may_write (claim_sequence_id (blk s)) (blk s)"
proof -
  show "buffer (blk s') = (buffer (blk s))(claim_sequence_id (blk s) mod BUFFER_SLOTS :=
      (buffer (blk s) (claim_sequence_id (blk s) mod BUFFER_SLOTS))\<lparr>
        slot_frame := write_frame a (slot_frame (buffer (blk s) (claim_sequence_id (blk s) mod BUFFER_SLOTS))),
        sequence_id := claim_sequence_id (blk s)\<rparr>)"
    "client_registry (blk s') = client_registry (blk s)"
    "publish_sequence_id (blk s') = claim_sequence_id (blk s)"
    "sems s' (CONTROL_SEMS + c) = sems s (CONTROL_SEMS + c) + count_list (active_clients_list (blk s)) c"
    "may_write (claim_sequence_id (blk s)) (blk s)"
    using assms unfolding shm_send_def send_wait_result Let_def
    by (auto simp: all_ok_def signal_clients_def upd_slot_def count_list_map_plus active_clients_list_def split: if_splits)
qed

lemma active_clients_list_count: "c < MAX_CLIENTS \<Longrightarrow> cl_active (client_registry b c) \<Longrightarrow> count_list (active_clients_list b) c > 0"
  using count_list_0_iff [of "active_clients_list b" c] by (auto simp: active_clients_list_def)

section \<open>When a send returns\<close>

text \<open>
  With no other send in flight a \<^verbatim>\<open>send\<close> whose system calls succeed returns exactly when every
  registered reader has released all but the last 31 tickets drawn so far: a single reader that falls
  further behind stops every sender, and no number of other processes can help.  When it returns it
  has published its ticket and reports the size of header and payload.
\<close>

theorem send_returns_iff_readers_keep_up:
  assumes "sems s CLAIM_SEM > 0" "publish_sequence_id (blk s) + 1 = claim_sequence_id (blk s)"
    and "acquire_ok os" "release_ok os" "wait_ok os"
  shows "((\<exists>r. shm_send os a s = Some r) \<longleftrightarrow>
      (\<forall>c < MAX_CLIENTS. cl_active (client_registry (blk s) c) \<longrightarrow>
         claim_sequence_id (blk s) < last_read_sequence_id (client_registry (blk s) c) + BUFFER_SLOTS)) \<and>
    (\<forall>s' n. shm_send os a s = Some (s', n) \<longrightarrow> n = int (ETH_HEADER_SIZE + length (sa_data a)) \<and>
       publish_sequence_id (blk s') = claim_sequence_id (blk s))"
proof -
  have "publish_sequence_id (blk s) = claim_sequence_id (blk s) - 1" using assms(2) by simp
  then have "(\<exists>r. shm_send os a s = Some r) \<longleftrightarrow> may_write (claim_sequence_id (blk s)) (blk s)"
    and "shm_send os a s = Some (s', n) \<Longrightarrow> n = int (ETH_HEADER_SIZE + length (sa_data a)) \<and>
       publish_sequence_id (blk s') = claim_sequence_id (blk s)" for s' n
    using assms by (auto simp: shm_send_def send_wait_result Let_def upd_slot_def signal_clients_def split: if_splits)
  then show ?thesis unfolding may_write_iff by blast
qed

section \<open>Releasing out of order\<close>

text \<open>
  \<^verbatim>\<open>release_frame\<close> stores its argument unconditionally.  If a client releases a frame that is 32
  or more tickets old, although it may have released everything after it, the next sender blocks in
  its reader check and stays blocked: nothing is published.
\<close>

theorem late_release_blocks_senders:
  assumes "c < MAX_CLIENTS" "cl_active (client_registry (blk s) c)"
    and "q + BUFFER_SLOTS \<le> claim_sequence_id (blk s)" "acquire_ok os" "release_ok os" "wait_ok os"
  shows "last_read_sequence_id (client_registry (blk (release_frame ok c q s)) c) = q \<and>
    shm_send os a (release_frame ok c q s) = None"
proof -
  let ?s = "release_frame ok c q s"
  let ?b = "(blk ?s)\<lparr>claim_sequence_id := claim_sequence_id (blk ?s) + 1\<rparr>"
  have r: "last_read_sequence_id (client_registry ?b c) = q" "cl_active (client_registry ?b c)"
      "claim_sequence_id (blk ?s) = claim_sequence_id (blk s)"
    using assms(2) by (simp_all add: release_frame_def signal_writer_def)
  then have "\<not> may_write (claim_sequence_id (blk ?s)) ?b"
    using may_write_iff_room [OF assms(1), of ?b "claim_sequence_id (blk ?s)"] assms(3) by auto
  then show ?thesis using r assms by (simp add: shm_send_def send_wait_result Let_def)
qed

definition drained_ipc :: ipc where
  "drained_ipc = \<lparr>blk = (init_block sample_block)\<lparr>claim_sequence_id := 34, publish_sequence_id := 33,
     client_registry := (\<lambda>i. \<lparr>cl_active = i = 0, process_id = 7, last_read_sequence_id = 33\<rparr>)\<rparr>,
     sems = (\<lambda>k. if k = CLAIM_SEM then 1 else 0), ipc_alive = True\<rparr>"

theorem send_returns_iff_readers_keep_up_witness:
  "(\<exists>s' n. shm_send all_ok sample_msg drained_ipc = Some (s', n) \<and> publish_sequence_id (blk s') = 34)"
  using send_returns_iff_readers_keep_up [of drained_ipc all_ok sample_msg]
  by (fastforce simp: drained_ipc_def all_ok_def shm_simps)

theorem late_release_blocks_senders_witness:
  "shm_send all_ok sample_msg drained_ipc \<noteq> None \<and> shm_send all_ok sample_msg (release_frame True 0 1 drained_ipc) = None"
proof
  have "may_write 34 (blk drained_ipc\<lparr>claim_sequence_id := 35\<rparr>)" by code_simp
  then show "shm_send all_ok sample_msg drained_ipc \<noteq> None"
    by (simp add: shm_send_def all_ok_def send_wait_result Let_def drained_ipc_def upd_slot_def)
  show "shm_send all_ok sample_msg (release_frame True 0 1 drained_ipc) = None"
    using late_release_blocks_senders [of 0 drained_ipc 1 all_ok True sample_msg]
    by (simp add: drained_ipc_def all_ok_def shm_simps)
qed

section \<open>Registering late\<close>

text \<open>
  The receiver thread of a process starts reading at sequence number 1 whatever was published
  before the process registered.  So for a client present when message 2 or a later one is sent, the
  wake-up for that message makes a receiver at number 1 return the old content of slot 1 while that
  slot still holds message 1, and nothing once it was overwritten; it never gets the message that
  woke it.
\<close>

theorem late_joiner_misses_messages:
  assumes "shm_send all_ok a s = Some (s', n)" "2 \<le> claim_sequence_id (blk s)"
    and "c < MAX_CLIENTS" "cl_active (client_registry (blk s) c)"
  shows "\<exists>s''. receive_zerocopy Sem_ok c 1 s' = Some (s'',
    if sequence_id (buffer (blk s) 1) = 1 \<and> claim_sequence_id (blk s) mod BUFFER_SLOTS \<noteq> 1
    then Some (buffer (blk s) 1) else None)"
proof -
  have "sems s' (CONTROL_SEMS + c) > 0"
    using shm_send_effect(4) [OF assms(1)] active_clients_list_count [OF assms(3,4)] by simp
  then show ?thesis using assms(2)
    by (auto simp: receive_zerocopy_def shm_send_effect(1) [OF assms(1)] BUFFER_SLOTS_def)
qed

theorem late_joiner_misses_messages_witness:
  "\<exists>s' n s''. shm_send all_ok sample_msg drained_ipc = Some (s', n) \<and>
     receive_zerocopy Sem_ok 0 1 s' = Some (s'', None)"
proof -
  have "may_write 34 (blk drained_ipc\<lparr>claim_sequence_id := 35\<rparr>)" by code_simp
  then obtain s' n where s: "shm_send all_ok sample_msg drained_ipc = Some (s', n)"
    by (simp add: shm_send_def all_ok_def send_wait_result Let_def drained_ipc_def upd_slot_def)
  from late_joiner_misses_messages [OF this, of 0] s show ?thesis
    by (auto simp: drained_ipc_def init_block_def sample_block_def shm_simps)
qed

section \<open>Losing a ticket\<close>

definition lost_ticket :: "ipc \<Rightarrow> bool" where
  "lost_ticket s \<longleftrightarrow> Suc (publish_sequence_id (blk s)) < claim_sequence_id (blk s)"

text \<open>
  C38. A system call that fails after the ticket was drawn makes \<^verbatim>\<open>send\<close> return -1 without giving the
  ticket back.  From then on no send ever succeeds: whatever the system calls return, each later
  call fails or never returns, and the publish counter stands still.
\<close>

theorem lost_ticket_stops_publication:
  "((\<not> release_ok os \<or> \<not> wait_ok os \<and> \<not> may_write (claim_sequence_id (blk s)) (blk s)) \<and>
      acquire_ok os \<and> sems s CLAIM_SEM > 0 \<and> publish_sequence_id (blk s) < claim_sequence_id (blk s) \<longrightarrow>
      (\<exists>s'. shm_send os a s = Some (s', - 1) \<and> lost_ticket s')) \<and>
   (lost_ticket s \<longrightarrow> (case shm_send os a s of None \<Rightarrow> True
      | Some (s', n) \<Rightarrow> n = - 1 \<and> lost_ticket s' \<and> publish_sequence_id (blk s') = publish_sequence_id (blk s)))"
  unfolding shm_send_def send_wait_result Let_def lost_ticket_def
  by (auto simp: upd_slot_def split: option.splits if_splits)

theorem lost_ticket_stops_publication_witness:
  "\<exists>s'. shm_send (all_ok\<lparr>wait_ok := False\<rparr>) sample_msg (release_frame True 0 1 drained_ipc) = Some (s', - 1) \<and> lost_ticket s'"
proof -
  let ?s = "release_frame True 0 1 drained_ipc"
  have "\<not> may_write (claim_sequence_id (blk ?s)) (blk ?s)" by code_simp
  then show ?thesis
    using lost_ticket_stops_publication [of "all_ok\<lparr>wait_ok := False\<rparr>" ?s sample_msg]
    by (simp add: all_ok_def release_frame_def signal_writer_def drained_ipc_def shm_simps)
qed

end
