(* ===== verification/Vehicle_Bus.thy ===== *)
theory Vehicle_Bus
  imports Nic_Engines Shm_Hazards Teds_Service
begin

text \<open>
  The bus inside a vehicle: every process with its protocol, its one communicator and its receiver
  thread, around the one shared memory.  A message a component sends becomes a packet and a slot of the
  circular buffer; the receiver threads of all processes turn the slot into views; the protocol of
  each process queues its view or frees it; the application reads the oldest view of its queue
  and frees it.  The calls are those of the layers below, one after the other, in any order the
  threads of the processes choose.
\<close>

section \<open>The processes around the shared memory\<close>

text \<open>
  A process is known by its client number.  The queue of its communicator holds views, here the
  sequence numbers of their slots: what a view shows is read when it is used.
\<close>

record 'o endpoint =
  ep_protocol :: "'o protocol"
  ep_object :: 'o
  ep_comm :: communicator
  ep_next :: nat
  ep_views :: "nat list"

record 'o bus =
  bus_ipc :: ipc
  bus_ends :: "nat \<Rightarrow> 'o endpoint"

definition set_end :: "nat \<Rightarrow> ('o endpoint \<Rightarrow> 'o endpoint) \<Rightarrow> 'o bus \<Rightarrow> 'o bus" where
  "set_end c f B = B\<lparr>bus_ends := (bus_ends B)(c := f (bus_ends B c))\<rparr>"

text \<open>The protocol of a process reads key, location and neighbours in the shared block.\<close>

definition process :: "'o bus \<Rightarrow> nat \<Rightarrow> 'o protocol" where
  "process B c = (ep_protocol (bus_ends B c))\<lparr>local_block := blk (bus_ipc B)\<rparr>"

text \<open>The communicator with the frames its views show at this moment.\<close>

definition comm_of :: "'o bus \<Rightarrow> nat \<Rightarrow> communicator" where
  "comm_of B c = (ep_comm (bus_ends B c))\<lparr>c_inbox := \<lparr>qo_semaphore = int (length (ep_views (bus_ends B c))),
     qo_data = map (\<lambda>q. slot_frame (buffer (blk (bus_ipc B)) (q mod BUFFER_SLOTS))) (ep_views (bus_ends B c))\<rparr>\<rparr>"

section \<open>What the processes do\<close>

text \<open>An application sends: the frames its protocol hands to the interface go into the ring.\<close>

primrec put_frames :: "'o action list \<Rightarrow> ipc \<Rightarrow> ipc option" where
  "put_frames [] s = Some s"
| "put_frames (act # acts) s = (case act of
     Local_send a \<Rightarrow> (case shm_send all_ok a s of None \<Rightarrow> None | Some (s', n) \<Rightarrow> put_frames acts s')
   | _ \<Rightarrow> put_frames acts s)"

definition bus_send :: "nat \<Rightarrow> message \<Rightarrow> 'o bus \<Rightarrow> 'o bus option" where
  "bus_send c m B = (case comm_send True (process B c) (comm_of B c) m of
     Some ((acts, None), True) \<Rightarrow> map_option (\<lambda>s. B\<lparr>bus_ipc := s\<rparr>) (put_frames acts (bus_ipc B))
   | _ \<Rightarrow> None)"

text \<open>The receiver thread takes the next message; the protocol queues the view or frees it.\<close>

definition on_view :: "nat \<Rightarrow> nat \<Rightarrow> 'o action \<Rightarrow> 'o bus \<Rightarrow> 'o bus" where
  "on_view c q act B = (case act of
     Queue ob f \<Rightarrow> (if ob = ep_object (bus_ends B c) then set_end c (\<lambda>e. e\<lparr>ep_views := ep_views e @ [q]\<rparr>) B else B)
   | Free_local \<Rightarrow> B\<lparr>bus_ipc := nic_free True True c (View (q mod BUFFER_SLOTS) q) (bus_ipc B)\<rparr>
   | _ \<Rightarrow> B)"

definition local_subject :: "(unit, u16) observed" where
  "local_subject = attach observed_empty (Some ()) ETHERNET_PROTOCOL_NUMBER"

definition bus_handle :: "nat \<Rightarrow> nic_buffer \<Rightarrow> 'o bus \<Rightarrow> 'o bus option" where
  "bus_handle c buf B = (case buf of
     View i q \<Rightarrow> (case update_local (slot_frame (buffer (blk (bus_ipc B)) i)) (process B c) of
         Some (acts, None) \<Rightarrow> Some (fold (on_view c q) acts B)
       | _ \<Rightarrow> None)
   | Own_frame f \<Rightarrow> None)"

definition bus_turn :: "nat \<Rightarrow> 'o bus \<Rightarrow> 'o bus option" where
  "bus_turn c B = (case nic_receive_turn True c local_subject Sem_ok (bus_ipc B, ep_next (bus_ends B c), []) of
     None \<Rightarrow> None
   | Some (s, next, log) \<Rightarrow>
       fold (\<lambda>(ob, prot, buf) r. case r of None \<Rightarrow> None | Some B' \<Rightarrow> bus_handle c buf B') log
         (Some (set_end c (\<lambda>e. e\<lparr>ep_next := next\<rparr>) (B\<lparr>bus_ipc := s\<rparr>))))"

text \<open>The application receives into a fresh message of 1024 bytes; the oldest view is freed.\<close>

definition bus_take :: "nat \<Rightarrow> u64 \<Rightarrow> 'o bus \<Rightarrow> ('o bus \<times> message) option" where
  "bus_take c junk B = (case comm_receive (message_buffer junk 1024) (comm_of B c) of
     Some (Got m d True) \<Rightarrow> (case ep_views (bus_ends B c) of
         q # qs \<Rightarrow> Some ((set_end c (\<lambda>e. e\<lparr>ep_views := qs\<rparr>) B)
             \<lparr>bus_ipc := nic_free True True c (View (q mod BUFFER_SLOTS) q) (bus_ipc B)\<rparr>, m)
       | [] \<Rightarrow> None)
   | _ \<Rightarrow> None)"

text \<open>
  One event, and a sequence of them with the messages the applications get.  \<open>None\<close> is a call that
  blocks for as long as nobody else moves.
\<close>

datatype bus_event = Bus_send nat message | Bus_turn nat | Bus_take nat u64

definition bus_step :: "bus_event \<Rightarrow> 'o bus \<Rightarrow> ('o bus \<times> (nat \<times> message) list) option" where
  "bus_step ev B = (case ev of
     Bus_send c m \<Rightarrow> map_option (\<lambda>B'. (B', [])) (bus_send c m B)
   | Bus_turn c \<Rightarrow> map_option (\<lambda>B'. (B', [])) (bus_turn c B)
   | Bus_take c junk \<Rightarrow> map_option (\<lambda>(B', m). (B', [(c, m)])) (bus_take c junk B))"

primrec run_events :: "('e \<Rightarrow> 's \<Rightarrow> ('s \<times> 'x list) option) \<Rightarrow> 'e list \<Rightarrow> 's \<Rightarrow> ('s \<times> 'x list) option" where
  "run_events step [] s = Some (s, [])"
| "run_events step (e # es) s = (case step e s of None \<Rightarrow> None
     | Some (s', out) \<Rightarrow> (case run_events step es s' of None \<Rightarrow> None | Some (s'', outs) \<Rightarrow> Some (s'', out @ outs)))"

lemma run_events_append:
  "run_events step (es @ fs) s = (case run_events step es s of None \<Rightarrow> None
     | Some (s', out) \<Rightarrow> (case run_events step fs s' of None \<Rightarrow> None | Some (s'', outs) \<Rightarrow> Some (s'', out @ outs)))"
  by (induction es arbitrary: s) (auto split: option.split)

lemma run_events_seq:
  "run_events step es s = Some (s1, out1) \<Longrightarrow> run_events step fs s1 = Some (s2, out2) \<Longrightarrow>
   run_events step (es @ fs) s = Some (s2, out1 @ out2)"
  by (simp add: run_events_append)

text \<open>If single steps correspond, so do runs.\<close>

lemma run_events_simulates:
  assumes "\<And>e s t. e \<in> set es \<Longrightarrow> R s t \<Longrightarrow> rel_option (rel_prod R (=)) (step e s) (step' e t)" and "R s t"
  shows "rel_option (rel_prod R (=)) (run_events step es s) (run_events step' es t)"
  using assms
proof (induction es arbitrary: s t)
  case (Cons e es)
  then have "rel_option (rel_prod R (=)) (step e s) (step' e t)" by simp
  then show ?case
  proof (cases rule: option.rel_cases)
    case (Some x y)
    then obtain s' t' out where xy: "x = (s', out)" "y = (t', out)" "R s' t'" by (cases x; cases y) auto
    have "rel_option (rel_prod R (=)) (run_events step es s') (run_events step' es t')"
      by (rule Cons.IH [OF Cons.prems(1) xy(3)]) simp_all
    then show ?thesis using Some xy by (cases rule: option.rel_cases) auto
  qed simp
qed simp

section \<open>The bus as a table of messages\<close>

text \<open>
  The abstract bus: the messages in the order of their tickets, counted from 1, and for every process
  the next number to read, the numbers in its queue and the number released last.  A slot shows the
  latest of the messages whose numbers agree modulo 32.
\<close>

record table =
  tb_log :: "(address \<times> message) list"
  tb_next :: "nat \<Rightarrow> nat"
  tb_views :: "nat \<Rightarrow> nat list"
  tb_done :: "nat \<Rightarrow> nat"

definition latest :: "nat \<Rightarrow> nat \<Rightarrow> nat" where
  "latest n q = q + BUFFER_SLOTS * ((n - q) div BUFFER_SLOTS)"

text \<open>What an application is to get for a message of the sender \<open>a\<close>.\<close>

definition as_received :: "address \<Rightarrow> message \<Rightarrow> message" where
  "as_received a m = \<lparr>m_source = a, m_destination = no_address, m_type = m_type m,
     m_payload = take 1015 (m_payload m), m_capacity = 1024, m_timestamp = m_timestamp m\<rparr>"

definition table_step ::
  "nat set \<Rightarrow> (nat \<Rightarrow> address) \<Rightarrow> (nat \<Rightarrow> message \<Rightarrow> bool) \<Rightarrow> bus_event \<Rightarrow> table \<Rightarrow> (table \<times> (nat \<times> message) list) option" where
  "table_step procs addr hear ev t = (case ev of
     Bus_send c m \<Rightarrow> (if \<forall>d\<in>procs. Suc (length (tb_log t)) < tb_done t d + BUFFER_SLOTS
        then Some (t\<lparr>tb_log := tb_log t @ [(addr c, m)]\<rparr>, []) else None)
   | Bus_turn c \<Rightarrow> (let q = tb_next t c in if length (tb_log t) < q then None
        else if hear c (snd (tb_log t ! (q - 1)))
        then Some (t\<lparr>tb_next := (tb_next t)(c := Suc q), tb_views := (tb_views t)(c := tb_views t c @ [q])\<rparr>, [])
        else Some (t\<lparr>tb_next := (tb_next t)(c := Suc q), tb_done := (tb_done t)(c := q)\<rparr>, []))
   | Bus_take c junk \<Rightarrow> (case tb_views t c of [] \<Rightarrow> None
      | q # qs \<Rightarrow> (case tb_log t ! (latest (length (tb_log t)) q - 1) of (a, m) \<Rightarrow>
          Some (t\<lparr>tb_views := (tb_views t)(c := qs), tb_done := (tb_done t)(c := q)\<rparr>, [(c, as_received a m)]))))"

section \<open>Who gets a message\<close>

text \<open>
  The listeners of a process for a message on the bus.  A broadcast for a port other than the routing
  port is for the network alone.
\<close>

definition hears :: "'o protocol \<Rightarrow> message \<Rightarrow> 'o list" where
  "hears p m = (let pt = port (m_destination m) in
     if pt \<noteq> TYPE_BASED_ROUTING_PORT
     then (if paddr (m_destination m) = BROADCAST_ADDR then [] else targets (port_observed p) pt)
     else if msg_type_of (m_type m) = Some TEDS \<and> TEDS_HEADER_SIZE \<le> length (m_payload m) \<and> teds_header_type (m_payload m) \<noteq> INVALID
     then targets (type_observed p) (teds_header_type (m_payload m)) else [])"

definition segment_of :: "message \<Rightarrow> segment" where
  "segment_of m = \<lparr>s_header = \<lparr>seg_type = m_type m, seg_timestamp = m_timestamp m\<rparr>, s_payload = m_payload m\<rparr>"

lemma segment_of_simps [simp]:
  "s_payload (segment_of m) = m_payload m" "seg_type (s_header (segment_of m)) = m_type m"
  "seg_timestamp (s_header (segment_of m)) = m_timestamp m"
  by (simp_all add: segment_of_def)

text \<open>A slot that shows the message \<open>m\<close> of the communicator with the address \<open>a\<close>.\<close>

definition shows_message :: "address \<times> message \<Rightarrow> frame \<Rightarrow> bool" where
  "shows_message am f = (case am of (a, m) \<Rightarrow> length (m_payload m) \<le> 1478 \<and> length (fr_data f) = ETH_MTU \<and>
     (\<exists>k loc. frame_holds (frame_args a (m_destination m)
        (packet k loc (port a) (port (m_destination m)) (get_bytes (segment_of m)))) f))"

text \<open>A frame in a slot of the shared memory, as the receiver of a \<^verbatim>\<open>send\<close> finds it.\<close>

lemma frame_holds_carries:
  assumes "frame_holds a f" "length (fr_data f) = ETH_MTU" "length (sa_data a) \<le> ETH_MTU"
  shows "carries f (sa_data a)"
  using assms by (simp add: frame_holds_def carries_def)

lemma shows_messageD:
  assumes "shows_message (a, m) f"
  obtains k loc where "carries f (packet k loc (port a) (port (m_destination m)) (get_bytes (segment_of m)))"
    "dhost (fr_header f) = paddr (m_destination m)" "shost (fr_header f) = paddr a"
    "htons (eth_type (fr_header f)) = ETHERNET_PROTOCOL_NUMBER"
proof -
  from assms obtain k loc where h: "frame_holds (frame_args a (m_destination m)
      (packet k loc (port a) (port (m_destination m)) (get_bytes (segment_of m)))) f"
    and len: "length (fr_data f) = ETH_MTU" "length (m_payload m) \<le> 1478"
    by (auto simp: shows_message_def)
  have "carries f (packet k loc (port a) (port (m_destination m)) (get_bytes (segment_of m)))"
    using frame_holds_carries [OF h len(1)] len(2) by (simp add: frame_args_def wire_simps get_bytes_eq)
  then show thesis using h by (intro that [of k loc]) (simp_all add: frame_holds_def frame_args_def)
qed

lemma component_send:
  assumes "crypto p = Some XorCryptoProvider" "external_nic p = None" "length (m_payload m) \<le> 1478"
  shows "comm_send io p c m = Some (([Local_send (frame_args (c_address c) (m_destination m)
      (packet (session_key (local_block p)) (location (local_block p)) (port (c_address c)) (port (m_destination m))
        (get_bytes (segment_of m))))], None), io)"
proof -
  have "length (get_bytes (segment_of m)) \<le> PACKET_MTU" using assms(3) by (simp add: PACKET_MTU_def wire_simps get_bytes_eq)
  from protocol_send_built [OF assms(1) this] show ?thesis
    using assms(2) by (simp add: comm_send_def Let_def segment_of_def)
qed

text \<open>How the protocol of a process on the bus must be: each communicator registered at most once.\<close>

definition process_ok :: "'o \<Rightarrow> 'o protocol \<Rightarrow> bool" where
  "process_ok ob p \<longleftrightarrow> crypto p = Some XorCryptoProvider \<and> observers_ok p \<and>
     (\<forall>pt. targets (port_observed p) pt \<in> {[], [ob]}) \<and> (\<forall>t. targets (type_observed p) t \<in> {[], [ob]}) \<and>
     (\<forall>x. external_nic p = Some x \<longrightarrow> nic_address x \<noteq> BROADCAST_ADDR)"

lemma hears_own: "process_ok ob p \<Longrightarrow> hears p m \<in> {[], [ob]}"
  by (auto simp: process_ok_def hears_def Let_def)

lemma process_ok_block [simp]:
  "process_ok ob (p\<lparr>local_block := b\<rparr>) = process_ok ob p" "hears (p\<lparr>local_block := b\<rparr>) m = hears p m"
  by (simp_all add: process_ok_def observers_ok_def hears_def Let_def)

lemma notified:
  assumes "observers_ok p" "carries f (packet k loc sp (port (m_destination m)) (get_bytes (segment_of m)))"
    and "paddr (m_destination m) = BROADCAST_ADDR \<Longrightarrow> port (m_destination m) = TYPE_BASED_ROUTING_PORT"
  shows "notify_communicator p (port (m_destination m)) f =
    (if hears p m = [] then [Free_local] else map (\<lambda>ob. Queue ob f) (hears p m))"
proof (cases "port (m_destination m) = TYPE_BASED_ROUTING_PORT")
  case False
  then show ?thesis using assms(1,3)
    by (auto simp: notify_communicator_def hears_def notify_or_free_targets observers_ok_def)
next
  case port: True
  note F = carries_fields [OF assms(2)]
  show ?thesis
  proof (cases "msg_type_of (m_type m) = Some TEDS \<and> TEDS_HEADER_SIZE \<le> length (m_payload m)")
    case True
    then have "segment_of m = make_segment TEDS (m_timestamp m) (m_payload m)"
      by (simp add: segment_of_def make_segment_def msg_type_of_Some_iff)
    then show ?thesis using type_routed [OF assms(1), of f k loc sp "m_timestamp m" "m_payload m"] assms(2) port True
      by (simp add: hears_def Let_def TYPE_BASED_ROUTING_PORT_def wire_simps)
  next
    case False
    obtain rest where d: "packet_data (fr_data f) = get_bytes (segment_of m) @ rest"
      using F(4) by (metis append_take_drop_id)
    have "length (m_payload m) < 4294967296" using F(5) by (simp add: PACKET_MTU_def wire_simps get_bytes_eq)
    then have "unat (payload_length f - of_nat SEG_HEADER_SIZE) = length (m_payload m)"
      using F(7) by (simp add: wire_simps get_bytes_eq unat_small_u32)
    then have "extract_teds_type (read_seg_header (packet_data (fr_data f))) (drop SEG_HEADER_SIZE (packet_data (fr_data f)))
        (payload_length f - of_nat SEG_HEADER_SIZE) = INVALID"
      using False by (auto simp: extract_teds_type_def d get_bytes_eq)
    then show ?thesis using port False by (auto simp: notify_communicator_def payload_length_def hears_def)
  qed
qed

lemma local_arrival:
  assumes "process_ok ob p" "shows_message (a, m) f"
  shows "\<exists>fw. update_local f p = Some (fw @ (if hears p m = [] then [Free_local] else [Queue ob f]), None) \<and>
    (\<forall>act \<in> set fw. \<exists>x. act = Remote_send x)"
proof -
  obtain k loc where f: "carries f (packet k loc (port a) (port (m_destination m)) (get_bytes (segment_of m)))"
      "dhost (fr_header f) = paddr (m_destination m)"
    using shows_messageD [OF assms(2)] by metis
  note F = carries_fields [OF f(1)]
  have ok: "crypto p = Some XorCryptoProvider" "observers_ok p" using assms(1) by (simp_all add: process_ok_def)
  have heard: "hears p m = [] \<or> hears p m = [ob]" using hears_own [OF assms(1), of m] by simp
  note N = notified [OF ok(2) f(1)]
  show ?thesis
  proof (cases "paddr (m_destination m) = BROADCAST_ADDR")
    case False
    then show ?thesis using N f(2) F(3) heard by (auto simp: update_local_def Let_def)
  next
    case True
    let ?sent = "case external_nic p of
             Some x \<Rightarrow> protocol_send p \<lparr>paddr = nic_address x, port = sport (fr_data f)\<rparr>
                \<lparr>paddr = dhost (fr_header f), port = dport (fr_data f)\<rparr> (packet_data (fr_data f)) (payload_length f)
           | None \<Rightarrow> Some ([], None)"
    have "\<exists>fw. ?sent = Some (fw, None) \<and> (\<forall>act \<in> set fw. \<exists>x. act = Remote_send x)"
    proof (cases "external_nic p")
      case (Some x)
      then have "nic_address x \<noteq> BROADCAST_ADDR" using assms(1) by (simp add: process_ok_def)
      from broadcast_goes_out [OF ok(1) Some this f(1)] show ?thesis using Some f(2) F(2,3) True by simp
    qed simp
    then obtain fw where fw: "?sent = Some (fw, None)" "\<forall>act \<in> set fw. \<exists>x. act = Remote_send x" by blast
    have up: "update_local f p = Some (fw @ (if dport (fr_data f) = TYPE_BASED_ROUTING_PORT
        then notify_communicator p (dport (fr_data f)) f else [Free_local]), None)"
      using fw(1) f(2) True by (simp add: update_local_def Let_def)
    show ?thesis
    proof (cases "port (m_destination m) = TYPE_BASED_ROUTING_PORT")
      case port: True
      then show ?thesis using N up fw(2) F(3) heard by auto
    next
      case port: False
      then have "hears p m = []" using True by (simp add: hears_def)
      then show ?thesis using port up fw(2) F(3) by auto
    qed
  qed
qed

section \<open>The bus implements the table\<close>

lemma latest_range:
  assumes "1 \<le> q" "q \<le> n"
  shows "1 \<le> latest n q" "latest n q \<le> n" "n < latest n q + BUFFER_SLOTS" "latest n q mod BUFFER_SLOTS = q mod BUFFER_SLOTS"
proof -
  have d: "n - q = BUFFER_SLOTS * ((n - q) div BUFFER_SLOTS) + (n - q) mod BUFFER_SLOTS" "(n - q) mod BUFFER_SLOTS < BUFFER_SLOTS"
    by (simp_all add: BUFFER_SLOTS_def)
  show "1 \<le> latest n q" "latest n q \<le> n" "n < latest n q + BUFFER_SLOTS" "latest n q mod BUFFER_SLOTS = q mod BUFFER_SLOTS"
    using assms d unfolding latest_def by (linarith, linarith, linarith, simp)
qed

text \<open>What the code keeps of a process, and how block and table belong together.\<close>

definition same_process :: "'o endpoint \<Rightarrow> 'o endpoint \<Rightarrow> bool" where
  "same_process e e' \<longleftrightarrow> ep_protocol e = ep_protocol e' \<and> ep_object e = ep_object e' \<and> ep_comm e = ep_comm e'"

definition slots_show :: "shared_block \<Rightarrow> (address \<times> message) list \<Rightarrow> bool" where
  "slots_show b log \<longleftrightarrow> claim_sequence_id b = Suc (length log) \<and> publish_sequence_id b = length log \<and>
     (\<forall>i. length (fr_data (slot_frame (buffer b i))) = ETH_MTU) \<and>
     (\<forall>q. 1 \<le> q \<and> q \<le> length log \<and> length log < q + BUFFER_SLOTS \<longrightarrow>
        sequence_id (buffer b (q mod BUFFER_SLOTS)) = q \<and>
        shows_message (log ! (q - 1)) (slot_frame (buffer b (q mod BUFFER_SLOTS))))"

definition end_rel :: "'o bus \<Rightarrow> table \<Rightarrow> nat \<Rightarrow> bool" where
  "end_rel B t c \<longleftrightarrow> last_read_sequence_id (client_registry (blk (bus_ipc B)) c) = tb_done t c \<and>
     ep_next (bus_ends B c) = tb_next t c \<and> ep_views (bus_ends B c) = tb_views t c \<and>
     sems (bus_ipc B) (CONTROL_SEMS + c) = Suc (length (tb_log t)) - tb_next t c \<and>
     tb_next t c \<le> Suc (length (tb_log t)) \<and> tb_done t c < tb_next t c \<and> Suc (length (tb_log t)) < tb_next t c + BUFFER_SLOTS \<and>
     set (tb_views t c) \<subseteq> {1..<tb_next t c}"

definition bus_rel :: "nat set \<Rightarrow> (nat \<Rightarrow> 'o endpoint) \<Rightarrow> 'o bus \<Rightarrow> table \<Rightarrow> bool" where
  "bus_rel procs ends B t \<longleftrightarrow> slots_show (blk (bus_ipc B)) (tb_log t) \<and> sems (bus_ipc B) CLAIM_SEM > 0 \<and>
     (\<forall>c<MAX_CLIENTS. cl_active (client_registry (blk (bus_ipc B)) c) \<longleftrightarrow> c \<in> procs) \<and>
     (\<forall>c\<in>procs. same_process (bus_ends B c) (ends c) \<and> end_rel B t c)"

text \<open>The processes, and what may happen: components send, everybody reads.\<close>

definition ends_ok :: "nat set \<Rightarrow> (nat \<Rightarrow> 'o endpoint) \<Rightarrow> bool" where
  "ends_ok procs ends \<longleftrightarrow> procs \<subseteq> {..<MAX_CLIENTS} \<and> (\<forall>c\<in>procs. process_ok (ep_object (ends c)) (ep_protocol (ends c)))"

definition event_ok :: "nat set \<Rightarrow> (nat \<Rightarrow> 'o endpoint) \<Rightarrow> bus_event \<Rightarrow> bool" where
  "event_ok procs ends ev \<longleftrightarrow> (case ev of
     Bus_send c m \<Rightarrow> c \<in> procs \<and> external_nic (ep_protocol (ends c)) = None \<and> length (m_payload m) \<le> 1478
   | Bus_turn c \<Rightarrow> c \<in> procs
   | Bus_take c junk \<Rightarrow> c \<in> procs)"

definition own_address :: "(nat \<Rightarrow> 'o endpoint) \<Rightarrow> nat \<Rightarrow> address" where
  "own_address ends c = c_address (ep_comm (ends c))"

definition listens :: "(nat \<Rightarrow> 'o endpoint) \<Rightarrow> nat \<Rightarrow> message \<Rightarrow> bool" where
  "listens ends c m \<longleftrightarrow> hears (ep_protocol (ends c)) m \<noteq> []"

lemma set_end_simps [simp]:
  "bus_ipc (set_end c f B) = bus_ipc B" "bus_ends (set_end c f B) d = (if d = c then f (bus_ends B c) else bus_ends B d)"
  by (simp_all add: set_end_def)

lemma release_frame_simps [simp]:
  "blk (release_frame ok c q s) = set_client c (\<lambda>x. x\<lparr>last_read_sequence_id := q\<rparr>) (blk s)"
  "k \<noteq> WRITER_WAIT_SEM \<Longrightarrow> sems (release_frame ok c q s) k = sems s k"
  by (simp_all add: release_frame_def signal_writer_def)

lemma set_client_fields [simp]:
  "buffer (set_client c f b) = buffer b" "claim_sequence_id (set_client c f b) = claim_sequence_id b"
  "publish_sequence_id (set_client c f b) = publish_sequence_id b"
  "client_registry (set_client c f b) d = (if d = c then f (client_registry b c) else client_registry b d)"
  by (simp_all add: set_client_def)

subsection \<open>Sending\<close>

lemma shm_send_defined:
  assumes "sems s CLAIM_SEM > 0" "Suc (publish_sequence_id (blk s)) = claim_sequence_id (blk s)"
  shows "(\<exists>r. shm_send all_ok a s = Some r) \<longleftrightarrow> may_write (claim_sequence_id (blk s)) (blk s)"
    "shm_send all_ok a s = Some (s', n) \<Longrightarrow> claim_sequence_id (blk s') = Suc (claim_sequence_id (blk s)) \<and>
       sems s' CLAIM_SEM = sems s CLAIM_SEM"
proof -
  have "publish_sequence_id (blk s) = claim_sequence_id (blk s) - 1" using assms(2) by simp
  then show "(\<exists>r. shm_send all_ok a s = Some r) \<longleftrightarrow> may_write (claim_sequence_id (blk s)) (blk s)"
    using assms by (auto simp: shm_send_def send_wait_result Let_def all_ok_def upd_slot_def split: if_splits)
  have "CLAIM_SEM \<notin> set (map ((+) CONTROL_SEMS) cs)" for cs by (auto simp: shm_simps)
  then have "count_list (map ((+) CONTROL_SEMS) cs) CLAIM_SEM = 0" for cs by (simp add: count_list_0_iff)
  then show "shm_send all_ok a s = Some (s', n) \<Longrightarrow> claim_sequence_id (blk s') = Suc (claim_sequence_id (blk s)) \<and>
       sems s' CLAIM_SEM = sems s CLAIM_SEM"
    unfolding shm_send_def send_wait_result Let_def
    by (auto simp: all_ok_def signal_clients_def upd_slot_def split: if_splits)
qed

lemma count_list_distinct: "distinct xs \<Longrightarrow> count_list xs x = (if x \<in> set xs then 1 else 0)"
  by (induction xs) auto

lemma count_active: "c < MAX_CLIENTS \<Longrightarrow> count_list (active_clients_list b) c = (if cl_active (client_registry b c) then 1 else 0)"
  by (simp add: active_clients_list_def count_list_distinct)

text \<open>A send adds one message to what the slots show.\<close>

lemma send_shows:
  assumes "slots_show (blk s) log" "sems s CLAIM_SEM > 0" "shm_send all_ok a s = Some (s', n)"
    and "shows_message am (write_frame a (slot_frame (buffer (blk s) (Suc (length log) mod BUFFER_SLOTS))))"
  shows "slots_show (blk s') (log @ [am])"
proof -
  let ?t = "Suc (length log)"
  have b: "claim_sequence_id (blk s) = ?t" "Suc (publish_sequence_id (blk s)) = claim_sequence_id (blk s)"
      "\<forall>i. length (fr_data (slot_frame (buffer (blk s) i))) = ETH_MTU"
      "\<And>q. 1 \<le> q \<Longrightarrow> q \<le> length log \<Longrightarrow> length log < q + BUFFER_SLOTS \<Longrightarrow> sequence_id (buffer (blk s) (q mod BUFFER_SLOTS)) = q \<and>
        shows_message (log ! (q - 1)) (slot_frame (buffer (blk s) (q mod BUFFER_SLOTS)))"
    using assms(1) by (auto simp: slots_show_def)
  note effect = shm_send_effect(1,3) [OF assms(3)]
  have len: "length (fr_data (write_frame a (slot_frame (buffer (blk s) (?t mod BUFFER_SLOTS))))) = ETH_MTU"
    using assms(4) by (cases am) (simp add: shows_message_def)
  have slot: "sequence_id (buffer (blk s') (q mod BUFFER_SLOTS)) = q \<and>
      shows_message ((log @ [am]) ! (q - 1)) (slot_frame (buffer (blk s') (q mod BUFFER_SLOTS)))"
    if q: "1 \<le> q" "q \<le> ?t" "?t < q + BUFFER_SLOTS" for q
  proof (cases "q = ?t")
    case True
    then show ?thesis using assms(4) by (simp add: effect(1) b(1))
  next
    case False
    then have "q mod BUFFER_SLOTS \<noteq> ?t mod BUFFER_SLOTS"
      using q mod_eq_dvd_iff_nat [of q ?t BUFFER_SLOTS] by (auto dest!: dvd_imp_le)
    moreover have "q - 1 < length log" using q False by arith
    ultimately show ?thesis using b(4) [of q] q False by (simp add: effect(1) b(1) nth_append)
  qed
  show ?thesis using shm_send_defined(2) [OF assms(2) b(2) assms(3)] effect(2) b(1,3) len slot
    by (simp add: slots_show_def effect(1))
qed

lemma send_simulates:
  assumes "ends_ok procs ends" "event_ok procs ends (Bus_send c m)" "bus_rel procs ends B t"
  shows "rel_option (rel_prod (bus_rel procs ends) (=)) (bus_step (Bus_send c m) B)
    (table_step procs (own_address ends) (listens ends) (Bus_send c m) t)"
proof -
  let ?e = "bus_ends B c" and ?s = "bus_ipc B" and ?n = "length (tb_log t)"
  have c: "c \<in> procs" "external_nic (ep_protocol (ends c)) = None" "length (m_payload m) \<le> 1478"
    using assms(2) by (simp_all add: event_ok_def)
  have rel: "slots_show (blk ?s) (tb_log t)" "sems ?s CLAIM_SEM > 0"
      "\<And>d. d < MAX_CLIENTS \<Longrightarrow> cl_active (client_registry (blk ?s) d) \<longleftrightarrow> d \<in> procs"
      "\<And>d. d \<in> procs \<Longrightarrow> same_process (bus_ends B d) (ends d) \<and> end_rel B t d"
    using assms(3) by (auto simp: bus_rel_def)
  have in_range: "d < MAX_CLIENTS" if "d \<in> procs" for d using assms(1) that by (auto simp: ends_ok_def)
  have same: "ep_protocol ?e = ep_protocol (ends c)" "ep_comm ?e = ep_comm (ends c)"
    using rel(4) [OF c(1)] by (simp_all add: same_process_def)
  have crypto: "crypto (process B c) = Some XorCryptoProvider" "external_nic (process B c) = None"
    using assms(1) c(1,2) same(1) by (auto simp: ends_ok_def process_ok_def process_def)
  define a where "a = frame_args (own_address ends c) (m_destination m) (packet (session_key (blk ?s)) (location (blk ?s))
     (port (own_address ends c)) (port (m_destination m)) (get_bytes (segment_of m)))"
  have send: "comm_send True (process B c) (comm_of B c) m = Some (([Local_send a], None), True)"
    using component_send [OF crypto c(3), of True "comm_of B c"]
    by (simp add: a_def comm_of_def own_address_def same(2) process_def)
  have n: "claim_sequence_id (blk ?s) = Suc ?n" "Suc (publish_sequence_id (blk ?s)) = claim_sequence_id (blk ?s)"
    using rel(1) by (simp_all add: slots_show_def)
  have room: "may_write (claim_sequence_id (blk ?s)) (blk ?s) \<longleftrightarrow> (\<forall>d\<in>procs. Suc ?n < tb_done t d + BUFFER_SLOTS)"
    unfolding may_write_iff n(1) using rel(3,4) in_range by (auto simp: end_rel_def)
  note defined = shm_send_defined(1) [OF rel(2) n(2), of a, unfolded room]
  show ?thesis
  proof (cases "shm_send all_ok a ?s")
    case None
    then have "\<not> (\<forall>d\<in>procs. Suc ?n < tb_done t d + BUFFER_SLOTS)" using defined by simp
    with None show ?thesis by (simp add: bus_step_def bus_send_def send table_step_def)
  next
    case (Some r)
    then obtain s' k where s': "shm_send all_ok a ?s = Some (s', k)" by (cases r) auto
    have free: "\<forall>d\<in>procs. Suc ?n < tb_done t d + BUFFER_SLOTS" using defined Some by simp
    note effect = shm_send_effect [OF s'] and defined2 = shm_send_defined(2) [OF rel(2) n(2) s']
    let ?t = "t\<lparr>tb_log := tb_log t @ [(own_address ends c, m)]\<rparr>" and ?B = "B\<lparr>bus_ipc := s'\<rparr>"
    let ?f = "write_frame a (slot_frame (buffer (blk ?s) (Suc ?n mod BUFFER_SLOTS)))"
    have "length (sa_data a) \<le> ETH_MTU" using c(3) by (simp add: a_def frame_args_def get_bytes_eq wire_simps)
    then have "shows_message (own_address ends c, m) ?f"
      using frame_holds_write [of a] c(3) rel(1) unfolding shows_message_def slots_show_def
      by (auto simp: a_def write_frame_def)
    from send_shows [OF rel(1,2) s' this] have "slots_show (blk s') (tb_log ?t)" by simp
    moreover have "end_rel ?B ?t d" if "d \<in> procs" for d
    proof -
      have "sems s' (CONTROL_SEMS + d) = Suc (sems ?s (CONTROL_SEMS + d))"
        using effect(4) [of d] count_active [OF in_range [OF that]] rel(3) [OF in_range [OF that]] that by simp
      then show ?thesis using rel(4) [OF that] free that by (auto simp: end_rel_def effect(2))
    qed
    ultimately have "bus_rel procs ends ?B ?t" using rel defined2 by (simp add: bus_rel_def effect(2))
    then show ?thesis using free by (simp add: bus_step_def bus_send_def send s' table_step_def)
  qed
qed

subsection \<open>Reading\<close>

lemma fold_on_view_remote: "\<forall>act \<in> set fw. \<exists>x. act = Remote_send x \<Longrightarrow> fold (on_view c q) fw B = B"
  by (induction fw) (auto simp: on_view_def)

lemma turn_simulates:
  assumes "ends_ok procs ends" "event_ok procs ends (Bus_turn c)" "bus_rel procs ends B t"
  shows "rel_option (rel_prod (bus_rel procs ends) (=)) (bus_step (Bus_turn c) B)
    (table_step procs (own_address ends) (listens ends) (Bus_turn c) t)"
proof -
  let ?s = "bus_ipc B" and ?n = "length (tb_log t)" and ?q = "tb_next t c"
  have c: "c \<in> procs" using assms(2) by (simp add: event_ok_def)
  have rel: "slots_show (blk ?s) (tb_log t)" "end_rel B t c" "same_process (bus_ends B c) (ends c)"
    using assms(3) c by (auto simp: bus_rel_def)
  have q: "ep_next (bus_ends B c) = ?q" "1 \<le> ?q" "sems ?s (CONTROL_SEMS + c) = Suc ?n - ?q" "Suc ?n < ?q + BUFFER_SLOTS"
    using rel(2) by (auto simp: end_rel_def)
  show ?thesis
  proof (cases "?n < ?q")
    case True
    then have "nic_receive_turn True c local_subject Sem_ok (?s, ep_next (bus_ends B c), []) = None"
      using q(3) by (simp add: nic_receive_turn_def receive_zerocopy_def)
    with True show ?thesis by (simp add: bus_step_def bus_turn_def table_step_def)
  next
    case False
    let ?f = "slot_frame (buffer (blk ?s) (?q mod BUFFER_SLOTS))"
    obtain a m where am: "tb_log t ! (?q - 1) = (a, m)" by fastforce
    have slot: "sequence_id (buffer (blk ?s) (?q mod BUFFER_SLOTS)) = ?q" "shows_message (a, m) ?f"
      using rel(1) q(2,4) False am by (auto simp: slots_show_def)
    obtain k loc where "htons (eth_type (fr_header ?f)) = ETHERNET_PROTOCOL_NUMBER"
      using shows_messageD [OF slot(2)] by metis
    then have obs: "targets local_subject (slot_proto (blk ?s) ?q) = [()]"
      by (simp add: local_subject_def slot_proto_def targets_attach)
        (simp add: targets_def observed_empty_def)
    have "observed_ok local_subject" by (simp add: local_subject_def observed_ok_def attach_def observed_empty_def)
    from nic_turn_reads [OF this slot(1), of c True "[]"] obs q(3) False
    have turn: "nic_receive_turn True c local_subject Sem_ok (?s, ?q, []) =
        Some (?s\<lparr>sems := (sems ?s)(CONTROL_SEMS + c := ?n - ?q)\<rparr>, Suc ?q,
          [((), slot_proto (blk ?s) ?q, View (?q mod BUFFER_SLOTS) ?q)])"
      by (simp add: Let_def)
    let ?s1 = "?s\<lparr>sems := (sems ?s)(CONTROL_SEMS + c := ?n - ?q)\<rparr>"
    let ?B1 = "set_end c (\<lambda>e. e\<lparr>ep_next := Suc ?q\<rparr>) (B\<lparr>bus_ipc := ?s1\<rparr>)"
    have proc: "process ?B1 c = (ep_protocol (ends c))\<lparr>local_block := blk ?s\<rparr>" "ep_object (bus_ends ?B1 c) = ep_object (ends c)"
      using rel(3) by (simp_all add: process_def same_process_def)
    have "process_ok (ep_object (ends c)) (process ?B1 c)" using assms(1) c unfolding proc(1) by (simp add: ends_ok_def)
    from local_arrival [OF this slot(2)] obtain fw where fw: "update_local ?f (process ?B1 c) =
        Some (fw @ (if hears (process ?B1 c) m = [] then [Free_local] else [Queue (ep_object (ends c)) ?f]), None)"
      "\<forall>act \<in> set fw. \<exists>x. act = Remote_send x"
      by (elim exE conjE)
    have "hears (process ?B1 c) m = hears (ep_protocol (ends c)) m" unfolding proc(1) by simp
    with fw(1) have up: "update_local ?f (process ?B1 c) =
        Some (fw @ (if listens ends c m then [Queue (ep_object (ends c)) ?f] else [Free_local]), None)"
      by (simp add: listens_def)
    let ?B2 = "if listens ends c m then set_end c (\<lambda>e. e\<lparr>ep_views := ep_views e @ [?q]\<rparr>) ?B1
      else ?B1\<lparr>bus_ipc := release_frame True c ?q ?s1\<rparr>"
    have "bus_step (Bus_turn c) B = Some (?B2, [])"
      using turn up proc(2) fold_on_view_remote [OF fw(2)]
      by (simp add: bus_step_def bus_turn_def q(1) bus_handle_def on_view_def nic_free_def)
    moreover have "bus_rel procs ends ?B2 (if listens ends c m
        then t\<lparr>tb_next := (tb_next t)(c := Suc ?q), tb_views := (tb_views t)(c := tb_views t c @ [?q])\<rparr>
        else t\<lparr>tb_next := (tb_next t)(c := Suc ?q), tb_done := (tb_done t)(c := ?q)\<rparr>)" (is "bus_rel _ _ _ ?t2")
    proof -
      have "end_rel ?B2 ?t2 d" if "d \<in> procs" for d
      proof -
        have "end_rel B t d" using assms(3) that by (simp add: bus_rel_def)
        then show ?thesis using False q(2,4) by (auto simp: end_rel_def shm_simps)
      qed
      moreover have "slots_show (blk (bus_ipc ?B2)) (tb_log ?t2)" using rel(1) by (auto simp: slots_show_def)
      moreover have "sems (bus_ipc ?B2) CLAIM_SEM > 0" using assms(3) by (simp add: bus_rel_def shm_simps)
      ultimately show ?thesis using assms(3) by (auto simp: bus_rel_def same_process_def)
    qed
    ultimately show ?thesis using False am by (auto simp: table_step_def Let_def)
  qed
qed

lemma take_simulates:
  assumes "ends_ok procs ends" "event_ok procs ends (Bus_take c junk)" "bus_rel procs ends B t"
  shows "rel_option (rel_prod (bus_rel procs ends) (=)) (bus_step (Bus_take c junk) B)
    (table_step procs (own_address ends) (listens ends) (Bus_take c junk) t)"
proof -
  let ?s = "bus_ipc B" and ?n = "length (tb_log t)"
  have c: "c \<in> procs" using assms(2) by (simp add: event_ok_def)
  have rel: "slots_show (blk ?s) (tb_log t)" "end_rel B t c" "same_process (bus_ends B c) (ends c)"
    using assms(3) c by (auto simp: bus_rel_def)
  have views: "ep_views (bus_ends B c) = tb_views t c" using rel(2) by (simp add: end_rel_def)
  show ?thesis
  proof (cases "tb_views t c")
    case Nil
    then have "comm_receive (message_buffer junk 1024) (comm_of B c) = Some Blocks"
      by (simp add: comm_receive_def comm_of_def views sem_p_def)
    with Nil show ?thesis by (simp add: bus_step_def bus_take_def table_step_def)
  next
    case (Cons q qs)
    let ?f = "slot_frame (buffer (blk ?s) (q mod BUFFER_SLOTS))" and ?l = "latest ?n q"
    have q: "1 \<le> q" "q \<le> ?n" "q < tb_next t c" "set qs \<subseteq> {1..<tb_next t c}" using rel(2) Cons by (auto simp: end_rel_def)
    note L = latest_range [OF q(1,2)]
    obtain a m where am: "tb_log t ! (?l - 1) = (a, m)" by fastforce
    have f: "shows_message (a, m) ?f" using rel(1) L am unfolding slots_show_def by metis
    then have m: "length (m_payload m) \<le> 1478" by (simp add: shows_message_def)
    obtain k loc where F: "carries ?f (packet k loc (port a) (port (m_destination m)) (get_bytes (segment_of m)))"
        "shost (fr_header ?f) = paddr a"
      using shows_messageD [OF f] by metis
    let ?rest = "map (\<lambda>q. slot_frame (buffer (blk ?s) (q mod BUFFER_SLOTS))) qs"
    have inbox: "qo_ok (c_inbox (comm_of B c))" "qo_data (c_inbox (comm_of B c)) = ?f # ?rest"
      by (simp_all add: comm_of_def views Cons qo_ok_def)
    have "take (min (min 1015 k) 1024) xs @ replicate (min 1015 k - 1024) 0 = take 1015 xs" if "k = length xs" for k and xs :: bytes
      by (simp add: that min_def)
    then have "\<exists>d. comm_receive (message_buffer junk 1024) (comm_of B c) = Some (Got (as_received a m) d True)"
      using comm_receive_frame [OF F(1) inbox, of "message_buffer junk 1024"] F(2)
      by (simp add: message_buffer_def as_received_def)
    then have step: "bus_step (Bus_take c junk) B = Some ((set_end c (\<lambda>e. e\<lparr>ep_views := qs\<rparr>) B)
        \<lparr>bus_ipc := release_frame True c q ?s\<rparr>, [(c, as_received a m)])"
      by (auto simp: bus_step_def bus_take_def views Cons nic_free_def)
    let ?B2 = "(set_end c (\<lambda>e. e\<lparr>ep_views := qs\<rparr>) B)\<lparr>bus_ipc := release_frame True c q ?s\<rparr>"
    let ?t2 = "t\<lparr>tb_views := (tb_views t)(c := qs), tb_done := (tb_done t)(c := q)\<rparr>"
    have "end_rel ?B2 ?t2 d" if "d \<in> procs" for d
    proof -
      have "end_rel B t d" using assms(3) that by (simp add: bus_rel_def)
      then show ?thesis using q Cons by (auto simp: end_rel_def shm_simps)
    qed
    moreover have "slots_show (blk (bus_ipc ?B2)) (tb_log ?t2)" using rel(1) by (auto simp: slots_show_def)
    moreover have "sems (bus_ipc ?B2) CLAIM_SEM > 0" using assms(3) by (simp add: bus_rel_def shm_simps)
    ultimately have "bus_rel procs ends ?B2 ?t2" using assms(3) by (auto simp: bus_rel_def same_process_def)
    then show ?thesis using step Cons am by (simp add: table_step_def)
  qed
qed

lemma bus_run_simulates:
  assumes "ends_ok procs ends" "\<And>ev. ev \<in> set evs \<Longrightarrow> event_ok procs ends ev" "bus_rel procs ends B t"
  shows "rel_option (rel_prod (bus_rel procs ends) (=)) (run_events bus_step evs B)
    (run_events (table_step procs (own_address ends) (listens ends)) evs t)"
proof (rule run_events_simulates [where R = "bus_rel procs ends", OF _ assms(3)])
  fix ev B t assume ev: "ev \<in> set evs" and rel: "bus_rel procs ends B t"
  note ok = assms(2) [OF ev]
  show "rel_option (rel_prod (bus_rel procs ends) (=)) (bus_step ev B) (table_step procs (own_address ends) (listens ends) ev t)"
    using send_simulates [OF assms(1) _ rel] turn_simulates [OF assms(1) _ rel] take_simulates [OF assms(1) _ rel] ok
    by (cases ev) simp_all
qed

lemma bus_run_table:
  assumes "ends_ok procs ends" "\<forall>ev \<in> set evs. event_ok procs ends ev" "bus_rel procs ends B t"
  shows "run_events bus_step evs B = Some (B', outs) \<Longrightarrow>
      \<exists>t'. run_events (table_step procs (own_address ends) (listens ends)) evs t = Some (t', outs) \<and> bus_rel procs ends B' t'"
    "run_events (table_step procs (own_address ends) (listens ends)) evs t = Some (t', outs) \<Longrightarrow>
      \<exists>B'. run_events bus_step evs B = Some (B', outs) \<and> bus_rel procs ends B' t'"
  using bus_run_simulates [OF assms(1) _ assms(3), of evs] assms(2) by (auto elim: option.rel_cases)

lemma bus_step_None:
  assumes "ends_ok procs ends" "event_ok procs ends ev" "bus_rel procs ends B t"
  shows "bus_step ev B = None \<longleftrightarrow> table_step procs (own_address ends) (listens ends) ev t = None"
  using bus_run_simulates [OF assms(1) _ assms(3), of "[ev]"] assms(2) by (auto elim: option.rel_cases split: option.splits)

end
