(* ===== verification/Vehicle_Queue.thy ===== *)
theory Vehicle_Queue
  imports Vehicle_Bus
begin

text \<open>
  What the bus of a vehicle is to its processes.  If every process listens to all messages or to none it is a
  bounded queue for each of them; a process that listens to some of them only can lose a message it
  has not read yet and stop the bus.
\<close>

section \<open>First in, first out\<close>

definition table_empty :: table where
  "table_empty = \<lparr>tb_log = [], tb_next = (\<lambda>_. 1), tb_views = (\<lambda>_. []), tb_done = (\<lambda>_. 0)\<rparr>"

definition bus_start :: "nat set \<Rightarrow> (nat \<Rightarrow> 'o endpoint) \<Rightarrow> 'o bus \<Rightarrow> bool" where
  "bus_start procs ends B \<longleftrightarrow> slots_show (blk (bus_ipc B)) [] \<and> sems (bus_ipc B) CLAIM_SEM > 0 \<and>
     (\<forall>c<MAX_CLIENTS. cl_active (client_registry (blk (bus_ipc B)) c) \<longleftrightarrow> c \<in> procs) \<and>
     (\<forall>c\<in>procs. bus_ends B c = ends c \<and> ep_next (ends c) = 1 \<and> ep_views (ends c) = [] \<and>
        last_read_sequence_id (client_registry (blk (bus_ipc B)) c) = 0 \<and> sems (bus_ipc B) (CONTROL_SEMS + c) = 0)"

lemma bus_start_rel: "bus_start procs ends B \<Longrightarrow> bus_rel procs ends B table_empty"
  by (auto simp: bus_start_def bus_rel_def end_rel_def table_empty_def same_process_def BUFFER_SLOTS_def)

text \<open>What was sent, and how often a process read the ring and its queue.\<close>

definition sent_on :: "(nat \<Rightarrow> address) \<Rightarrow> bus_event list \<Rightarrow> (address \<times> message) list" where
  "sent_on addr evs = concat (map (\<lambda>ev. case ev of Bus_send c m \<Rightarrow> [(addr c, m)] | _ \<Rightarrow> []) evs)"

definition turns_of :: "nat \<Rightarrow> bus_event list \<Rightarrow> nat" where
  "turns_of c evs = count_list evs (Bus_turn c)"

definition takes_of :: "nat \<Rightarrow> bus_event list \<Rightarrow> nat" where
  "takes_of c evs = length (filter (\<lambda>ev. case ev of Bus_take d junk \<Rightarrow> d = c | _ \<Rightarrow> False) evs)"

definition received_by :: "nat \<Rightarrow> (nat \<times> message) list \<Rightarrow> message list" where
  "received_by c outs = map snd (filter (\<lambda>x. fst x = c) outs)"

lemma event_counts_snoc [simp]:
  "sent_on addr (evs @ [ev]) = sent_on addr evs @ (case ev of Bus_send c m \<Rightarrow> [(addr c, m)] | _ \<Rightarrow> [])"
  "turns_of c (evs @ [ev]) = turns_of c evs + (if ev = Bus_turn c then 1 else 0)"
  "takes_of c (evs @ [ev]) = takes_of c evs + (case ev of Bus_take d junk \<Rightarrow> if d = c then 1 else 0 | _ \<Rightarrow> 0)"
  "received_by c (outs @ outs') = received_by c outs @ received_by c outs'"
  by (auto simp: sent_on_def turns_of_def takes_of_def received_by_def split: bus_event.split)

text \<open>
  The table when every process listens either to all messages or to none; \<open>L\<close> are those that listen.
\<close>

definition fifo_state :: "nat set \<Rightarrow> (nat \<Rightarrow> address) \<Rightarrow> nat \<Rightarrow> bus_event list \<Rightarrow> table \<Rightarrow> (nat \<times> message) list \<Rightarrow> bool" where
  "fifo_state L addr c evs t outs \<longleftrightarrow> tb_log t = sent_on addr evs \<and> tb_next t c = Suc (turns_of c evs) \<and>
     turns_of c evs \<le> length (sent_on addr evs) \<and> length (sent_on addr evs) < tb_done t c + BUFFER_SLOTS \<and>
     (if c \<in> L then tb_done t c = takes_of c evs \<and> takes_of c evs \<le> turns_of c evs \<and>
          tb_views t c = [Suc (takes_of c evs)..<Suc (turns_of c evs)]
      else tb_done t c = turns_of c evs \<and> takes_of c evs = 0 \<and> tb_views t c = []) \<and>
     received_by c outs = map (\<lambda>(a, m). as_received a m) (take (takes_of c evs) (sent_on addr evs))"

lemma latest_recent: "n < q + BUFFER_SLOTS \<Longrightarrow> latest n q = q"
  by (simp add: latest_def BUFFER_SLOTS_def)

lemma table_is_fifo:
  assumes "run_events (table_step procs addr hear) evs table_empty = Some (t, outs)" "c \<in> procs"
    and "\<forall>am \<in> set (sent_on addr evs). hear c (snd am) \<longleftrightarrow> c \<in> L"
  shows "fifo_state L addr c evs t outs"
  using assms
proof (induction evs arbitrary: t outs rule: rev_induct)
  case Nil
  then show ?case
    by (auto simp: fifo_state_def table_empty_def sent_on_def turns_of_def takes_of_def received_by_def BUFFER_SLOTS_def)
next
  case (snoc ev evs)
  obtain t1 outs1 out where 1: "run_events (table_step procs addr hear) evs table_empty = Some (t1, outs1)"
      "table_step procs addr hear ev t1 = Some (t, out)" "outs = outs1 @ out"
    using snoc.prems(1) by (auto simp: run_events_append split: option.splits)
  have "\<forall>am \<in> set (sent_on addr evs). hear c (snd am) \<longleftrightarrow> c \<in> L" using snoc.prems(3) by auto
  from snoc.IH [OF 1(1) snoc.prems(2) this] have inv: "fifo_state L addr c evs t1 outs1" .
  show ?case
  proof (cases ev)
    case (Bus_send d m)
    then have "Suc (length (tb_log t1)) < tb_done t1 c + BUFFER_SLOTS" "t = t1\<lparr>tb_log := tb_log t1 @ [(addr d, m)]\<rparr>" "out = []"
      using 1(2) snoc.prems(2) by (auto simp: table_step_def split: if_splits)
    then show ?thesis using inv Bus_send 1(3) by (auto simp: fifo_state_def received_by_def)
  next
    case (Bus_turn d)
    show ?thesis
    proof (cases "d = c")
      case True
      let ?q = "tb_next t1 c"
      have q: "?q = Suc (turns_of c evs)" "?q \<le> length (tb_log t1)" using inv 1(2) Bus_turn True
        by (auto simp: fifo_state_def table_step_def Let_def split: if_splits)
      have "tb_log t1 ! (?q - 1) \<in> set (sent_on addr evs)" using inv q by (simp add: fifo_state_def)
      then have "hear c (snd (tb_log t1 ! (?q - 1))) \<longleftrightarrow> c \<in> L" using snoc.prems(3) by auto
      then show ?thesis using inv 1(2,3) Bus_turn True q
        by (auto simp: fifo_state_def table_step_def Let_def received_by_def split: if_splits)
    next
      case False
      then show ?thesis using inv 1(2,3) Bus_turn
        by (auto simp: fifo_state_def table_step_def Let_def received_by_def split: if_splits)
    qed
  next
    case (Bus_take d junk)
    show ?thesis
    proof (cases "d = c")
      case True
      then obtain q qs a m where q: "tb_views t1 c = q # qs" "tb_log t1 ! (latest (length (tb_log t1)) q - 1) = (a, m)"
          "t = t1\<lparr>tb_views := (tb_views t1)(c := qs), tb_done := (tb_done t1)(c := q)\<rparr>" "out = [(c, as_received a m)]"
        using 1(2) Bus_take by (auto simp: table_step_def split: list.splits prod.splits)
      have L: "c \<in> L" using inv q(1) by (auto simp: fifo_state_def split: if_splits)
      have "[Suc (takes_of c evs)..<Suc (turns_of c evs)] = q # qs"
        using inv q(1) L by (simp add: fifo_state_def del: upt_Suc)
      then have v: "q = Suc (takes_of c evs)" "takes_of c evs < turns_of c evs" "qs = [Suc (Suc (takes_of c evs))..<Suc (turns_of c evs)]"
        by (auto simp: upt_eq_Cons_conv simp del: upt_Suc)
      have "latest (length (tb_log t1)) q = q" using inv L v by (intro latest_recent) (simp add: fifo_state_def)
      then have "sent_on addr evs ! takes_of c evs = (a, m)" using q(2) v(1) inv by (simp add: fifo_state_def)
      moreover have "takes_of c evs < length (sent_on addr evs)" using inv v(2) by (simp add: fifo_state_def)
      ultimately show ?thesis using inv L q v Bus_take True 1(3)
        by (auto simp: fifo_state_def received_by_def take_Suc_conv_app_nth simp del: upt_Suc)
    next
      case False
      then show ?thesis using inv 1(2,3) Bus_take
        by (auto simp: fifo_state_def table_step_def received_by_def split: list.splits prod.splits)
    qed
  qed
qed

text \<open>How many messages a process is done with.\<close>

definition released_by :: "(nat \<Rightarrow> 'o endpoint) \<Rightarrow> nat \<Rightarrow> bus_event list \<Rightarrow> nat" where
  "released_by ends c evs = (if \<forall>am \<in> set (sent_on (own_address ends) evs). listens ends c (snd am)
     then takes_of c evs else turns_of c evs)"

text \<open>
  C5. The bus of a vehicle is a queue for every process.  As long as each process listens either to all
  messages or to none, in whatever order the processes send, read the ring and take messages, each process
  has been handed exactly the first messages anybody sent, in the order of the sends, as many as it
  took, with sender, type, time stamp and up to 1015 bytes of payload; a process takes a
  message unless its queue is empty, reads the ring unless it has read all of it, and a send blocks exactly
  if some process has 31 messages it is not done with: one less than the ring has slots.
\<close>

theorem vehicle_bus_fifo:
  assumes "ends_ok procs ends" "bus_start procs ends B" "\<forall>ev \<in> set evs. event_ok procs ends ev"
    and "\<forall>d\<in>procs. (\<forall>am \<in> set (sent_on (own_address ends) evs). listens ends d (snd am)) \<or>
       (\<forall>am \<in> set (sent_on (own_address ends) evs). \<not> listens ends d (snd am))"
    and "run_events bus_step evs B = Some (B', outs)" "c \<in> procs"
  shows "received_by c outs = map (\<lambda>(a, m). as_received a m) (take (takes_of c evs) (sent_on (own_address ends) evs)) \<and>
    (bus_step (Bus_take c junk) B' \<noteq> None \<longleftrightarrow>
       takes_of c evs < turns_of c evs \<and> (\<forall>am \<in> set (sent_on (own_address ends) evs). listens ends c (snd am))) \<and>
    (bus_step (Bus_turn c) B' \<noteq> None \<longleftrightarrow> turns_of c evs < length (sent_on (own_address ends) evs)) \<and>
    (event_ok procs ends (Bus_send c m) \<longrightarrow> (bus_step (Bus_send c m) B' \<noteq> None \<longleftrightarrow>
       (\<forall>d\<in>procs. length (sent_on (own_address ends) evs) < released_by ends d evs + 31)))"
proof -
  let ?log = "sent_on (own_address ends) evs" and ?table = "table_step procs (own_address ends) (listens ends)"
  define L where "L = {c. \<forall>am \<in> set ?log. listens ends c (snd am)}"
  obtain t where t: "run_events ?table evs table_empty = Some (t, outs)" "bus_rel procs ends B' t"
    using bus_run_table(1) [OF assms(1,3) bus_start_rel [OF assms(2)] assms(5)] by blast
  have inv: "fifo_state L (own_address ends) d evs t outs" if "d \<in> procs" for d
    using table_is_fifo [OF t(1) that, of L] assms(4) that by (auto simp: L_def)
  have released: "tb_done t d = released_by ends d evs" if "d \<in> procs" for d
    using inv [OF that] by (auto simp: fifo_state_def released_by_def L_def split: if_splits)
  have step: "bus_step ev B' \<noteq> None \<longleftrightarrow> ?table ev t \<noteq> None" if "event_ok procs ends ev" for ev
    using bus_step_None [OF assms(1) that t(2)] by simp
  show ?thesis
  proof (intro conjI impI)
    show "received_by c outs = map (\<lambda>(a, m). as_received a m) (take (takes_of c evs) ?log)"
      using inv [OF assms(6)] by (simp add: fifo_state_def)
    show "bus_step (Bus_take c junk) B' \<noteq> None \<longleftrightarrow> takes_of c evs < turns_of c evs \<and> (\<forall>am \<in> set ?log. listens ends c (snd am))"
      using inv [OF assms(6)] step [of "Bus_take c junk"] assms(6)
      by (auto simp: event_ok_def table_step_def fifo_state_def L_def split: list.split prod.split if_splits)
    show "bus_step (Bus_turn c) B' \<noteq> None \<longleftrightarrow> turns_of c evs < length ?log"
      using inv [OF assms(6)] step [of "Bus_turn c"] assms(6) by (auto simp: event_ok_def table_step_def Let_def fifo_state_def)
    show "bus_step (Bus_send c m) B' \<noteq> None \<longleftrightarrow> (\<forall>d\<in>procs. length ?log < released_by ends d evs + 31)"
      if "event_ok procs ends (Bus_send c m)"
    proof -
      have "tb_log t = ?log" using inv [OF assms(6)] by (simp add: fifo_state_def)
      then show ?thesis unfolding step [OF that] by (simp add: table_step_def released BUFFER_SLOTS_def add.commute)
    qed
  qed
qed

section \<open>Messages nobody in the process listens to\<close>

text \<open>
  One unread message of the process \<open>c\<close>, and \<open>k\<close> later ones it does not listen to, all
  released at once.
\<close>

definition one_unread :: "nat \<Rightarrow> nat \<Rightarrow> address \<Rightarrow> message \<Rightarrow> message \<Rightarrow> nat \<Rightarrow> table \<Rightarrow> bool" where
  "one_unread c d a m1 m2 k t \<longleftrightarrow> tb_log t = (a, m1) # replicate k (a, m2) \<and>
     tb_next t c = k + 2 \<and> tb_views t c = [1] \<and> tb_done t c = (if k = 0 then 0 else k + 1) \<and>
     tb_next t d = k + 2 \<and> tb_views t d = [] \<and> tb_done t d = k + 1"

definition one_round :: "nat \<Rightarrow> nat \<Rightarrow> message \<Rightarrow> bus_event list" where
  "one_round c d m = [Bus_send d m, Bus_turn d, Bus_turn c]"

lemma rounds_run:
  assumes "c \<noteq> d" "hear c m1" "\<not> hear c m2" "\<not> hear d m1" "\<not> hear d m2"
  shows "\<exists>t. run_events (table_step {c, d} addr hear) (one_round c d m1 @ concat (replicate k (one_round c d m2))) table_empty = Some (t, []) \<and>
    one_unread c d (addr d) m1 m2 k t"
proof (induction k)
  case 0
  show ?case using assms
    by (auto simp: one_round_def table_step_def table_empty_def one_unread_def BUFFER_SLOTS_def)
next
  case (Suc k)
  then obtain t where t: "run_events (table_step {c, d} addr hear) (one_round c d m1 @ concat (replicate k (one_round c d m2))) table_empty = Some (t, [])"
      "one_unread c d (addr d) m1 m2 k t" by blast
  have r: "((addr d, m1) # replicate k (addr d, m2) @ [(addr d, m2)]) ! (k + 1) = (addr d, m2)"
    by (simp add: nth_append)
  have "\<exists>t'. run_events (table_step {c, d} addr hear) (one_round c d m2) t = Some (t', []) \<and> one_unread c d (addr d) m1 m2 (Suc k) t'"
    using t(2) assms r
    by (auto simp: one_round_def table_step_def one_unread_def BUFFER_SLOTS_def replicate_append_same)
  moreover have "one_round c d m1 @ concat (replicate (Suc k) (one_round c d m2)) =
      (one_round c d m1 @ concat (replicate k (one_round c d m2))) @ one_round c d m2"
    by (simp flip: replicate_append_same)
  ultimately show ?case using run_events_seq [OF t(1)] by (metis append_Nil)
qed

text \<open>
  C6. A message can be overwritten before it is read, and reading it stops the bus.  The view of a
  message for the process \<open>c\<close> waits in the queue of its communicator; 32 messages pass it for which
  nobody in \<open>c\<close> listens, each released by the protocol at once.  No send blocks, although the view is still
  in use; what the application then takes is the last of the messages that were not for it.  Freeing the
  view moves the reader counter of \<open>c\<close> back to 1, and from then on every send blocks, and with nothing
  left to read, so does everybody.
\<close>

theorem unread_message_overwritten:
  assumes "ends_ok {c, d} ends" "bus_start {c, d} ends B" "c \<noteq> d"
    and "event_ok {c, d} ends (Bus_send d m1)" "event_ok {c, d} ends (Bus_send d m2)"
    and "listens ends c m1" "\<not> listens ends c m2" "\<not> listens ends d m1" "\<not> listens ends d m2"
  shows "\<exists>B'. run_events bus_step (one_round c d m1 @ concat (replicate 32 (one_round c d m2)) @ [Bus_take c junk]) B
      = Some (B', [(c, as_received (own_address ends d) m2)]) \<and>
    (\<forall>ev. event_ok {c, d} ends ev \<longrightarrow> bus_step ev B' = None)"
proof -
  let ?evs = "(one_round c d m1 @ concat (replicate 32 (one_round c d m2))) @ [Bus_take c junk]"
  let ?table = "table_step {c, d} (own_address ends) (listens ends)"
  obtain t where t: "run_events ?table (one_round c d m1 @ concat (replicate 32 (one_round c d m2))) table_empty = Some (t, [])"
      "one_unread c d (own_address ends d) m1 m2 32 t"
    using rounds_run [of c d "listens ends" m1 m2 "own_address ends" 32] assms(3,6-9) by blast
  let ?t = "t\<lparr>tb_views := (tb_views t)(c := []), tb_done := (tb_done t)(c := 1)\<rparr>"
  have "tb_log t ! (latest (length (tb_log t)) 1 - 1) = (own_address ends d, m2)"
    using t(2) by (simp add: one_unread_def latest_def BUFFER_SLOTS_def)
  then have "?table (Bus_take c junk) t = Some (?t, [(c, as_received (own_address ends d) m2)])"
    using t(2) by (simp add: table_step_def one_unread_def)
  then have run: "run_events ?table ?evs table_empty = Some (?t, [(c, as_received (own_address ends d) m2)])"
    using run_events_seq [OF t(1), of "[Bus_take c junk]"] by simp
  have stuck: "?table ev ?t = None" if "event_ok {c, d} ends ev" for ev
    using t(2) that assms(3)
    by (cases ev) (auto simp: event_ok_def table_step_def one_unread_def BUFFER_SLOTS_def)
  have "\<forall>ev \<in> set ?evs. event_ok {c, d} ends ev"
    using assms(4,5) by (auto simp: one_round_def event_ok_def)
  from bus_run_table(2) [OF assms(1) this bus_start_rel [OF assms(2)] run]
  obtain B' where B': "run_events bus_step ?evs B = Some (B', [(c, as_received (own_address ends d) m2)])" "bus_rel {c, d} ends B' ?t"
    by blast
  have "bus_step ev B' = None" if "event_ok {c, d} ends ev" for ev
    using bus_step_None [OF assms(1) that B'(2)] stuck [OF that] by simp
  with B'(1) show ?thesis by auto
qed

section \<open>A concrete vehicle\<close>

text \<open>The gateway is process 0; the component \<open>c\<close> listens at port 1000 + \<open>c\<close>.\<close>

definition sample_ends :: "nat \<Rightarrow> nat endpoint" where
  "sample_ends c = \<lparr>ep_protocol = (if c = 0 then sample_gateway else init_component sample_gateway)
       \<lparr>port_observed := attach observed_empty (Some c) (1000 + of_nat c)\<rparr>,
     ep_object = c, ep_comm = \<lparr>c_address = local (1000 + of_nat c), c_inbox = qo_init, c_types = []\<rparr>,
     ep_next = 1, ep_views = []\<rparr>"

definition sample_bus :: "nat set \<Rightarrow> nat bus" where
  "sample_bus procs = \<lparr>bus_ipc = \<lparr>blk = (init_block sample_block)
       \<lparr>client_registry := (\<lambda>i. \<lparr>cl_active = i \<in> procs, process_id = i, last_read_sequence_id = 0\<rparr>)\<rparr>,
       sems = (\<lambda>k. if k = CLAIM_SEM then 1 else 0), ipc_alive = True\<rparr>,
     bus_ends = sample_ends\<rparr>"

definition to_port :: "u16 \<Rightarrow> bytes \<Rightarrow> message" where
  "to_port p d = message_of 5 (local p) CONTROL d"

lemma one_listener: "targets (attach observed_empty (Some c) k) k' = (if k = k' then [c] else [])"
  by (simp add: targets_attach) (simp add: targets_def observed_empty_def)

lemma sample_ends_ok: "procs \<subseteq> {0, 1, 2} \<Longrightarrow> ends_ok procs sample_ends"
  by (auto simp: ends_ok_def sample_ends_def process_ok_def sample_gateway_def init_component_def one_listener MAX_CLIENTS_def
      observers_ok_def observed_ok_def attach_def observed_empty_def targets_def sample_nic_def nic_address_def BROADCAST_ADDR_def)

lemma sample_bus_start: "bus_start procs sample_ends (sample_bus procs)"
  by (simp add: bus_start_def sample_bus_def sample_ends_def slots_show_def init_block_def sample_block_def shm_simps)

lemma sample_listens:
  "listens sample_ends c (to_port p d) \<longleftrightarrow> p \<noteq> 0 \<and> p = 1000 + of_nat c"
  by (auto simp: listens_def hears_def sample_ends_def to_port_def message_of_def local_def init_component_def one_listener
      TYPE_BASED_ROUTING_PORT_def LOCAL_ADDR_def BROADCAST_ADDR_def msg_type_of_def)

lemma sample_events:
  "c \<in> procs \<Longrightarrow> c \<noteq> 0 \<Longrightarrow> length d \<le> 1478 \<Longrightarrow> event_ok procs sample_ends (Bus_send c (to_port p d))"
  by (simp add: event_ok_def sample_ends_def init_component_def to_port_def message_of_def)

theorem vehicle_bus_fifo_witness:
  "\<exists>B' outs. run_events bus_step [Bus_send 1 (to_port 1002 [7]), Bus_turn 0, Bus_send 1 (to_port 1002 [8]), Bus_turn 2, Bus_turn 2,
       Bus_take 2 0] (sample_bus {0, 1, 2}) = Some (B', outs) \<and>
     received_by 2 outs = [as_received (local 1001) (to_port 1002 [7])] \<and> bus_step (Bus_take 2 0) B' \<noteq> None"
proof -
  let ?evs = "[Bus_send 1 (to_port 1002 [7]), Bus_turn 0, Bus_send 1 (to_port 1002 [8]), Bus_turn 2, Bus_turn 2, Bus_take 2 0]"
  let ?B = "sample_bus {0, 1, 2}"
  note ok = sample_ends_ok [of "{0, 1, 2}", OF order_refl] and start = sample_bus_start [of "{0, 1, 2}"]
  have evs: "\<forall>ev \<in> set ?evs. event_ok {0, 1, 2} sample_ends ev"
    using sample_events by (simp add: event_ok_def sample_ends_def init_component_def to_port_def message_of_def)
  have sent: "sent_on (own_address sample_ends) ?evs = [(local 1001, to_port 1002 [7]), (local 1001, to_port 1002 [8])]"
    by (simp add: sent_on_def own_address_def sample_ends_def)
  have L: "listens sample_ends 2 (to_port 1002 d)" "\<not> listens sample_ends 0 (to_port 1002 d)" "\<not> listens sample_ends 1 (to_port 1002 d)" for d
    by (simp_all add: sample_listens)
  have "\<exists>t outs. run_events (table_step {0, 1, 2} (own_address sample_ends) (listens sample_ends)) ?evs table_empty = Some (t, outs)"
    by (simp add: table_step_def table_empty_def L BUFFER_SLOTS_def latest_def)
  then obtain t outs where "run_events (table_step {0, 1, 2} (own_address sample_ends) (listens sample_ends)) ?evs table_empty = Some (t, outs)"
    by blast
  from bus_run_table(2) [OF ok evs bus_start_rel [OF start] this] obtain B' where run: "run_events bus_step ?evs ?B = Some (B', outs)"
    by blast
  have "\<forall>d\<in>{0, 1, 2}. (\<forall>am \<in> set (sent_on (own_address sample_ends) ?evs). listens sample_ends d (snd am)) \<or>
      (\<forall>am \<in> set (sent_on (own_address sample_ends) ?evs). \<not> listens sample_ends d (snd am))"
    unfolding sent using L by simp
  from vehicle_bus_fifo [OF ok start evs this run, of 2 0 "to_port 1002 []"]
  have "received_by 2 outs = [as_received (local 1001) (to_port 1002 [7])]" "bus_step (Bus_take 2 0) B' \<noteq> None"
    unfolding sent using L by (simp_all add: takes_of_def turns_of_def)
  with run show ?thesis by blast
qed

theorem unread_message_overwritten_witness:
  "\<exists>B'. run_events bus_step (one_round 2 1 (to_port 1002 [7]) @ concat (replicate 32 (one_round 2 1 (to_port 1003 [8]))) @ [Bus_take 2 0])
      (sample_bus {2, 1}) = Some (B', [(2, as_received (local 1001) (to_port 1003 [8]))]) \<and>
    bus_step (Bus_send 1 (to_port 1002 [9])) B' = None"
proof -
  have "own_address sample_ends 1 = local 1001" by (simp add: own_address_def sample_ends_def)
  then show ?thesis
    using unread_message_overwritten [of 2 1 sample_ends "sample_bus {2, 1}" "to_port 1002 [7]" "to_port 1003 [8]" 0]
      sample_ends_ok [of "{2, 1}"] sample_bus_start [of "{2, 1}"] sample_events [of 1 "{2, 1}"]
    by (force simp: sample_listens)
qed

end
