(* ===== verification/Network_Exchanges.thy ===== *)
theory Network_Exchanges
  imports Protocol_Safety
begin

text \<open>
  Exchanges between two gateways over the wire, each step through the whole stack: a call of the one
  side becomes a packet, a frame and bytes; the interface of the other side takes them in, and its
  protocol answers.
\<close>

section \<open>One crossing\<close>

text \<open>What an action of the station with interface \<open>xa\<close> does at the station with interface \<open>xb\<close>.\<close>

definition crossing :: "ext_nic \<Rightarrow> 'o action \<Rightarrow> ext_nic \<Rightarrow> env \<Rightarrow> bytes \<Rightarrow> 'o protocol \<Rightarrow> ('o protocol \<times> 'o effect) option" where
  "crossing xa act xb e stale p = (case act of
     Remote_send a \<Rightarrow> (case snd (raw_send (sa_src a) (sa_dst a) (sa_proto a) (sa_data a) (engine xa)) of
         Some raw \<Rightarrow> gateway_turn (xb, e, stale, raw) p
       | None \<Rightarrow> None)
   | _ \<Rightarrow> None)"

text \<open>The stations hear each other, and neither has an address with a meaning of its own.\<close>

definition in_contact :: "ext_nic \<Rightarrow> ext_nic \<Rightarrow> bool" where
  "in_contact xa xb \<longleftrightarrow> nic_quadrant xa = nic_quadrant xb \<and> nic_address xa \<noteq> nic_address xb \<and>
     {nic_address xa, nic_address xb} \<inter> {BROADCAST_ADDR, LOCAL_ADDR} = {}"

definition heard_by :: "ext_nic \<Rightarrow> 'o protocol \<Rightarrow> 'o protocol" where
  "heard_by x p = p\<lparr>local_block := register_nearby_entity (nic_address x) (local_block p)\<rparr>"

lemma heard_by_simps [simp]:
  "crypto (heard_by x p) = crypto p" "external_nic (heard_by x p) = external_nic p" "synchronizer (heard_by x p) = synchronizer p"
  "group_handler (heard_by x p) = group_handler p" "session_key (local_block (heard_by x p)) = session_key (local_block p)"
  by (simp_all add: heard_by_def)

definition acted :: "('o protocol \<times> 'o effect) option \<Rightarrow> ('o protocol \<times> 'o effect) option" where
  "acted r = map_option (\<lambda>(p, acts, err). (p, acts @ [Free_external], None)) r"

lemma payload_behind_headers:
  assumes "22 \<le> unat (w :: u32)"
  shows "unat (ucast w - 5 - 8 - 9 :: u64) = unat w - 22"
proof -
  have "unat w < 2 ^ LENGTH(32)" by (rule unsigned_less)
  then have k: "unat w < 2 ^ 32" by simp
  have "(ucast w :: u64) = of_nat (unat w)" by (simp add: unsigned_of_nat)
  then have "(ucast w - 5 - 8 - 9 :: u64) = of_nat (unat w) - of_nat 22" by simp
  also have "\<dots> = of_nat (unat w - 22)" using assms by (subst of_nat_diff) simp_all
  finally show ?thesis using unat_of_nat_small [of "unat w - 22", where 'a = 64] k by simp
qed

text \<open>A system message crosses: the handler of the other side gets its payload, with the rest of the frame behind it.\<close>

lemma system_crossing:
  assumes contact: "in_contact xa xb" and stale: "length stale = ETH_HEADER_SIZE + ETH_MTU"
    and to: "paddr to = nic_address xb \<or> paddr to = BROADCAST_ADDR"
    and seg: "seg = seg_header_bytes \<lparr>seg_type = msg_type_byte T, seg_timestamp = ts\<rparr> @ pl" "T \<in> {PTP, GROUP}" "length pl \<le> 9"
  shows "\<exists>rest. crossing xa (Remote_send (frame_args from to (packet k (nic_quadrant xa) (port from) (port to) seg))) xb e stale p =
    acted (if T = PTP then handle_ptp_message e xb (pl @ rest) (length pl) \<lparr>paddr = nic_address xa, port = port from\<rparr> to (heard_by xa p)
      else handle_group_message e xb (pl @ rest) (length pl) \<lparr>paddr = nic_address xa, port = port from\<rparr> (heard_by xa p))"
proof -
  let ?d = "packet k (nic_quadrant xa) (port from) (port to) seg"
  have len: "length ?d = 22 + length pl" "length ?d \<le> ETH_DATA_LEN" "?d \<noteq> []" "hd ?d = quadrant_byte (nic_quadrant xb)"
    using contact seg(3) by (simp_all add: seg(1) wire_simps in_contact_def) (simp_all add: packet_def packet_header_def)
  obtain raw where raw: "snd (raw_send (paddr from) (paddr to) ETHERNET_PROTOCOL_NUMBER ?d (engine xa)) = Some raw"
    using len(2) by (simp add: raw_send_def)
  let ?f = "received_frame stale raw"
  note R = received_sent_frame [OF len(2) stale len(3) raw]
  have nic: "handle_frame xb stale raw = Rx_notify ETHERNET_PROTOCOL_NUMBER ?f"
    using R(5) [of xb] len(4) contact by (simp add: in_contact_def nic_address_def)
  have f: "carries ?f ?d" using R(2-4) len(1,2) seg(3) by (simp add: carries_def wire_simps)
  note F = carries_fields [OF f]
  define rest where "rest = drop (length seg) (packet_data (fr_data ?f))"
  have data: "packet_data (fr_data ?f) = seg @ rest" using F(4) unfolding rest_def by (metis append_take_drop_id)
  have h: "dhost (fr_header ?f) = paddr to" "shost (fr_header ?f) = nic_address xa" using R(1) by (simp_all add: nic_address_def)
  have pl: "drop SEG_HEADER_SIZE (packet_data (fr_data ?f)) = pl @ rest" by (simp add: data seg(1) wire_simps)
  have t: "msg_type_of (seg_type (read_seg_header (packet_data (fr_data ?f)))) = Some T" by (simp add: data seg(1))
  have size: "unat (data_length ?f) = 22 + length pl" using F(8) by (simp add: seg(1))
  have n: "unat (ucast (data_length ?f) - of_nat PACKET_HEADER_SIZE - of_nat MAC_SIZE - of_nat SEG_HEADER_SIZE :: u64) = length pl"
    using payload_behind_headers [of "data_length ?f"] size by (simp add: wire_simps)
  let ?from = "\<lparr>paddr = nic_address xa, port = port from\<rparr>"
  let ?r = "if T = PTP then handle_ptp_message e xb (pl @ rest) (length pl) ?from to (heard_by xa p)
    else handle_group_message e xb (pl @ rest) (length pl) ?from (heard_by xa p)"
  have eta: "\<lparr>paddr = paddr to, port = port to\<rparr> = to" by simp
  have "filter_system_messages e xb ?f ?from \<lparr>paddr = paddr to, port = port to\<rparr> (heard_by xa p) = map_option (\<lambda>(p', eff). (p', eff, True)) ?r"
    unfolding eta using seg(2) t n to pl by (auto simp: filter_system_messages_def Let_def)
  then have "update_external e xb ?f p = acted ?r"
    using F(2,3) h size by (cases ?r) (auto simp: update_external_def Let_def acted_def heard_by_def wire_simps split: option.split)
  then show ?thesis using raw nic by (auto simp: crossing_def frame_args_def gateway_turn_def)
qed

text \<open>A handler's call to send becomes one action on the network.\<close>

lemma remote_call:
  assumes "crypto p = Some XorCryptoProvider" "external_nic p = Some x" "paddr to \<notin> {nic_address x, LOCAL_ADDR}" "length seg \<le> PACKET_MTU"
  shows "finish_handler [Send from to seg] err p =
    Some (p, [Remote_send (frame_args from to (packet (session_key (local_block p)) (nic_quadrant x) (port from) (port to) seg))], err)"
  using protocol_send_built [OF assms(1,4), of "from" to] assms(2,3) by (simp add: finish_handler_def run_call_def)

definition gateway_at :: "ext_nic \<Rightarrow> 'o protocol \<Rightarrow> bool" where
  "gateway_at x p \<longleftrightarrow> crypto p = Some XorCryptoProvider \<and> external_nic p = Some x"

lemma gateway_at_simps [simp]:
  "gateway_at x (heard_by y p) = gateway_at x p" "gateway_at x (p\<lparr>synchronizer := sy\<rparr>) = gateway_at x p"
  "gateway_at x (p\<lparr>group_handler := gh\<rparr>) = gateway_at x p" "gateway_at x (p\<lparr>local_block := b\<rparr>) = gateway_at x p"
  by (simp_all add: gateway_at_def)

lemma in_contact_sym: "in_contact xa xb \<Longrightarrow> in_contact xb xa"
  by (auto simp: in_contact_def)

section \<open>Synchronising clocks\<close>

text \<open>What the timer thread asks of the slave, as the protocol carries it out.\<close>

definition ptp_request :: "env \<Rightarrow> ext_nic \<Rightarrow> 'o protocol \<Rightarrow> ('o protocol \<times> 'o effect) option" where
  "ptp_request e x p = (case synchronizer p of
     Slave s \<Rightarrow> (case request_synchronization (now_ms e) (external_address x) s of
        (s', cs, err) \<Rightarrow> finish_handler cs err (p\<lparr>synchronizer := Slave s'\<rparr>))
   | Master \<Rightarrow> Some (p, [], None))"

text \<open>A PTP message of the station at \<open>x\<close> for the one at \<open>to\<close>, as it leaves the protocol.\<close>

definition ptp_action :: "'o protocol \<Rightarrow> ext_nic \<Rightarrow> address \<Rightarrow> u64 \<Rightarrow> sync_type \<Rightarrow> bytes \<Rightarrow> 'o action" where
  "ptp_action p x to ts ty pl = Remote_send (frame_args (external_address x) to
     (packet (session_key (local_block p)) (nic_quadrant x) 0 (port to) (ptp_packet ts ty pl)))"

lemma ptp_action_cong [simp]:
  "ptp_action (heard_by y p) = ptp_action p" "ptp_action (p\<lparr>synchronizer := sy\<rparr>) = ptp_action p"
  by (intro ext; simp add: ptp_action_def)+

lemma external_address_fields [simp]: "paddr (external_address x) = nic_address x" "port (external_address x) = 0"
  by (simp_all add: external_address_def)

lemma ptp_call:
  assumes "gateway_at x p" "paddr to \<notin> {nic_address x, LOCAL_ADDR}" "length pl \<le> 8"
  shows "finish_handler [Send (external_address x) to (ptp_packet ts ty pl)] err p = Some (p, [ptp_action p x to ts ty pl], err)"
proof -
  have "length (ptp_packet ts ty pl) \<le> PACKET_MTU" using assms(3) by (simp add: ptp_packet_def PACKET_MTU_def wire_simps)
  from remote_call [OF _ _ assms(2) this, of p "external_address x" err] assms(1) show ?thesis
    by (simp add: gateway_at_def ptp_action_def)
qed

lemma ptp_crossing:
  assumes "in_contact xa xb" "length stale = ETH_HEADER_SIZE + ETH_MTU" "paddr to = nic_address xb \<or> paddr to = BROADCAST_ADDR" "length pl \<le> 8"
  shows "\<exists>rest. crossing xa (ptp_action pa xa to ts ty pl) xb e stale p =
    acted (handle_ptp_message e xb (sync_type_byte ty # pl @ rest) (Suc (length pl)) (external_address xa) to (heard_by xa p))"
proof -
  have "length (sync_type_byte ty # pl) \<le> 9" using assms(4) by simp
  from system_crossing [OF assms(1-3) ptp_packet_def _ this, of "external_address xa"] show ?thesis
    by (simp add: ptp_action_def external_address_def)
qed

lemma master_answers:
  assumes "gateway_at xm p" "synchronizer p = Master" "in_contact xv xm" "length stale = ETH_HEADER_SIZE + ETH_MTU"
    and "paddr to = nic_address xm \<or> paddr to = BROADCAST_ADDR" "ty \<in> {START, DELAY_REQUEST}"
  shows "crossing xv (ptp_action pv xv to ts ty []) xm e stale p = Some (heard_by xv p,
    [ptp_action p xm (external_address xv) (now_ms e) (if ty = START then SYNC else DELAY_RESPONSE) (le_bytes 8 (now_ms e)), Free_external], None)"
proof -
  obtain rest where c: "crossing xv (ptp_action pv xv to ts ty []) xm e stale p =
      acted (handle_ptp_message e xm (sync_type_byte ty # rest) 1 (external_address xv) to (heard_by xv p))"
    using ptp_crossing [OF assms(3-5), of "[]" pv ts ty e p] by auto
  have m: "master_handle (external_address xm) (now_ms e) (sync_type_byte ty # rest) 1 (external_address xv) to = ((),
      [Send (external_address xm) (external_address xv) (ptp_packet (now_ms e) (if ty = START then SYNC else DELAY_RESPONSE) (le_bytes 8 (now_ms e)))], None)"
    using assms(6) sync_type_of_byte [of ty]
    by (auto simp: master_handle_def wire_simps master_receive_start_def master_receive_delay_req_def simp del: sync_type_of_byte)
  have "paddr (external_address xv) \<notin> {nic_address xm, LOCAL_ADDR}" using assms(3) by (auto simp: in_contact_def)
  from ptp_call [of xm "heard_by xv p", OF _ this, of "le_bytes 8 (now_ms e)"]
  have "handle_ptp_message e xm (sync_type_byte ty # rest) 1 (external_address xv) to (heard_by xv p) = Some (heard_by xv p,
      [ptp_action p xm (external_address xv) (now_ms e) (if ty = START then SYNC else DELAY_RESPONSE) (le_bytes 8 (now_ms e))], None)"
    using assms(1,2) by (simp add: handle_ptp_message_def m del: One_nat_def sync_type_byte.simps)
  then show ?thesis by (simp add: c acted_def)
qed

lemma slave_requests:
  assumes "gateway_at xv p" "synchronizer p = Slave s" "st s = SYNCHRONIZED" "in_contact xv xm"
  shows "ptp_request e xv p = Some (p\<lparr>synchronizer := Slave (s\<lparr>st := AWAITING_SYNC\<rparr>)\<rparr>,
    [ptp_action p xv \<lparr>paddr = BROADCAST_ADDR, port = 0\<rparr> (now_ms e) START []], None)"
proof -
  have "paddr \<lparr>paddr = BROADCAST_ADDR, port = 0\<rparr> \<notin> {nic_address xv, LOCAL_ADDR}"
    using assms(4) by (auto simp: in_contact_def BROADCAST_ADDR_def LOCAL_ADDR_def)
  from ptp_call [of xv "p\<lparr>synchronizer := Slave (s\<lparr>st := AWAITING_SYNC\<rparr>)\<rparr>", OF _ this, of "[]"] show ?thesis
    using assms(1-3) by (simp add: ptp_request_def request_synchronization_def)
qed

lemma slave_hears_sync:
  fixes m1 :: u64
  assumes "gateway_at xv p" "synchronizer p = Slave s" "st s = AWAITING_SYNC" "in_contact xm xv" "length stale = ETH_HEADER_SIZE + ETH_MTU"
  shows "crossing xm (ptp_action pm xm (external_address xv) ts SYNC (le_bytes 8 m1)) xv e stale p =
    Some ((heard_by xm p)\<lparr>synchronizer := Slave (s\<lparr>t1 := m1, t2 := now_ms e, t3 := now_ms' e, st := AWAITING_DELAY_RESP\<rparr>)\<rparr>,
      [ptp_action p xv (external_address xm) (now_ms' e) DELAY_REQUEST [], Free_external], None)"
proof -
  obtain rest where c: "crossing xm (ptp_action pm xm (external_address xv) ts SYNC (le_bytes 8 m1)) xv e stale p =
      acted (handle_ptp_message e xv (sync_type_byte SYNC # le_bytes 8 m1 @ rest) 9 (external_address xm) (external_address xv) (heard_by xm p))"
    using ptp_crossing [OF assms(4,5), of "external_address xv" "le_bytes 8 m1" pm ts SYNC e p] by auto
  have m: "slave_handle (now_ms e) (now_ms' e) (clock_ok e) (sync_type_byte SYNC # le_bytes 8 m1 @ rest) 9 (external_address xm) (external_address xv) s =
      (s\<lparr>t1 := m1, t2 := now_ms e, t3 := now_ms' e, st := AWAITING_DELAY_RESP\<rparr>,
       [Send (external_address xv) (external_address xm) (ptp_packet (now_ms' e) DELAY_REQUEST [])], None)"
    using assms(3) by (simp add: slave_handle_def sync_type_of_def wire_simps receive_sync_def send_delay_req_def payload_time_def read_at_def)
  have "paddr (external_address xm) \<notin> {nic_address xv, LOCAL_ADDR}" using assms(4) by (auto simp: in_contact_def)
  from ptp_call [of xv "(heard_by xm p)\<lparr>synchronizer :=
      Slave (s\<lparr>t1 := m1, t2 := now_ms e, t3 := now_ms' e, st := AWAITING_DELAY_RESP\<rparr>)\<rparr>", OF _ this, of "[]"] show ?thesis
    using assms(1,2) by (simp add: c handle_ptp_message_def acted_def m del: sync_type_byte.simps)
qed

lemma slave_sets_clock:
  fixes m4 :: u64
  assumes "synchronizer p = Slave s" "st s = AWAITING_DELAY_RESP" "clock_ok e" "in_contact xm xv" "length stale = ETH_HEADER_SIZE + ETH_MTU"
  defines "x \<equiv> timed (t1 s) (t2 s) (t3 s) m4"
  shows "crossing xm (ptp_action pm xm (external_address xv) ts DELAY_RESPONSE (le_bytes 8 m4)) xv e stale p =
    Some ((heard_by xm p)\<lparr>synchronizer := Slave (s\<lparr>t1 := 0, t2 := 0, t3 := 0, t4 := 0, st := SYNCHRONIZED\<rparr>)\<rparr>,
      (if sync_defined (now_ms e) x then [] else [Undefined_overflow]) @ [Clock_call (now_ms e - clock_offset x), Free_external], None)"
proof -
  obtain rest where c: "crossing xm (ptp_action pm xm (external_address xv) ts DELAY_RESPONSE (le_bytes 8 m4)) xv e stale p =
      acted (handle_ptp_message e xv (sync_type_byte DELAY_RESPONSE # le_bytes 8 m4 @ rest) 9 (external_address xm) (external_address xv) (heard_by xm p))"
    using ptp_crossing [OF assms(4,5), of "external_address xv" "le_bytes 8 m4" pm ts DELAY_RESPONSE e p] by auto
  have x: "clock_offset (s\<lparr>t4 := m4\<rparr>) = clock_offset x" "sync_defined (now_ms e) (s\<lparr>t4 := m4\<rparr>) = sync_defined (now_ms e) x"
    by (simp_all add: x_def clock_offset_def sync_defined_def)
  show ?thesis unfolding c using assms(1-3)
    by (simp add: handle_ptp_message_def acted_def slave_handle_def sync_type_of_def wire_simps receive_delay_resp_def synchronize_def
        Let_def payload_time_def read_at_def finish_handler_def run_call_def le_word_le_bytes_full x)
qed

text \<open>
  C18. A clock is set over the wire.  A gateway whose clock is \<open>\<theta>\<close> ms ahead asks for the time; its START,
  the roadside unit's SYNC, its DELAY_REQUEST and the DELAY_RESPONSE cross the network as bytes, through
  both interfaces and protocols, whatever keys the two hold, whatever lies in the receive buffers and
  whatever the clocks read otherwise.  Each side answers with exactly one packet, and at the end the
  slave is in its first state and its clock set: with transmission times \<open>d1\<close> and \<open>d2\<close> it is off by at most
  half their difference and the rounding.
\<close>

theorem clock_set_over_the_wire:
  fixes d1 d2 \<theta> ns :: int
  assumes gateways: "gateway_at xv pv" "gateway_at xm pm" "synchronizer pv = Slave s" "st s = SYNCHRONIZED" "synchronizer pm = Master"
    and network: "in_contact xv xm" "\<forall>i. length (stale i) = ETH_HEADER_SIZE + ETH_MTU"
    and times: "uint (now_ms e2) = uint (now_ms e1) + d1 + \<theta>" "uint (now_ms e3) = uint (now_ms' e2) - \<theta> + d2"
      "uint (now_ms e1) < 2 ^ 62" "uint (now_ms e2) < 2 ^ 62" "uint (now_ms' e2) < 2 ^ 62" "uint (now_ms e3) < 2 ^ 62" "uint (now_ms e4) < 2 ^ 62"
      "\<bar>\<theta>\<bar> + \<bar>d1 - d2\<bar> < uint (now_ms e4)"
    and clock: "clock_ok e4"
  shows "\<exists>pv0 pv1 pv2 pm1 a0 a1 a2 a3 v. ptp_request e0 xv pv = Some (pv0, [a0], None) \<and>
    crossing xv a0 xm e1 (stale 1) pm = Some (pm1, [a1, Free_external], None) \<and>
    crossing xm a1 xv e2 (stale 2) pv0 = Some (pv1, [a2, Free_external], None) \<and>
    crossing xv a2 xm e3 (stale 3) pm1 = Some (heard_by xv pm1, [a3, Free_external], None) \<and>
    crossing xm a3 xv e4 (stale 4) pv1 = Some (pv2, [Clock_call v, Free_external], None) \<and>
    synchronizer pv2 = Slave (s\<lparr>t1 := 0, t2 := 0, t3 := 0, t4 := 0\<rparr>) \<and>
    2 * \<bar>getCurrentTimeMillis (fst (setClockAbruptly True v ns)) - (uint (now_ms e4) - \<theta>)\<bar> \<le> \<bar>d1 - d2\<bar> + 1 \<and>
    (d1 = d2 \<longrightarrow> getCurrentTimeMillis (fst (setClockAbruptly True v ns)) = uint (now_ms e4) - \<theta>)"
proof -
  let ?all = "\<lparr>paddr = BROADCAST_ADDR, port = 0\<rparr>"
  let ?pv0 = "pv\<lparr>synchronizer := Slave (s\<lparr>st := AWAITING_SYNC\<rparr>)\<rparr>"
  let ?s1 = "s\<lparr>st := AWAITING_SYNC, t1 := now_ms e1, t2 := now_ms e2, t3 := now_ms' e2, st := AWAITING_DELAY_RESP\<rparr>"
  let ?pv1 = "(heard_by xm ?pv0)\<lparr>synchronizer := Slave ?s1\<rparr>"
  let ?s2 = "?s1\<lparr>t1 := 0, t2 := 0, t3 := 0, t4 := 0, st := SYNCHRONIZED\<rparr>"
  let ?x = "timed (now_ms e1) (now_ms e2) (now_ms' e2) (now_ms e3)"
  let ?v = "now_ms e4 - clock_offset ?x"
  note acc = offset_accuracy [OF times refl, of ns]
  note rev_contact = in_contact_sym [OF network(1)]
  have len: "length (stale i) = ETH_HEADER_SIZE + ETH_MTU" for i using network(2) by blast
  have "ptp_request e0 xv pv = Some (?pv0, [ptp_action pv xv ?all (now_ms e0) START []], None)"
    by (rule slave_requests [OF gateways(1,3,4) network(1)])
  moreover have "crossing xv (ptp_action pv xv ?all (now_ms e0) START []) xm e1 (stale 1) pm = Some (heard_by xv pm,
      [ptp_action pm xm (external_address xv) (now_ms e1) SYNC (le_bytes 8 (now_ms e1)), Free_external], None)"
    using master_answers [OF gateways(2,5) network(1) len [of 1], of ?all START pv "now_ms e0" e1] by simp
  moreover have "crossing xm (ptp_action pm xm (external_address xv) (now_ms e1) SYNC (le_bytes 8 (now_ms e1))) xv e2 (stale 2) ?pv0 =
      Some (?pv1, [ptp_action pv xv (external_address xm) (now_ms' e2) DELAY_REQUEST [], Free_external], None)"
    using slave_hears_sync [of xv ?pv0 "s\<lparr>st := AWAITING_SYNC\<rparr>", OF _ _ _ rev_contact len [of 2], of pm "now_ms e1" "now_ms e1" e2] gateways(1) by simp
  moreover have "crossing xv (ptp_action pv xv (external_address xm) (now_ms' e2) DELAY_REQUEST []) xm e3 (stale 3) (heard_by xv pm) =
      Some (heard_by xv (heard_by xv pm),
        [ptp_action pm xm (external_address xv) (now_ms e3) DELAY_RESPONSE (le_bytes 8 (now_ms e3)), Free_external], None)"
    using master_answers [of xm "heard_by xv pm", OF _ _ network(1) len [of 3], of "external_address xm" DELAY_REQUEST pv "now_ms' e2" e3] gateways(2,5) by simp
  moreover have "crossing xm (ptp_action pm xm (external_address xv) (now_ms e3) DELAY_RESPONSE (le_bytes 8 (now_ms e3))) xv e4 (stale 4) ?pv1 =
      Some ((heard_by xm ?pv1)\<lparr>synchronizer := Slave ?s2\<rparr>, [Clock_call ?v, Free_external], None)"
    using slave_sets_clock [of ?pv1 ?s1, OF _ _ clock rev_contact len [of 4], of pm "now_ms e3" "now_ms e3"] conjunct1 [OF acc] by simp
  moreover have "synchronizer ((heard_by xm ?pv1)\<lparr>synchronizer := Slave ?s2\<rparr>) = Slave (s\<lparr>t1 := 0, t2 := 0, t3 := 0, t4 := 0\<rparr>)"
    using gateways(4) by simp
  moreover note conjunct2 [OF acc]
  ultimately show ?thesis by (intro exI conjI) (assumption | blast)+
qed

text \<open>A roadside unit in the quadrant of the sample gateway.\<close>

definition unit_nic :: ext_nic where
  "unit_nic = \<lparr>engine = sample_engine, nic_quadrant = EAST, fixed_location = True\<rparr>"

definition sample_unit :: "nat protocol" where
  "sample_unit = sample_gateway\<lparr>external_nic := Some unit_nic, synchronizer := Master, group_handler := Leader (fst (leader_init 55 7))\<rparr>"

definition clocks :: "u64 \<Rightarrow> u64 \<Rightarrow> env" where
  "clocks a b = sample_env\<lparr>now_ms := a, now_ms' := b\<rparr>"

lemma sample_stations:
  "gateway_at sample_nic sample_gateway" "gateway_at unit_nic sample_unit" "in_contact sample_nic unit_nic"
  by (simp_all add: gateway_at_def sample_unit_def sample_gateway_fields in_contact_def)
    (simp_all add: unit_nic_def sample_engine_def nic_address_def BROADCAST_ADDR_def LOCAL_ADDR_def)

theorem clock_set_over_the_wire_witness:
  "\<exists>pv a v pv'. crossing unit_nic a sample_nic (clocks 5020 0) (replicate 1514 0xEE) pv = Some (pv' :: nat protocol, [Clock_call v, Free_external], None) \<and>
     synchronizer pv' = Slave slave_init \<and> getCurrentTimeMillis (fst (setClockAbruptly True v 0)) = 1020"
proof -
  have s: "synchronizer sample_gateway = Slave slave_init" "st slave_init = SYNCHRONIZED" "synchronizer sample_unit = Master"
    by (simp_all add: sample_gateway_def sample_unit_def slave_init_def)
  have len: "\<forall>i :: nat. length (replicate 1514 0xEE :: bytes) = ETH_HEADER_SIZE + ETH_MTU" by (simp add: wire_simps)
  have t: "uint (now_ms (clocks 5004 5010)) = uint (now_ms (clocks 1000 0)) + 4 + 4000"
      "uint (now_ms (clocks 1014 0)) = uint (now_ms' (clocks 5004 5010)) - 4000 + 4"
      "uint (now_ms (clocks 1000 0)) < 2 ^ 62" "uint (now_ms (clocks 5004 5010)) < 2 ^ 62" "uint (now_ms' (clocks 5004 5010)) < 2 ^ 62"
      "uint (now_ms (clocks 1014 0)) < 2 ^ 62" "uint (now_ms (clocks 5020 0)) < 2 ^ 62" "\<bar>4000\<bar> + \<bar>4 - 4 :: int\<bar> < uint (now_ms (clocks 5020 0))"
      "clock_ok (clocks 5020 0)"
    by (simp_all add: clocks_def sample_env_def)
  note R = clock_set_over_the_wire [OF sample_stations(1,2) s sample_stations(3) len t, of "clocks 1 1" 0]
  from R obtain a3 v pv1 and pv2 :: "nat protocol" where
      "crossing unit_nic a3 sample_nic (clocks 5020 0) (replicate 1514 0xEE) pv1 = Some (pv2, [Clock_call v, Free_external], None)"
      "synchronizer pv2 = Slave (slave_init\<lparr>t1 := 0, t2 := 0, t3 := 0, t4 := 0\<rparr>)"
      "getCurrentTimeMillis (fst (setClockAbruptly True v 0)) = uint (now_ms (clocks 5020 0)) - 4000"
    by (elim exE conjE) (rule that, assumption, assumption, erule mp, rule refl)
  moreover have "uint (now_ms (clocks 5020 0)) - 4000 = 1020" by (simp add: clocks_def)
  ultimately show ?thesis by (auto simp: slave_init_def)
qed

text \<open>
  C26. Two forged messages take a car into undefined behaviour.  Any station in its quadrant, whatever its session
  key, answers the START of a car with the time \<open>2 ^ 63\<close> and then with any other: the PTP messages are not
  authenticated and the times not checked, so the car subtracts the least signed number from its own time
  and overflows, before it sets its clock to the result.
\<close>

theorem forged_times_overflow:
  fixes pm :: "'a protocol" and pv :: "'a protocol" and m4 :: u64
  assumes car: "gateway_at xv pv" "synchronizer pv = Slave s" "st s = AWAITING_SYNC" "in_time (now_ms e2)" "clock_ok e4"
    and network: "in_contact xm xv" "length stale2 = ETH_HEADER_SIZE + ETH_MTU" "length stale4 = ETH_HEADER_SIZE + ETH_MTU"
  shows "\<exists>pv1 pv2 a2 v.
    crossing xm (ptp_action pm xm (external_address xv) ts SYNC (le_bytes 8 (0x8000000000000000 :: u64))) xv e2 stale2 pv =
      Some (pv1, [a2, Free_external], None) \<and>
    crossing xm (ptp_action pm xm (external_address xv) ts' DELAY_RESPONSE (le_bytes 8 m4)) xv e4 stale4 pv1 =
      Some (pv2, [Undefined_overflow, Clock_call v, Free_external], None)"
proof -
  let ?s1 = "s\<lparr>t1 := 0x8000000000000000, t2 := now_ms e2, t3 := now_ms' e2, st := AWAITING_DELAY_RESP\<rparr>"
  let ?pv1 = "(heard_by xm pv)\<lparr>synchronizer := Slave ?s1\<rparr>"
  have "sint (0x8000000000000000 :: u64) = - (2 ^ 63)" by simp
  then have "\<not> sub_ok (now_ms e2) 0x8000000000000000"
    using early_sint [OF car(4)] by (simp add: sub_ok_def s64_range_def)
  then have "\<not> sync_defined (now_ms e4) (timed (t1 ?s1) (t2 ?s1) (t3 ?s1) m4)" by (simp add: sync_defined_def)
  then show ?thesis
    using slave_hears_sync [OF car(1-3) network(1,2), of pm ts "0x8000000000000000" e2]
      slave_sets_clock [of ?pv1 ?s1, OF _ _ car(5) network(1,3), of pm ts' m4] by simp
qed

theorem forged_times_overflow_witness:
  "\<exists>pv pv' v. crossing unit_nic (ptp_action sample_unit unit_nic (external_address sample_nic) 0 DELAY_RESPONSE (le_bytes 8 (7 :: u64)))
     sample_nic (clocks 5020 0) (replicate 1514 0xEE) pv = Some (pv' :: nat protocol, [Undefined_overflow, Clock_call v, Free_external], None)"
proof -
  let ?p = "sample_gateway\<lparr>synchronizer := Slave (slave_init\<lparr>st := AWAITING_SYNC\<rparr>)\<rparr>"
  have "gateway_at sample_nic ?p" "in_contact unit_nic sample_nic" using sample_stations in_contact_sym by auto
  from forged_times_overflow [OF this(1) _ _ _ _ this(2), of "slave_init\<lparr>st := AWAITING_SYNC\<rparr>" "clocks 5004 5010" "clocks 5020 0"
      "replicate 1514 0xEE" "replicate 1514 0xEE" sample_unit 0 0 7]
  show ?thesis by (auto simp: in_time_def clocks_def sample_env_def wire_simps)
qed

section \<open>Joining a group\<close>

definition group_action :: "'o protocol \<Rightarrow> ext_nic \<Rightarrow> address \<Rightarrow> u64 \<Rightarrow> bytes \<Rightarrow> 'o action" where
  "group_action p x to ts pl = Remote_send (frame_args (external_address x) to
     (packet (session_key (local_block p)) (nic_quadrant x) 0 (port to) (group_segment ts pl)))"

lemma group_call:
  assumes "gateway_at x p" "paddr to \<notin> {nic_address x, LOCAL_ADDR}" "length pl \<le> 9"
  shows "finish_handler [Send (external_address x) to (group_segment ts pl)] err p = Some (p, [group_action p x to ts pl], err)"
proof -
  have "length (group_segment ts pl) \<le> PACKET_MTU" using assms(3) by (simp add: group_segment_def PACKET_MTU_def wire_simps)
  from remote_call [OF _ _ assms(2) this, of p "external_address x" err] assms(1) show ?thesis
    by (simp add: gateway_at_def group_action_def)
qed

lemma group_crossing:
  assumes "in_contact xa xb" "length stale = ETH_HEADER_SIZE + ETH_MTU" "paddr to = nic_address xb \<or> paddr to = BROADCAST_ADDR" "length pl \<le> 9"
  shows "\<exists>rest. crossing xa (group_action pa xa to ts pl) xb e stale p =
    acted (handle_group_message e xb (pl @ rest) (length pl) (external_address xa) (heard_by xa p))"
  using system_crossing [OF assms(1-3) group_segment_def _ assms(4), of "external_address xa"]
  by (simp add: group_action_def external_address_def)

lemma member_announces:
  assumes "gateway_at xv p" "group_handler p = Member" "in_contact xv xl"
  shows "notify_location_change now xv p = Some (p, [group_action p xv all_stations now [group_type_byte JOIN_REQUEST]], None)"
proof -
  have "paddr all_stations \<notin> {nic_address xv, LOCAL_ADDR}"
    using assms(3) by (auto simp: in_contact_def all_stations_def BROADCAST_ADDR_def LOCAL_ADDR_def)
  from group_call [OF assms(1) this, of "[group_type_byte JOIN_REQUEST]"] assms(2) show ?thesis
    by (simp add: notify_location_change_def member_notify_location_change_def)
qed

lemma leader_admits:
  assumes "gateway_at xl p" "group_handler p = Leader l" "in_contact xv xl" "length stale = ETH_HEADER_SIZE + ETH_MTU"
  shows "crossing xv (group_action pv xv all_stations now [group_type_byte JOIN_REQUEST]) xl e stale p = Some
    ((heard_by xv p)\<lparr>group_handler := Leader (heartbeat_update (steady_ms e) (external_address xv) l)\<rparr>,
     [group_action p xl (external_address xv) (now_ns e) (group_type_byte KEY_DISTRIBUTION # le_bytes 8 (ld_session_key l)), Free_external], None)"
proof -
  let ?l = "heartbeat_update (steady_ms e) (external_address xv) l"
  obtain rest where c: "crossing xv (group_action pv xv all_stations now [group_type_byte JOIN_REQUEST]) xl e stale p =
      acted (handle_group_message e xl ([group_type_byte JOIN_REQUEST] @ rest) 1 (external_address xv) (heard_by xv p))"
    using group_crossing [OF assms(3,4), of all_stations "[group_type_byte JOIN_REQUEST]" pv now e p] by (auto simp: all_stations_def)
  have h: "leader_handle (steady_ms e) (now_ns e) (external_address xl) ([group_type_byte JOIN_REQUEST] @ rest) 1 (external_address xv) l =
      (?l, [Send (external_address xl) (external_address xv)
        (group_segment (now_ns e) (group_type_byte KEY_DISTRIBUTION # le_bytes 8 (ld_session_key l)))], None)"
    by (simp add: leader_handle_def Let_def send_key_def heartbeat_update_def)
  have "paddr (external_address xv) \<notin> {nic_address xl, LOCAL_ADDR}" using assms(3) by (auto simp: in_contact_def)
  from group_call [of xl "(heard_by xv p)\<lparr>group_handler := Leader ?l\<rparr>", OF _ this,
      of "group_type_byte KEY_DISTRIBUTION # le_bytes 8 (ld_session_key l)" "now_ns e" None]
  have "finish_handler [Send (external_address xl) (external_address xv)
        (group_segment (now_ns e) (group_type_byte KEY_DISTRIBUTION # le_bytes 8 (ld_session_key l)))] None
        ((heard_by xv p)\<lparr>group_handler := Leader ?l\<rparr>) = Some ((heard_by xv p)\<lparr>group_handler := Leader ?l\<rparr>,
      [group_action p xl (external_address xv) (now_ns e) (group_type_byte KEY_DISTRIBUTION # le_bytes 8 (ld_session_key l))], None)"
    using assms(1) by (simp add: group_action_def)
  then show ?thesis unfolding c using assms(2) h
    by (simp add: acted_def handle_group_message_def del: append_Cons append_Nil One_nat_def group_type_byte.simps)
qed

lemma member_takes_key:
  fixes key :: u64
  assumes "group_handler p = Member" "in_contact xl xv" "length stale = ETH_HEADER_SIZE + ETH_MTU"
  shows "crossing xl (group_action pl xl (external_address xv) ts (group_type_byte KEY_DISTRIBUTION # le_bytes 8 key)) xv e stale p =
    Some ((heard_by xl p)\<lparr>local_block := set_session_key key (local_block (heard_by xl p))\<rparr>, [Free_external], None)"
proof -
  obtain rest where c: "crossing xl (group_action pl xl (external_address xv) ts (group_type_byte KEY_DISTRIBUTION # le_bytes 8 key)) xv e stale p =
      acted (handle_group_message e xv ((group_type_byte KEY_DISTRIBUTION # le_bytes 8 key) @ rest) 9 (external_address xl) (heard_by xl p))"
    using group_crossing [OF assms(2,3), of "external_address xv" "group_type_byte KEY_DISTRIBUTION # le_bytes 8 key" pl ts e p] by auto
  show ?thesis unfolding c using assms(1)
    by (simp add: handle_group_message_def member_handle_def acted_def wire_simps read_at_def finish_handler_def run_call_def le_word_le_bytes_full)
qed

text \<open>One vehicle joins: what it, the leader and the leader's tables are afterwards.\<close>

definition joins :: "ext_nic \<Rightarrow> 'o protocol \<Rightarrow> ext_nic \<Rightarrow> 'o protocol \<Rightarrow> 'o protocol \<Rightarrow> 'o protocol \<Rightarrow> bool" where
  "joins xv pv xl pl pv' pl' \<longleftrightarrow> (\<exists>now e e' stale stale' a k.
     length stale = ETH_HEADER_SIZE + ETH_MTU \<and> length stale' = ETH_HEADER_SIZE + ETH_MTU \<and>
     notify_location_change now xv pv = Some (pv, [a], None) \<and>
     crossing xv a xl e stale pl = Some (pl', [k, Free_external], None) \<and>
     crossing xl k xv e' stale' pv = Some (pv', [Free_external], None))"

lemma joins_outcome:
  assumes "gateway_at xv pv" "group_handler pv = Member" "gateway_at xl pl" "group_handler pl = Leader l" "in_contact xv xl"
    and "joins xv pv xl pl pv' pl'"
  shows "gateway_at xv pv' \<and> group_handler pv' = Member \<and> session_key (local_block pv') = ld_session_key l \<and>
    location (local_block pv') = location (local_block pv) \<and>
    gateway_at xl pl' \<and> (\<exists>t. group_handler pl' = Leader (heartbeat_update t (external_address xv) l))"
proof -
  obtain now e e' stale stale' a k where j: "length stale = ETH_HEADER_SIZE + ETH_MTU" "length stale' = ETH_HEADER_SIZE + ETH_MTU"
      "notify_location_change now xv pv = Some (pv, [a], None)" "crossing xv a xl e stale pl = Some (pl', [k, Free_external], None)"
      "crossing xl k xv e' stale' pv = Some (pv', [Free_external], None)"
    using assms(6) by (auto simp: joins_def)
  have a: "a = group_action pv xv all_stations now [group_type_byte JOIN_REQUEST]"
    using j(3) member_announces [OF assms(1,2,5), of now] by simp
  have k: "pl' = (heard_by xv pl)\<lparr>group_handler := Leader (heartbeat_update (steady_ms e) (external_address xv) l)\<rparr>"
      "k = group_action pl xl (external_address xv) (now_ns e) (group_type_byte KEY_DISTRIBUTION # le_bytes 8 (ld_session_key l))"
    using j(4) leader_admits [OF assms(3-5) j(1), of pv now e] a by simp_all
  have "pv' = (heard_by xl pv)\<lparr>local_block := set_session_key (ld_session_key l) (local_block (heard_by xl pv))\<rparr>"
    using j(5) member_takes_key [OF assms(2) in_contact_sym [OF assms(5)] j(2), of pl "now_ns e" "ld_session_key l" e'] k(2) by simp
  then show ?thesis using assms(1-3) k(1) by (auto simp: set_session_key_def heard_by_def)
qed

lemma joining_possible:
  assumes "gateway_at xv pv" "group_handler pv = Member" "gateway_at xl pl" "group_handler pl = Leader l" "in_contact xv xl"
  shows "\<exists>pv' pl'. joins xv pv xl pl pv' pl'"
proof -
  have s: "length (replicate 1514 0 :: bytes) = ETH_HEADER_SIZE + ETH_MTU" by (simp add: wire_simps)
  show ?thesis unfolding joins_def
    using s member_announces [OF assms(1,2,5)] leader_admits [OF assms(3-5) s] member_takes_key [OF assms(2) in_contact_sym [OF assms(5)] s] by blast
qed

end
