(* ===== verification/Vehicle_Hop.thy ===== *)
theory Vehicle_Hop
  imports Vehicle_Bus Network_Exchanges Sensor_Pipeline
begin

text \<open>
  From vehicle to vehicle: what a component put into the shared memory of one vehicle becomes a frame
  in the shared memory of another, through both gateways and the wire, and a message there.
\<close>

section \<open>Out and in\<close>

lemma user_segment_not_system:
  assumes "carries f (packet k loc sp dp (get_bytes s))" "seg_type (s_header s) \<in> {msg_type_byte CONTROL, msg_type_byte TEDS}"
  shows "\<not> system_message x f"
proof -
  obtain rest where "packet_data (fr_data f) = get_bytes s @ rest"
    using carries_fields(4) [OF assms(1)] by (metis append_take_drop_id)
  then have "read_seg_header (packet_data (fr_data f)) = s_header s" by (simp add: get_bytes_eq)
  then show ?thesis using assms(2) msg_type_of_byte [of CONTROL] msg_type_of_byte [of TEDS]
    by (auto simp: system_message_def simp del: msg_type_of_byte)
qed

lemma gateway_out:
  assumes "crypto p = Some XorCryptoProvider" "external_nic p = Some x" "nic_address x \<noteq> BROADCAST_ADDR"
    and "carries f (packet k loc sp dp g)" "dhost (fr_header f) = BROADCAST_ADDR"
  shows "\<exists>acts. update_local f p = Some (Remote_send (frame_args \<lparr>paddr = nic_address x, port = sp\<rparr>
    \<lparr>paddr = BROADCAST_ADDR, port = dp\<rparr> (packet (session_key (local_block p)) (nic_quadrant x) sp dp g)) # acts, None)"
  using broadcast_goes_out [OF assms(1-4)] carries_fields(2,3) [OF assms(4)] assms(2,5)
  by (simp add: update_local_def Let_def)

lemma gateway_in:
  assumes p: "crypto p = Some XorCryptoProvider" "external_nic p = Some y" "session_key (local_block p) = key"
    and net: "nic_quadrant x = nic_quadrant y" "nic_address x \<noteq> nic_address y"
    and seg: "seg_type (s_header s) \<in> {msg_type_byte CONTROL, msg_type_byte TEDS}"
    and raw: "snd (raw_send src dst ETHERNET_PROTOCOL_NUMBER (packet key (nic_quadrant x) sp dp (get_bytes s)) (engine x)) = Some raw"
    and stale: "length stale = ETH_HEADER_SIZE + ETH_MTU"
  shows "\<exists>f. handle_frame y stale raw = Rx_notify ETHERNET_PROTOCOL_NUMBER f \<and>
    update_external e y f p = Some (heard_by x p, [Local_send (frame_args \<lparr>paddr = nic_address x, port = sp\<rparr>
      \<lparr>paddr = LOCAL_ADDR, port = dp\<rparr> (packet key (location (local_block p)) sp dp (get_bytes s))), Free_external], None)"
proof -
  let ?d = "packet key (nic_quadrant x) sp dp (get_bytes s)" and ?f = "received_frame stale raw"
  have len: "length ?d \<le> ETH_DATA_LEN" using raw by (auto simp: raw_send_def split: if_splits)
  have hd: "?d \<noteq> []" "hd ?d = quadrant_byte (nic_quadrant y)" using net(1) by (simp_all add: packet_def packet_header_def)
  note R = received_sent_frame [OF len stale hd(1) raw]
  have "my_mac (engine x) \<noteq> nic_address y" using net(2) by (simp add: nic_address_def)
  with R(5) [of y] have nic: "handle_frame y stale raw = Rx_notify ETHERNET_PROTOCOL_NUMBER ?f"
    by (simp add: hd(2))
  have f: "carries ?f ?d" using R(2-4) len by (simp add: carries_def wire_simps)
  have src: "shost (fr_header ?f) = nic_address x" using R(1) by (simp add: nic_address_def)
  have user: "\<not> system_message y ?f" by (rule user_segment_not_system [OF f seg])
  let ?p = "p\<lparr>local_block := register_nearby_entity (shost (fr_header ?f)) (local_block p)\<rparr>"
  have "forward_inside ?f \<lparr>paddr = nic_address x, port = sp\<rparr> ?p = Some ([Local_send (frame_args \<lparr>paddr = nic_address x, port = sp\<rparr>
      \<lparr>paddr = LOCAL_ADDR, port = dp\<rparr> (packet key (location (local_block p)) sp dp (get_bytes s))), Free_external], None)"
    using forward_inside_ok [of ?p key ?f "nic_quadrant x" sp dp "get_bytes s" "\<lparr>paddr = nic_address x, port = sp\<rparr>"] p f by simp
  then show ?thesis using nic update_external_user [OF user, of e p] carries_fields(2,8) [OF f] src by (simp add: heard_by_def)
qed

lemma component_in:
  assumes f: "carries f (packet k loc sp dp (get_bytes s))" "dhost (fr_header f) = LOCAL_ADDR"
    and "length (s_payload s) \<le> 1015"
  shows "update_local f p = Some (notify_communicator p dp f, None) \<and>
    (\<forall>d fs junk. qo_ok (c_inbox d) \<and> qo_data (c_inbox d) = f # fs \<longrightarrow>
      (\<exists>got d'. comm_receive (message_buffer junk 1024) d = Some (Got got d' True) \<and> m_type got = seg_type (s_header s) \<and>
         m_timestamp got = seg_timestamp (s_header s) \<and> m_payload got = s_payload s \<and>
         m_source got = \<lparr>paddr = shost (fr_header f), port = sp\<rparr>))"
proof -
  have "LOCAL_ADDR \<noteq> BROADCAST_ADDR" by (simp add: LOCAL_ADDR_def BROADCAST_ADDR_def)
  then have "update_local f p = Some (notify_communicator p dp f, None)"
    using f(2) carries_fields(3) [OF f(1)] by (simp add: update_local_def Let_def)
  moreover have "comm_receive (message_buffer junk 1024) d = Some (Got \<lparr>m_source = \<lparr>paddr = shost (fr_header f), port = sp\<rparr>,
      m_destination = no_address, m_type = seg_type (s_header s), m_payload = s_payload s, m_capacity = 1024,
      m_timestamp = seg_timestamp (s_header s)\<rparr> (d\<lparr>c_inbox := \<lparr>qo_semaphore = int (length fs), qo_data = fs\<rparr>\<rparr>) True)"
    if "qo_ok (c_inbox d)" "qo_data (c_inbox d) = f # fs" for d fs junk
    using comm_receive_frame [OF f(1) that, of "message_buffer junk 1024"] assms(3)
    by (simp add: message_buffer_def min.absorb2)
  ultimately show ?thesis by fastforce
qed

section \<open>One hop\<close>

text \<open>
  The frame sent with the arguments \<open>a\<close> lands in \<open>mem_a\<close>; the gateway of the vehicle reads it there and
  puts it on the network; the other gateway takes it in and writes it to \<open>mem_b\<close>.
\<close>

definition vehicle_hop ::
  "env \<Rightarrow> bytes \<Rightarrow> frame \<Rightarrow> frame \<Rightarrow> ext_nic \<Rightarrow> 'o protocol \<Rightarrow> ext_nic \<Rightarrow> 'p protocol \<Rightarrow> send_args \<Rightarrow> ('p protocol \<times> frame) option" where
  "vehicle_hop e stale mem_a mem_b xa ga xb gb a = (case update_local (write_frame a mem_a) ga of
     Some (Remote_send r # acts, None) \<Rightarrow> (case crossing xa (Remote_send r) xb e stale gb of
         Some (gb', [Local_send a', Free_external], None) \<Rightarrow> Some (gb', write_frame a' mem_b)
       | _ \<Rightarrow> None)
   | _ \<Rightarrow> None)"

text \<open>A frame reaches the application: the protocol queues it, and the application receives.\<close>

definition arrives_at :: "frame \<Rightarrow> 'o protocol \<Rightarrow> 'o \<Rightarrow> communicator \<Rightarrow> u64 \<Rightarrow> (communicator \<times> message) option" where
  "arrives_at f p ob c junk = (case update_local f p of
     Some (acts, None) \<Rightarrow>
       (if Queue ob f \<in> set acts then
          (case comm_receive (message_buffer junk 1024) (queue_incoming_buffer f c) of
             Some (Got m c' True) \<Rightarrow> Some (c', m)
           | _ \<Rightarrow> None)
        else None)
   | _ \<Rightarrow> None)"

text \<open>The message as the other vehicle sees it: from the gateway, at the sender's port.\<close>

definition abroad :: "ext_nic \<Rightarrow> address \<Rightarrow> message \<Rightarrow> address \<times> message" where
  "abroad x a m = (\<lparr>paddr = nic_address x, port = port a\<rparr>, m\<lparr>m_destination := local (port (m_destination m))\<rparr>)"

definition sent_as :: "u64 \<Rightarrow> quadrant \<Rightarrow> address \<Rightarrow> message \<Rightarrow> send_args" where
  "sent_as k loc a m = frame_args a (m_destination m) (packet k loc (port a) (port (m_destination m)) (get_bytes (segment_of m)))"

lemma write_shows:
  assumes "length (fr_data mem_a) = ETH_MTU" "length (m_payload m) \<le> 1478"
  shows "shows_message (a, m) (write_frame (sent_as k loc a m) mem_a)"
proof -
  have "length (sa_data (sent_as k loc a m)) \<le> ETH_MTU" using assms(2) by (simp add: sent_as_def frame_args_def get_bytes_eq wire_simps)
  then show ?thesis using assms frame_holds_write [of "sent_as k loc a m" mem_a]
    by (auto simp: shows_message_def sent_as_def write_frame_def)
qed

lemma hop:
  assumes net: "gateway_at xa ga" "gateway_at xb gb" "in_contact xa xb" "session_key (local_block ga) = session_key (local_block gb)"
    and m: "m_destination m = broadcast dp" "m_type m \<in> {msg_type_byte CONTROL, msg_type_byte TEDS}" "length (m_payload m) \<le> 1478"
    and mem: "length stale = ETH_HEADER_SIZE + ETH_MTU" "length (fr_data mem_a) = ETH_MTU" "length (fr_data mem_b) = ETH_MTU"
  shows "\<exists>f. vehicle_hop e stale mem_a mem_b xa ga xb gb (sent_as k loc a m) = Some (heard_by xa gb, f) \<and>
    shows_message (abroad xa a m) f"
proof -
  let ?f = "write_frame (sent_as k loc a m) mem_a"
  have f: "shows_message (a, m) ?f" by (rule write_shows [OF mem(2) m(3)])
  obtain k' loc' where c: "carries ?f (packet k' loc' (port a) dp (get_bytes (segment_of m)))" "dhost (fr_header ?f) = BROADCAST_ADDR"
    by (rule shows_messageD [OF f]) (use m(1) in \<open>simp add: broadcast_def that\<close>)
  have ga: "crypto ga = Some XorCryptoProvider" "external_nic ga = Some xa" "nic_address xa \<noteq> BROADCAST_ADDR"
    and gb: "crypto gb = Some XorCryptoProvider" "external_nic gb = Some xb"
    and near: "nic_quadrant xa = nic_quadrant xb" "nic_address xa \<noteq> nic_address xb"
    using net(1-3) by (auto simp: gateway_at_def in_contact_def)
  let ?d = "packet (session_key (local_block ga)) (nic_quadrant xa) (port a) dp (get_bytes (segment_of m))"
  let ?r = "frame_args \<lparr>paddr = nic_address xa, port = port a\<rparr> \<lparr>paddr = BROADCAST_ADDR, port = dp\<rparr> ?d"
  obtain acts where out: "update_local ?f ga = Some (Remote_send ?r # acts, None)" using gateway_out [OF ga c] by blast
  have "length ?d \<le> ETH_DATA_LEN" using m(3) by (simp add: get_bytes_eq wire_simps)
  then obtain raw where raw: "snd (raw_send (nic_address xa) BROADCAST_ADDR ETHERNET_PROTOCOL_NUMBER ?d (engine xa)) = Some raw"
    by (simp add: raw_send_def)
  have seg: "seg_type (s_header (segment_of m)) \<in> {msg_type_byte CONTROL, msg_type_byte TEDS}" using m(2) by simp
  let ?in = "sent_as (session_key (local_block gb)) (location (local_block gb)) \<lparr>paddr = nic_address xa, port = port a\<rparr> (snd (abroad xa a m))"
  obtain g where into: "handle_frame xb stale raw = Rx_notify ETHERNET_PROTOCOL_NUMBER g"
      "update_external e xb g gb = Some (heard_by xa gb, [Local_send ?in, Free_external], None)"
    using gateway_in [OF gb net(4) [symmetric] near seg raw mem(1), of e] m(1) net(4)
    by (auto simp: sent_as_def abroad_def local_def broadcast_def segment_of_def)
  have hop: "vehicle_hop e stale mem_a mem_b xa ga xb gb (sent_as k loc a m) = Some (heard_by xa gb, write_frame ?in mem_b)"
    using out raw into by (simp add: vehicle_hop_def crossing_def frame_args_def gateway_turn_def)
  have "shows_message (abroad xa a m) (write_frame ?in mem_b)"
    using write_shows [OF mem(3), of "snd (abroad xa a m)"] m(3) by (simp add: abroad_def)
  with hop show ?thesis by blast
qed

lemma arrives:
  assumes "shows_message (a, m) f" "observers_ok p" "paddr (m_destination m) = BROADCAST_ADDR \<Longrightarrow> external_nic p = None" "ob \<in> set (hears p m)"
    and "c_inbox c = qo_init"
  shows "arrives_at f p ob c junk = Some (c, as_received a m)"
proof -
  obtain k loc where f: "carries f (packet k loc (port a) (port (m_destination m)) (get_bytes (segment_of m)))"
      "dhost (fr_header f) = paddr (m_destination m)" "shost (fr_header f) = paddr a"
    by (rule shows_messageD [OF assms(1)])
  have pt: "port (m_destination m) = TYPE_BASED_ROUTING_PORT" if "paddr (m_destination m) = BROADCAST_ADDR"
    using assms(4) that by (auto simp: hears_def Let_def split: if_splits)
  have "update_local f p = Some (map (\<lambda>ob. Queue ob f) (hears p m), None)"
    using notified [OF assms(2) f(1)] f(2) carries_fields(3) [OF f(1)] assms(3,4) pt
    by (cases "paddr (m_destination m) = BROADCAST_ADDR") (auto simp: update_local_def Let_def)
  moreover have "qo_ok (c_inbox (queue_incoming_buffer f c))" "qo_data (c_inbox (queue_incoming_buffer f c)) = [f]"
    using assms(5) by (simp_all add: queue_incoming_buffer_def qo_init_def qo_update_def qo_ok_def sem_v_def)
  note R = comm_receive_frame [OF f(1) this, of "message_buffer junk 1024"]
  have "take (min (min 1015 n) 1024) xs @ replicate (min 1015 n - 1024) 0 = take 1015 xs" if "n = length xs" for n and xs :: bytes
    by (simp add: that min_def)
  with R have "comm_receive (message_buffer junk 1024) (queue_incoming_buffer f c) = Some (Got (as_received a m) c True)"
    using f(3) assms(5) by (simp add: message_buffer_def as_received_def queue_incoming_buffer_def qo_init_def)
  ultimately show ?thesis using assms(4) by (auto simp: arrives_at_def)
qed

text \<open>A broadcast for the subscribers of a type reaches a listener in the other vehicle.\<close>

lemma type_broadcast_arrives:
  assumes "gateway_at xa ga" "gateway_at xb gb" "in_contact xa xb" "session_key (local_block ga) = session_key (local_block gb)"
    and m: "m_destination m = broadcast TYPE_BASED_ROUTING_PORT" "m_type m = msg_type_byte TEDS" "length (m_payload m) \<le> 1015"
      "TEDS_HEADER_SIZE \<le> length (m_payload m)" "teds_header_type (m_payload m) \<noteq> INVALID"
    and mem: "length stale = ETH_HEADER_SIZE + ETH_MTU" "length (fr_data mem_a) = ETH_MTU" "length (fr_data mem_b) = ETH_MTU"
    and listener: "observers_ok p" "ob \<in> set (targets (type_observed p) (teds_header_type (m_payload m)))" "c_inbox c = qo_init"
  shows "\<exists>f got. vehicle_hop e stale mem_a mem_b xa ga xb gb (sent_as k loc a m) = Some (heard_by xa gb, f) \<and>
    arrives_at f p ob c junk = Some (c, got) \<and> m_payload got = m_payload m \<and> m_source got = \<lparr>paddr = nic_address xa, port = port a\<rparr>"
proof -
  have "m_type m \<in> {msg_type_byte CONTROL, msg_type_byte TEDS}" "length (m_payload m) \<le> 1478" using m(2,3) by simp_all
  from hop [OF assms(1-4) m(1) this mem] obtain f where f:
    "vehicle_hop e stale mem_a mem_b xa ga xb gb (sent_as k loc a m) = Some (heard_by xa gb, f)" "shows_message (abroad xa a m) f" by blast
  have "paddr (m_destination (snd (abroad xa a m))) \<noteq> BROADCAST_ADDR"
    by (simp add: abroad_def local_def LOCAL_ADDR_def BROADCAST_ADDR_def)
  moreover have "ob \<in> set (hears p (snd (abroad xa a m)))"
    using m(1,2,4,5) listener(2) msg_type_of_byte [of TEDS] by (simp add: hears_def abroad_def local_def broadcast_def)
  ultimately have "arrives_at f p ob c junk = Some (c, as_received (fst (abroad xa a m)) (snd (abroad xa a m)))"
    using arrives [of "fst (abroad xa a m)" "snd (abroad xa a m)" f p ob c junk] listener(1,3) f(2) by simp
  with f(1) m(3) show ?thesis by (simp add: as_received_def abroad_def)
qed

lemma subscriber_fields:
  assumes "subscribe_to_type ob t c p = (c', p')"
  shows "crypto p' = crypto p" "external_nic p' = external_nic p" "local_block p' = local_block p" "observers_ok p \<Longrightarrow> observers_ok p'"
    "c_inbox c' = c_inbox c" "c_address c' = c_address c" "ob \<in> set (targets (type_observed p') t)"
  using assms by (auto simp: subscribe_to_type_def observers_ok_def observed_ok_def attach_def targets_attach)
    (auto simp: targets_def List.map_filter_def)

lemma component_sends:
  assumes "crypto p = Some XorCryptoProvider" "external_nic p = None" "length (m_payload m) \<le> 1478"
  shows "comm_send io p c m = Some (([Local_send (sent_as (session_key (local_block p)) (location (local_block p)) (c_address c) m)], None), io)"
  using component_send [OF assms] by (simp add: sent_as_def)

lemma interest_sent:
  assumes "crypto p = Some XorCryptoProvider" "external_nic p = None"
  shows "send_interest_message c p t i = Some ([Local_send (sent_as (session_key (local_block p)) (location (local_block p)) (c_address c)
    (message_of 0 (broadcast TYPE_BASED_ROUTING_PORT) TEDS (create_request_payload t i)))], None)"
proof -
  let ?g = "get_bytes (make_segment TEDS 0 (create_request_payload t i))"
  have "segment_of (message_of 0 (broadcast TYPE_BASED_ROUTING_PORT) TEDS (create_request_payload t i)) = make_segment TEDS 0 (create_request_payload t i)"
    by (simp add: segment_of_def message_of_def make_segment_def)
  moreover have "length ?g \<le> PACKET_MTU" by (simp add: get_bytes_eq make_segment_def create_request_payload_eq PACKET_MTU_def wire_simps)
  ultimately show ?thesis using protocol_send_built [OF assms(1), of ?g] assms(2)
    by (simp add: send_interest_message_def Let_def sent_as_def message_of_def)
qed

section \<open>Sensor and actuator\<close>

lemma request_of_unit_type [simp]: "make_request_type (unit_tag_type tag) = unit_tag_type tag"
  by (simp add: make_request_type_def unit_tag_type_def and.assoc)

text \<open>An idle sensor takes its first subscriber, and the next turn of its thread answers.\<close>

lemma sensor_answers:
  assumes "teds_ok (unit_tag_type tag) h" "subscribers h = []" "\<not> thread_joinable (bridge h)"
    and "m_payload asked = create_request_payload (unit_tag_type tag) p" "p \<noteq> 0"
    and "float_nonzero (to_float (get_value (bridge h)))"
  shows "\<exists>h'. handleTEDSMessage of_float asked h = Inr h' \<and> subscriber_map h' (unit_tag_type tag) = [m_source asked \<mapsto> p] \<and>
    responses_interval (bridge h') = p \<and> response_thread_turn to_float ns me (bridge h') =
      Some ((message_response ns (broadcast TYPE_BASED_ROUTING_PORT) (unit_tag_type tag) (to_float (get_value (bridge h))))\<lparr>m_source := me\<rparr>)"
proof -
  let ?t = "unit_tag_type tag"
  have pay: "teds_header_type (create_request_payload ?t p) = ?t" "teds_data_word (create_request_payload ?t p) = p"
      "length (create_request_payload ?t p) = 8"
    by (simp_all add: create_request_payload_eq teds_header_type_def teds_data_word_def read_at_def wire_simps)
  have "is_request ?t" using make_request_is_request [of ?t] by simp
  moreover have "interest_in ?t asked" using assms(4,5) by (simp add: interest_in_def pay)
  ultimately have h: "handleTEDSMessage of_float asked h = Inr \<lparr>subscribers = [(?t, [(m_source asked, p)])],
      bridge = (bridge h)\<lparr>responses_interval := p, response_type := ?t, response_running := True, thread_joinable := True\<rparr>\<rparr>"
    using interest_first [of ?t asked h of_float] assms(1-4) by (simp add: pay)
  have "get_value ((bridge h)\<lparr>responses_interval := p, response_type := ?t, response_running := True, thread_joinable := True\<rparr>)
      = get_value (bridge h)" by (simp add: get_value_def)
  then show ?thesis using assms(6) by (auto simp: h subscriber_map_def response_thread_turn_def send_response_def)
qed

text \<open>What an actuator makes of an answer.\<close>

lemma actuator_hears:
  assumes "m_payload heard = create_response_payload t v"
  shows "teds_data_word (m_payload heard) = v"
    "handleTEDSMessage of_float heard ha = Inr (ha\<lparr>bridge := (bridge ha)\<lparr>smart := actuate (of_float v) (smart (bridge ha))\<rparr>\<rparr>)"
  by (simp_all add: handleTEDSMessage_def Let_def assms create_response_payload_eq teds_header_type_def teds_data_word_def
      read_at_def wire_simps request_xor_response apply_value_from_payload_def)

section \<open>Samples\<close>

definition idle_sensor :: "u32 teds_handler" where
  "idle_sensor = teds_init 0 \<lparr>transducer_value = 7, updated_value = 7\<rparr>"

definition idle_comm :: communicator where
  "idle_comm = \<lparr>c_address = local 1001, c_inbox = qo_init, c_types = []\<rparr>"

end
