(* ===== verification/Same_Vehicle.thy ===== *)
theory Same_Vehicle
  imports Vehicle_Hop
begin

text \<open>
  An actuator and a sensor in one vehicle.  The sensor keeps subscribers only while their hardware address is
  in the list of nearby stations; what is in the list is what the gateway heard on the network.
\<close>

section \<open>Who is in the list\<close>

definition nearby_set :: "'o protocol \<Rightarrow> mac set" where
  "nearby_set p = set (get_entities_nearby (local_block p))"

lemma is_entity_nearby_iff: "is_entity_nearby a (local_block p) \<longleftrightarrow> a \<in> nearby_set p"
  using nearby_index_None [of a "local_block p"] by (auto simp: is_entity_nearby_def nearby_set_def)

lemma key_keeps_nearby [simp]: "get_entities_nearby (set_session_key k b) = get_entities_nearby b"
  by (simp add: get_entities_nearby_def set_session_key_def)

lemma nearby_set_fields [simp]:
  "nearby_set (p\<lparr>synchronizer := sy\<rparr>) = nearby_set p" "nearby_set (p\<lparr>group_handler := gh\<rparr>) = nearby_set p"
  by (simp_all add: nearby_set_def)

lemma unregister_shrinks: "set (get_entities_nearby (unregister_nearby_entity a b)) \<subseteq> set (get_entities_nearby b)"
proof (cases "nearby_index a b")
  case (Some i)
  let ?l = "get_entities_nearby b"
  have "?l \<noteq> []" using nearby_index_Some [OF Some] by (metis length_0_conv length_get_entities_nearby not_less_zero)
  then have "set (?l[i := last ?l]) \<subseteq> set ?l" by (intro set_update_subsetI) auto
  then show ?thesis using Some by (auto simp: get_unregister_nearby dest!: in_set_butlastD)
qed (simp add: get_unregister_nearby)

lemma run_call_nearby: "run_call c p = Some (p', r) \<Longrightarrow> nearby_set p' \<subseteq> nearby_set p"
  by (cases c) (auto simp: run_call_def nearby_set_def dest: subsetD [OF unregister_shrinks])

lemma run_calls_nearby: "run_calls cs p = Some (p', r) \<Longrightarrow> nearby_set p' \<subseteq> nearby_set p"
proof (induction cs arbitrary: p p' r)
  case (Cons c cs)
  then show ?case using run_call_nearby by (force split: option.splits)
qed simp

lemma finish_handler_nearby: "finish_handler cs err p = Some (p', r) \<Longrightarrow> nearby_set p' \<subseteq> nearby_set p"
  using run_calls_nearby by (force simp: finish_handler_def split: option.splits)

lemma filter_system_nearby:
  assumes "filter_system_messages e x f from to p = Some (p', r)"
  shows "nearby_set p' \<subseteq> nearby_set p"
  using assms finish_handler_nearby
  by (fastforce simp: filter_system_messages_def Let_def handle_ptp_message_def handle_group_message_def
      split: if_splits option.splits msg_type.splits synchronizer.splits group_handler.splits prod.splits)

text \<open>A frame adds its source and nothing else.\<close>

lemma update_external_nearby:
  assumes "update_external e x f p = Some (p', r)"
  shows "nearby_set p' \<subseteq> insert (shost (fr_header f)) (nearby_set p)"
proof -
  let ?p1 = "p\<lparr>local_block := register_nearby_entity (shost (fr_header f)) (local_block p)\<rparr>"
  have "nearby_set ?p1 \<subseteq> insert (shost (fr_header f)) (nearby_set p)"
    by (auto simp: nearby_set_def get_register_nearby split: if_splits)
  moreover have "nearby_set p' \<subseteq> nearby_set ?p1"
    using assms filter_system_nearby
    by (fastforce simp: update_external_def Let_def split: if_splits option.splits bool.splits prod.splits)
  ultimately show ?thesis by blast
qed

definition foreign_turn :: "turn \<Rightarrow> bool" where
  "foreign_turn t = (case t of (x, e, stale, raw) \<Rightarrow> shost (fr_header (received_frame stale raw)) \<noteq> LOCAL_ADDR)"

lemma gateway_turn_nearby:
  assumes "gateway_turn t p = Some (p', r)" "foreign_turn t" "LOCAL_ADDR \<notin> nearby_set p"
  shows "LOCAL_ADDR \<notin> nearby_set p'"
proof -
  obtain x e stale raw where t: "t = (x, e, stale, raw)" by (cases t)
  let ?f = "received_frame stale raw"
  have "p' = p \<or> (\<exists>r. update_external e x ?f p = Some (p', r))"
    using assms(1) by (auto simp: t gateway_turn_def handle_frame_def Let_def split: if_splits)
  moreover have "LOCAL_ADDR \<notin> nearby_set p'" if "update_external e x ?f p = Some (p', r)" for r
  proof -
    have "LOCAL_ADDR \<notin> insert (shost (fr_header ?f)) (nearby_set p)" using assms(2,3) by (simp add: t foreign_turn_def eq_commute)
    with update_external_nearby [OF that] show ?thesis by (rule contra_subsetD)
  qed
  ultimately show ?thesis using assms(3) by metis
qed

lemma gateway_run_nearby:
  assumes "gateway_run ts p = Some (p', r)" "\<forall>t \<in> set ts. foreign_turn t" "LOCAL_ADDR \<notin> nearby_set p"
  shows "LOCAL_ADDR \<notin> nearby_set p'"
  using assms
proof (induction ts arbitrary: p r)
  case (Cons t ts)
  from Cons.prems(1) obtain p1 acts err where 1: "gateway_turn t p = Some (p1, acts, err)"
    by (auto split: option.splits)
  have "LOCAL_ADDR \<notin> nearby_set p1" using gateway_turn_nearby [OF 1] Cons.prems(2,3) by simp
  then show ?case using Cons.IH [of p1] Cons.prems(1,2) 1 by (auto split: option.splits)
qed simp

section \<open>A message inside the vehicle\<close>

text \<open>
  C7. A sensor does not survive an actuator in its own vehicle.  The actuator's interest reaches the sensor
  through the shared memory, and the sensor has it as a subscriber, under the address that stands for the own
  machine.  The gateway only lists addresses it heard on the network, so whatever foreign frames it takes in,
  the next sweep removes the subscriber and the responses stop; and the next interest after that, of
  anybody, terminates the process of the sensor.
\<close>

theorem own_vehicle_subscriber_lost:
  assumes actuator: "crypto pa = Some XorCryptoProvider" "external_nic pa = None" "paddr (c_address ca) = LOCAL_ADDR"
      "subscribe_to_responses oa unit interval ca pa = Some (ca', pa', (acts, err))"
    and sensor: "external_nic pb = None" "observers_ok pb" "c_inbox cb = qo_init" "subscribe_to_requests os unit cb pb = (cb', pb')"
    and unit: "unit = unit_tag_type tag" "unit \<noteq> 0" "interval \<noteq> 0" and memory: "length (fr_data mem) = ETH_MTU"
    and gateway: "gateway_run ts g = Some (g', r)" "\<forall>t \<in> set ts. foreign_turn t" "LOCAL_ADDR \<notin> nearby_set g"
    and again: "interest_in unit again"
  shows "\<exists>a1 asked h1 h2. acts = [Local_send a1] \<and> err = None \<and>
    arrives_at (write_frame a1 mem) pb' os cb' j = Some (cb', asked) \<and>
    handleTEDSMessage of_float asked (teds_init junk sd) = Inr h1 \<and> subscriber_map h1 unit = [c_address ca \<mapsto> interval] \<and>
    cleanup_pass (local_block g') h1 = Inr h2 \<and> subscribers h2 = [] \<and> handleTEDSMessage of_float again h2 = Inl Terminated"
proof -
  let ?req = "create_request_payload unit interval"
  have unit_req: "make_request_type unit = unit" unfolding unit(1) by simp
  have pay: "teds_header_type ?req = unit" "teds_data_word ?req = interval" "length ?req = 8"
    by (simp_all add: create_request_payload_eq teds_header_type_def teds_data_word_def read_at_def wire_simps unit_req)
  obtain s: "subscribe_to_type oa (make_response_type unit) ca pa = (ca', pa')" and i: "send_interest_message ca' pa' unit interval = Some (acts, err)"
    using actuator(4) by (auto simp: subscribe_to_responses_def split: prod.splits)
  note A = subscriber_fields [OF s] and B = subscriber_fields [OF sensor(4) [unfolded subscribe_to_requests_def unit_req]]
  let ?m = "message_of 0 (broadcast TYPE_BASED_ROUTING_PORT) TEDS ?req"
  let ?a1 = "sent_as (session_key (local_block pa')) (location (local_block pa')) (c_address ca') ?m"
  have a1: "acts = [Local_send ?a1]" "err = None" using i interest_sent [of pa' ca' unit interval] A(1,2) actuator(1,2) by simp_all
  have shown: "shows_message (c_address ca', ?m) (write_frame ?a1 mem)"
    by (rule write_shows [OF memory]) (simp add: message_of_def pay)
  have "os \<in> set (hears pb' ?m)"
    using B(7) unit(2) msg_type_of_byte [of TEDS] by (simp add: hears_def message_of_def broadcast_def pay INVALID_def TEDS_HEADER_SIZE_def)
  from arrives [OF shown B(4) [OF sensor(2)] _ this] B(2,5) sensor(1,3)
  have asked: "arrives_at (write_frame ?a1 mem) pb' os cb' j = Some (cb', as_received (c_address ca') ?m)" by simp
  let ?asked = "as_received (c_address ca') ?m"
  have at: "m_payload ?asked = ?req" "m_source ?asked = c_address ca" by (simp_all add: as_received_def message_of_def pay A(6))
  then have "interest_in unit ?asked" using unit(3) by (simp add: interest_in_def pay)
  moreover have "is_request unit" using make_request_is_request [of unit] by (simp add: unit_req)
  moreover have "\<not> is_entity_nearby (paddr (m_source ?asked)) (local_block g')"
    using gateway_run_nearby [OF gateway] actuator(3) by (simp add: is_entity_nearby_iff at(2))
  ultimately show ?thesis
    using left_sensor_terminates [of unit ?asked again "local_block g'" of_float junk sd] again a1 asked by (auto simp: at pay)
qed

text \<open>A station that nobody knows yet, with a frame too short for a packet.\<close>

definition passing_by :: turn where
  "passing_by = (sample_nic, sample_env, replicate 1514 0xEE,
     replicate 6 0xFF @ [2, 0, 0, 0, 0, 9, 0x88, 0xB5, quadrant_byte EAST])"

lemma passing_by_turn:
  "foreign_turn passing_by"
  "\<exists>g' r. gateway_run [passing_by] sample_gateway = Some (g', r) \<and> MAC 2 0 0 0 0 9 \<in> nearby_set g'"
proof -
  let ?e = "\<lparr>my_mac = MAC 2 0 0 0 0 9, sll_addr = LOCAL_ADDR\<rparr>" and ?s = "replicate 1514 0xEE :: bytes"
  let ?raw = "replicate 6 0xFF @ [2, 0, 0, 0, 0, 9, 0x88, 0xB5, quadrant_byte EAST] :: bytes"
  have raw: "snd (raw_send LOCAL_ADDR BROADCAST_ADDR ETHERNET_PROTOCOL_NUMBER [quadrant_byte EAST] ?e) = Some ?raw" by code_simp
  note f = received_sent_frame [OF _ _ _ raw, of ?s, simplified wire_simps, simplified]
  have "handle_frame sample_nic ?s ?raw = Rx_notify ETHERNET_PROTOCOL_NUMBER (received_frame ?s ?raw)"
    using f(5) [of sample_nic] by (simp add: sample_nic_def nic_address_def LOCAL_ADDR_def)
  moreover have "get_entities_nearby (local_block sample_gateway) = []" by code_simp
  then have "MAC 2 0 0 0 0 9 \<in> set (get_entities_nearby (register_nearby_entity (MAC 2 0 0 0 0 9) (local_block sample_gateway)))"
    using length_get_entities_nearby [of "local_block sample_gateway"] by (simp add: get_register_nearby MAX_NEARBY_ENTITIES_def)
  ultimately show "\<exists>g' r. gateway_run [passing_by] sample_gateway = Some (g', r) \<and> MAC 2 0 0 0 0 9 \<in> nearby_set g'"
    using f(1,4) by (simp add: passing_by_def gateway_turn_def update_external_def wire_simps nearby_set_def)
  show "foreign_turn passing_by" using f(1) by (simp add: passing_by_def foreign_turn_def LOCAL_ADDR_def)
qed

theorem own_vehicle_subscriber_lost_witness:
  "\<exists>ca' pa' a1 cb' pb' asked h1 h2 g' r.
     subscribe_to_responses 1 (unit_tag_type TEMPERATURE) 2000 idle_comm (init_component sample_gateway) = Some (ca', pa', ([Local_send a1], None)) \<and>
     arrives_at (write_frame a1 (sample_frame [])) (pb' :: nat protocol) 1 cb' 0 = Some (cb', asked) \<and>
     gateway_run [passing_by] sample_gateway = Some (g', r) \<and> MAC 2 0 0 0 0 9 \<in> nearby_set g' \<and>
     handleTEDSMessage id asked idle_sensor = Inr h1 \<and> subscriber_map h1 (unit_tag_type TEMPERATURE) = [local 1001 \<mapsto> 2000] \<and>
     cleanup_pass (local_block g') h1 = Inr h2 \<and> subscribers h2 = [] \<and>
     handleTEDSMessage id (message_of 0 (local 0) TEDS (create_request_payload (unit_tag_type TEMPERATURE) 2000)) h2 = Inl Terminated"
proof -
  let ?p = "init_component sample_gateway" and ?u = "unit_tag_type TEMPERATURE"
  let ?again = "message_of 0 (local 0) TEDS (create_request_payload ?u 2000)"
  have p: "crypto ?p = Some XorCryptoProvider" "external_nic ?p = None" "observers_ok ?p"
    and c: "paddr (c_address idle_comm) = LOCAL_ADDR" "c_inbox idle_comm = qo_init"
    by (simp_all add: init_component_def sample_gateway_def observers_ok_def observed_ok_def attach_def observed_empty_def idle_comm_def local_def)
  obtain ca' pa' where t: "subscribe_to_type 1 (make_response_type ?u) idle_comm ?p = (ca', pa')" by fastforce
  obtain a0 where sa: "subscribe_to_responses 1 ?u 2000 idle_comm ?p = Some (ca', pa', ([Local_send a0], None))"
    using interest_sent [of pa' ca' ?u 2000] p(1,2) subscriber_fields(1,2) [OF t] by (simp add: subscribe_to_responses_def t del: One_nat_def)
  obtain cb' pb' where sb: "subscribe_to_requests 1 ?u idle_comm ?p = (cb', pb')" by fastforce
  have u: "?u \<noteq> 0" "(2000 :: period) \<noteq> 0" by code_simp+
  have again: "interest_in ?u ?again" by code_simp
  obtain g' r where g: "gateway_run [passing_by] sample_gateway = Some (g', r)" "MAC 2 0 0 0 0 9 \<in> nearby_set g'"
    using passing_by_turn(2) by blast
  have "LOCAL_ADDR \<notin> nearby_set sample_gateway" by code_simp
  from own_vehicle_subscriber_lost [where of_float = id and junk = 0 and sd = "\<lparr>transducer_value = 7, updated_value = 7\<rparr>" and j = 0 and mem = "sample_frame []",
      OF p(1,2) c(1) sa p(2,3) c(2) sb refl u _ g(1) _ this again] passing_by_turn(1)
  obtain asked h1 h2 where w: "arrives_at (write_frame a0 (sample_frame [])) pb' 1 cb' 0 = Some (cb', asked)"
    "handleTEDSMessage id asked idle_sensor = Inr h1" "subscriber_map h1 ?u = [c_address idle_comm \<mapsto> 2000]"
    "cleanup_pass (local_block g') h1 = Inr h2" "subscribers h2 = []" "handleTEDSMessage id ?again h2 = Inl Terminated"
    by (auto simp: idle_sensor_def sample_frame_def wire_simps simp del: One_nat_def)
  moreover have "c_address idle_comm = local 1001" by (simp add: idle_comm_def)
  ultimately show ?thesis using sa g by metis
qed

end
