(* ===== verification/Thread_Shutdown.thy ===== *)
theory Thread_Shutdown
  imports Teds_Service Nic_Engines
begin

text \<open>
  The threads the objects of the library own, from start to join: those of an interface (\<^verbatim>\<open>nic.hpp\<close>), the
  timer of the clock synchronisation (\<^verbatim>\<open>ptp_timer_thread.hpp\<close>) and the sweeper of the TEDS handler
  (\<^verbatim>\<open>teds_handler.hpp\<close>).  Every test of the running flag, every wait and every turn of a loop is a step; what a
  turn does to the data is in the theories of the components.  The question is whether a destructor
  returns.
\<close>

section \<open>Stopping and joining\<close>

text \<open>Runs with the number of steps that are not the environment's.\<close>

inductive run_path :: "('s \<Rightarrow> 's \<Rightarrow> bool) \<Rightarrow> ('s \<Rightarrow> 's \<Rightarrow> bool) \<Rightarrow> 's \<Rightarrow> nat \<Rightarrow> 's \<Rightarrow> bool" for own env where
  here: "run_path own env s 0 s"
| own_step: "run_path own env s n s' \<Longrightarrow> own s' s'' \<Longrightarrow> run_path own env s (Suc n) s''"
| env_step: "run_path own env s n s' \<Longrightarrow> env s' s'' \<Longrightarrow> run_path own env s n s''"

lemma own_steps:
  "own a b \<Longrightarrow> run_path own env a 1 b"
  "own a b \<Longrightarrow> own b c \<Longrightarrow> run_path own env a 2 c"
  "own a b \<Longrightarrow> own b c \<Longrightarrow> own c d \<Longrightarrow> own d e \<Longrightarrow> run_path own env a 4 e"
proof -
  show one: "own a b \<Longrightarrow> run_path own env a 1 b" for b
    using run_path.own_step [OF run_path.here] by simp
  show two: "own a b \<Longrightarrow> own b c \<Longrightarrow> run_path own env a 2 c" for b c
    using run_path.own_step [OF one] by (simp add: numeral_2_eq_2)
  show "own a b \<Longrightarrow> own b c \<Longrightarrow> own c d \<Longrightarrow> own d e \<Longrightarrow> run_path own env a 4 e"
    using run_path.own_step [OF run_path.own_step [OF two]] by (simp add: eval_nat_numeral)
qed

text \<open>
  The contract between a thread that was told to stop and the one that joins it: its own steps
  use up a measure, which the environment refills only by what it gives, and until the thread has ended, or waits
  for something else, there is a step to make.
\<close>

locale stoppable =
  fixes own :: "'s \<Rightarrow> 's \<Rightarrow> bool" and env :: "'s \<Rightarrow> 's \<Rightarrow> bool"
    and stopping :: "'s \<Rightarrow> bool" and ended :: "'s \<Rightarrow> bool" and left :: "'s \<Rightarrow> nat" and given :: "'s \<Rightarrow> nat"
  assumes own_left: "stopping s \<Longrightarrow> own s s' \<Longrightarrow> stopping s' \<and> left s' < left s \<and> given s' = given s"
    and env_left: "stopping s \<Longrightarrow> env s s' \<Longrightarrow> stopping s' \<and> left s' + given s \<le> left s + given s' \<and> given s \<le> given s'"
    and goes_on: "stopping s \<Longrightarrow> \<not> ended s \<Longrightarrow> \<exists>s'. own s s'"
begin

lemma returns:
  assumes "run_path own env s n s'" "stopping s"
  shows "stopping s' \<and> n + left s' \<le> left s + (given s' - given s) \<and> given s \<le> given s' \<and> (ended s' \<or> (\<exists>s''. own s' s''))"
  using assms
proof (induction rule: run_path.induct)
  case (here s)
  then show ?case using goes_on by auto
next
  case (own_step s n s' s'')
  then show ?case using own_left [of s' s''] goes_on [of s''] by auto
next
  case (env_step s n s' s'')
  then show ?case using env_left [of s' s''] goes_on [of s''] by auto
qed

text \<open>What no step adds to while the thread is stopping.\<close>

lemma bounded:
  fixes f :: "'s \<Rightarrow> nat"
  assumes "run_path own env s n s'" "stopping s"
    and "\<And>s s'. stopping s \<Longrightarrow> own s s' \<Longrightarrow> f s' \<le> f s" "\<And>s s'. stopping s \<Longrightarrow> env s s' \<Longrightarrow> f s' \<le> f s"
  shows "f s' \<le> f s"
  using assms(1,2)
proof (induction rule: run_path.induct)
  case (own_step s n s' s'')
  then show ?case using returns [OF own_step(1)] assms(3) [of s' s''] by force
next
  case (env_step s n s' s'')
  then show ?case using returns [OF env_step(1)] assms(4) [of s' s''] by force
qed simp

end

section \<open>The threads of an interface\<close>

datatype signal_pc = S_none | S_check | S_wait | S_receive | S_forward | S_end

datatype quadrant_pc = Q_none | Q_first | Q_check | Q_draw | Q_move | Q_sleep | Q_end

datatype receiver_pc = RX_none | RX_check | RX_wait | RX_turn | RX_end

datatype owner_pc = D_alive | D_cleared | D_killed | D_signal_joined | D_done

text \<open>
  \<open>nt_socket\<close> are the frames in the socket, \<open>nt_arrived\<close> counts those that ever came.  \<open>nt_full\<close> says that a send into
  the shared memory would wait for a reader.
\<close>

record nic_threads =
  nt_running :: bool
  nt_nonblock :: bool
  nt_signal :: signal_pc
  nt_pending :: bool
  nt_socket :: nat
  nt_arrived :: nat
  nt_full :: bool
  nt_quadrant :: quadrant_pc
  nt_receiver :: receiver_pc
  nt_wakeups :: nat
  nt_owner :: owner_pc

text \<open>The constructor of the raw engine makes the socket non-blocking, or throws (\<open>raw_new_outcome\<close>).\<close>

definition nic_constructed :: nic_threads where
  "nic_constructed = \<lparr>nt_running = False, nt_nonblock = True, nt_signal = S_none, nt_pending = False, nt_socket = 0, nt_arrived = 0,
     nt_full = False, nt_quadrant = Q_none, nt_receiver = RX_none, nt_wakeups = 0, nt_owner = D_alive\<rparr>"

definition init_nic :: "bool \<Rightarrow> bool \<Rightarrow> nic_threads \<Rightarrow> nic_threads" where
  "init_nic raw fixed s =
     (if raw then s\<lparr>nt_running := True, nt_signal := S_check, nt_quadrant := (if fixed then nt_quadrant s else Q_first)\<rparr>
      else s\<lparr>nt_running := True, nt_receiver := RX_check\<rparr>)"

text \<open>The destructor.\<close>

inductive owner_step :: "bool \<Rightarrow> nic_threads \<Rightarrow> nic_threads \<Rightarrow> bool" for raw where
  clear: "nt_owner s = D_alive \<Longrightarrow> owner_step raw s (s\<lparr>nt_running := False, nt_owner := D_cleared\<rparr>)"
| kill: "nt_owner s = D_cleared \<Longrightarrow> raw \<Longrightarrow> nt_signal s \<noteq> S_none \<Longrightarrow> owner_step raw s (s\<lparr>nt_pending := True, nt_owner := D_killed\<rparr>)"
| no_kill: "nt_owner s = D_cleared \<Longrightarrow> raw \<Longrightarrow> nt_signal s = S_none \<Longrightarrow> owner_step raw s (s\<lparr>nt_owner := D_signal_joined\<rparr>)"
| join_signal: "nt_owner s = D_killed \<Longrightarrow> nt_signal s = S_end \<Longrightarrow> owner_step raw s (s\<lparr>nt_owner := D_signal_joined\<rparr>)"
| join_quadrant: "nt_owner s = D_signal_joined \<Longrightarrow> nt_quadrant s \<in> {Q_none, Q_end} \<Longrightarrow> owner_step raw s (s\<lparr>nt_owner := D_done\<rparr>)"
| join_receiver: "nt_owner s = D_cleared \<Longrightarrow> \<not> raw \<Longrightarrow> nt_receiver s \<in> {RX_none, RX_end} \<Longrightarrow> owner_step raw s (s\<lparr>nt_owner := D_done\<rparr>)"

text \<open>
  The signal waiter.  A pending signal waits for the next \<^verbatim>\<open>sigwait\<close>.  The handler takes frames until the socket is
  empty, without a look at the flag; a blocking socket would make it wait there.  A frame for
  the inside is sent into the shared memory, which may have to wait; any other is done with at once.
\<close>

inductive signal_step :: "nic_threads \<Rightarrow> nic_threads \<Rightarrow> bool" where
  signal_check: "nt_signal s = S_check \<Longrightarrow> signal_step s (s\<lparr>nt_signal := (if nt_running s then S_wait else S_end)\<rparr>)"
| signal_taken: "nt_signal s = S_wait \<Longrightarrow> nt_pending s \<Longrightarrow> signal_step s (s\<lparr>nt_pending := False, nt_signal := S_receive\<rparr>)"
| frame_dropped: "nt_signal s = S_receive \<Longrightarrow> 0 < nt_socket s \<Longrightarrow> signal_step s (s\<lparr>nt_socket := nt_socket s - 1\<rparr>)"
| frame_inside: "nt_signal s = S_receive \<Longrightarrow> 0 < nt_socket s \<Longrightarrow>
    signal_step s (s\<lparr>nt_socket := nt_socket s - 1, nt_signal := S_forward\<rparr>)"
| forwarded: "nt_signal s = S_forward \<Longrightarrow> \<not> nt_full s \<Longrightarrow> signal_step s (s\<lparr>nt_signal := S_receive\<rparr>)"
| socket_drained: "nt_signal s = S_receive \<Longrightarrow> nt_socket s = 0 \<Longrightarrow> nt_nonblock s \<Longrightarrow> signal_step s (s\<lparr>nt_signal := S_check\<rparr>)"

text \<open>
  The quadrant changer.  The draw that finds another quadrant is its step; those that give the old one again
  belong to the environment.  Telling the protocol sends one frame on the non-blocking socket.
\<close>

inductive quadrant_step :: "nic_threads \<Rightarrow> nic_threads \<Rightarrow> bool" where
  first_stay: "nt_quadrant s = Q_first \<Longrightarrow> quadrant_step s (s\<lparr>nt_quadrant := Q_check\<rparr>)"
| quadrant_check: "nt_quadrant s = Q_check \<Longrightarrow> quadrant_step s (s\<lparr>nt_quadrant := (if nt_running s then Q_draw else Q_end)\<rparr>)"
| drawn: "nt_quadrant s = Q_draw \<Longrightarrow> quadrant_step s (s\<lparr>nt_quadrant := Q_move\<rparr>)"
| moved: "nt_quadrant s = Q_move \<Longrightarrow> quadrant_step s (s\<lparr>nt_quadrant := Q_sleep\<rparr>)"
| slept: "nt_quadrant s = Q_sleep \<Longrightarrow> quadrant_step s (s\<lparr>nt_quadrant := Q_check\<rparr>)"

text \<open>The receiver of the shared-memory interface; the semaphore counts its wake-ups.\<close>

inductive receiver_step :: "nic_threads \<Rightarrow> nic_threads \<Rightarrow> bool" where
  receiver_check: "nt_receiver s = RX_check \<Longrightarrow> receiver_step s (s\<lparr>nt_receiver := (if nt_running s then RX_wait else RX_end)\<rparr>)"
| receiver_woken: "nt_receiver s = RX_wait \<Longrightarrow> 0 < nt_wakeups s \<Longrightarrow>
    receiver_step s (s\<lparr>nt_wakeups := nt_wakeups s - 1, nt_receiver := RX_turn\<rparr>)"
| receiver_mismatch: "nt_receiver s = RX_wait \<Longrightarrow> 0 < nt_wakeups s \<Longrightarrow>
    receiver_step s (s\<lparr>nt_wakeups := nt_wakeups s - 1, nt_receiver := RX_check\<rparr>)"
| receiver_turned: "nt_receiver s = RX_turn \<Longrightarrow> receiver_step s (s\<lparr>nt_receiver := RX_check\<rparr>)"

definition nic_own :: "bool \<Rightarrow> nic_threads \<Rightarrow> nic_threads \<Rightarrow> bool" where
  "nic_own raw s s' \<longleftrightarrow> owner_step raw s s' \<or> signal_step s s' \<or> quadrant_step s s' \<or> receiver_step s s'"

text \<open>
  The others.  Frames arrive and raise SIGIO, which may also come without one; a receive or a wait on the
  semaphore may fail; the number drawn may be the old one; a sender wakes the receiver; and the
  shared memory fills up and empties.
\<close>

inductive nic_env :: "nic_threads \<Rightarrow> nic_threads \<Rightarrow> bool" where
  sigio: "nic_env s (s\<lparr>nt_pending := True\<rparr>)"
| arrival: "nic_env s (s\<lparr>nt_socket := nt_socket s + 1, nt_arrived := nt_arrived s + 1, nt_pending := True\<rparr>)"
| receive_failed: "nt_signal s = S_receive \<Longrightarrow> nic_env s (s\<lparr>nt_signal := S_check\<rparr>)"
| redrawn: "nt_quadrant s = Q_draw \<Longrightarrow> nic_env s s"
| wait_failed: "nt_receiver s = RX_wait \<Longrightarrow> nic_env s (s\<lparr>nt_receiver := RX_check\<rparr>)"
| message: "nic_env s (s\<lparr>nt_wakeups := nt_wakeups s + 1\<rparr>)"
| fills: "nic_env s (s\<lparr>nt_full := True\<rparr>)"
| empties: "nic_env s (s\<lparr>nt_full := False\<rparr>)"

inductive_cases owner_stepE: "owner_step raw s s'"
inductive_cases signal_stepE: "signal_step s s'"
inductive_cases quadrant_stepE: "quadrant_step s s'"
inductive_cases receiver_stepE: "receiver_step s s'"
inductive_cases nic_envE: "nic_env s s'"

lemmas nic_step_cases = owner_stepE signal_stepE quadrant_stepE receiver_stepE

lemma nic_ownI:
  "owner_step raw s s' \<Longrightarrow> nic_own raw s s'" "signal_step s s' \<Longrightarrow> nic_own raw s s'"
  "quadrant_step s s' \<Longrightarrow> nic_own raw s s'" "receiver_step s s' \<Longrightarrow> nic_own raw s s'"
  by (simp_all add: nic_own_def)

section \<open>The destructor of the external interface\<close>





















section \<open>The destructor of the shared-memory interface\<close>

text \<open>What goes on around the interface without a message for it and without a failing wait.\<close>

definition quiet :: "nic_threads \<Rightarrow> nic_threads \<Rightarrow> bool" where
  "quiet s s' \<longleftrightarrow> nic_env s s' \<and> nt_wakeups s' = nt_wakeups s \<and> nt_receiver s' = nt_receiver s"

definition receiver_asleep :: "nic_threads \<Rightarrow> bool" where
  "receiver_asleep s \<longleftrightarrow> nt_owner s = D_cleared \<and> \<not> nt_running s \<and> nt_receiver s = RX_wait \<and> nt_wakeups s = 0 \<and>
     nt_signal s = S_none \<and> nt_quadrant s = Q_none"

lemma asleep_step: "receiver_asleep s \<Longrightarrow> \<not> nic_own False s s'" "receiver_asleep s \<Longrightarrow> quiet s s' \<Longrightarrow> receiver_asleep s'"
  by (auto simp: receiver_asleep_def nic_own_def quiet_def elim!: nic_step_cases nic_envE)

text \<open>
  C39. The destructor of an interface to the shared memory waits for somebody else.  It clears
  the flag and joins the receiver, but nothing in the process wakes a receiver that waits on its semaphore: no
  step is left, and signals and network traffic change nothing.  What lets it return is a message from another
  process, four steps after which it can be done, or a failure of the wait itself (a signal handler in that thread,
  the removal of the semaphores), which takes two.
\<close>

theorem shm_interface_waits_for_others:
  assumes "receiver_asleep s"
  shows "(\<forall>n s'. run_path (nic_own False) quiet s n s' \<longrightarrow> n = 0 \<and> nt_owner s' = D_cleared) \<and>
    (\<exists>s1 s2. nic_env s s1 \<and> nt_wakeups s1 = 1 \<and> run_path (nic_own False) nic_env s1 4 s2 \<and> nt_owner s2 = D_done) \<and>
    (\<exists>s1 s2. nic_env s s1 \<and> nt_receiver s1 = RX_check \<and> run_path (nic_own False) nic_env s1 2 s2 \<and> nt_owner s2 = D_done)"
proof -
  note A = assms [unfolded receiver_asleep_def]
  have "receiver_asleep s' \<and> n = 0" if "run_path (nic_own False) quiet s n s'" "receiver_asleep s" for n s s'
    using that by (induction rule: run_path.induct) (auto dest: asleep_step)
  then have quiet: "\<forall>n s'. run_path (nic_own False) quiet s n s' \<longrightarrow> n = 0 \<and> nt_owner s' = D_cleared"
    using assms by (auto simp: receiver_asleep_def)
  have last: "nic_own False u (u\<lparr>nt_receiver := RX_end\<rparr>)" "nic_own False (u\<lparr>nt_receiver := RX_end\<rparr>) (u\<lparr>nt_receiver := RX_end, nt_owner := D_done\<rparr>)"
    if "nt_receiver u = RX_check" "\<not> nt_running u" "nt_owner u = D_cleared" for u
    using nic_ownI(4) [OF receiver_step.receiver_check [OF that(1)]]
      nic_ownI(1) [OF owner_step.join_receiver [of "u\<lparr>nt_receiver := RX_end\<rparr>" False]] that(2,3)
    by simp_all
  have woken: "\<exists>s1 s2. nic_env s s1 \<and> nt_wakeups s1 = 1 \<and> run_path (nic_own False) nic_env s1 4 s2 \<and> nt_owner s2 = D_done"
  proof -
    let ?s1 = "s\<lparr>nt_wakeups := nt_wakeups s + 1\<rparr>"
    let ?s2 = "?s1\<lparr>nt_wakeups := nt_wakeups ?s1 - 1, nt_receiver := RX_turn\<rparr>"
    let ?s3 = "?s2\<lparr>nt_receiver := RX_check\<rparr>"
    have "nic_own False ?s1 ?s2" by (rule nic_ownI(4) [OF receiver_step.receiver_woken]) (simp_all add: A)
    moreover have "nic_own False ?s2 ?s3" by (rule nic_ownI(4) [OF receiver_step.receiver_turned]) simp
    ultimately have "run_path (nic_own False) nic_env ?s1 4 (?s3\<lparr>nt_receiver := RX_end, nt_owner := D_done\<rparr>)"
      by (rule own_steps(3)) (rule last; simp add: A)+
    moreover have "nic_env s ?s1" by (rule nic_env.message)
    ultimately show ?thesis using A by (intro exI conjI) (assumption, simp, assumption, simp)
  qed
  have failed: "\<exists>s1 s2. nic_env s s1 \<and> nt_receiver s1 = RX_check \<and> run_path (nic_own False) nic_env s1 2 s2 \<and> nt_owner s2 = D_done"
  proof -
    let ?s1 = "s\<lparr>nt_receiver := RX_check\<rparr>"
    have "run_path (nic_own False) nic_env ?s1 2 (?s1\<lparr>nt_receiver := RX_end, nt_owner := D_done\<rparr>)"
      by (rule own_steps(2)) (rule last; simp add: A)+
    moreover have "nic_env s ?s1" by (rule nic_env.wait_failed) (simp add: A)
    ultimately show ?thesis by (intro exI conjI) (assumption, simp, assumption, simp)
  qed
  from quiet woken failed show ?thesis by blast
qed

theorem shm_interface_waits_for_others_witness:
  "\<exists>s. run_path (nic_own False) nic_env (init_nic False False nic_constructed) 2 s \<and>
     (\<forall>n s'. run_path (nic_own False) quiet s n s' \<longrightarrow> nt_owner s' = D_cleared)"
proof -
  let ?new = "init_nic False False nic_constructed"
  let ?s1 = "?new\<lparr>nt_receiver := (if nt_running ?new then RX_wait else RX_end)\<rparr>"
  let ?s = "?s1\<lparr>nt_running := False, nt_owner := D_cleared\<rparr>"
  have "nic_own False ?new ?s1" by (rule nic_ownI(4) [OF receiver_step.receiver_check]) (simp add: init_nic_def)
  moreover have "nic_own False ?s1 ?s" by (rule nic_ownI(1) [OF owner_step.clear]) (simp add: init_nic_def nic_constructed_def)
  ultimately have two: "run_path (nic_own False) nic_env ?new 2 ?s" by (rule own_steps(2))
  have "receiver_asleep ?s" by (simp add: receiver_asleep_def init_nic_def nic_constructed_def)
  from shm_interface_waits_for_others [OF this] two show ?thesis by blast
qed

section \<open>The timer of the clock synchronisation\<close>

text \<open>
  \<open>T_first\<close> is the sleep before the first request, which is made without a look at the flag; \<open>T_request\<close> is
  the point between the second test of the flag and the request.  Between
  two steps of the timer the receive thread of the gateway may handle messages for the slave.
\<close>

datatype timer_pc = T_first | T_check | T_sleep | T_recheck | T_request | T_end

record ptp_timer =
  pt_running :: bool
  pt_pc :: timer_pc
  pt_slave :: slave
  pt_calls :: "call list"

definition timer_start :: "slave \<Rightarrow> ptp_timer" where
  "timer_start sl = \<lparr>pt_running = True, pt_pc = T_first, pt_slave = sl, pt_calls = []\<rparr>"

definition timer_stop :: "ptp_timer \<Rightarrow> ptp_timer" where
  "timer_stop s = s\<lparr>pt_running := False\<rparr>"

definition timer_request :: "u64 \<Rightarrow> address \<Rightarrow> ptp_timer \<Rightarrow> ptp_timer" where
  "timer_request now me s = (case request_synchronization now me (pt_slave s) of
     (sl, cs, err) \<Rightarrow> s\<lparr>pt_pc := T_check, pt_slave := sl, pt_calls := pt_calls s @ cs\<rparr>)"

inductive timer_own :: "address \<Rightarrow> ptp_timer \<Rightarrow> ptp_timer \<Rightarrow> bool" for me where
  first: "pt_pc s = T_first \<Longrightarrow> timer_own me s (timer_request now me s)"
| check: "pt_pc s = T_check \<Longrightarrow> timer_own me s (s\<lparr>pt_pc := (if pt_running s then T_sleep else T_end)\<rparr>)"
| sleep: "pt_pc s = T_sleep \<Longrightarrow> timer_own me s (s\<lparr>pt_pc := T_recheck\<rparr>)"
| recheck_stop: "pt_pc s = T_recheck \<Longrightarrow> \<not> pt_running s \<Longrightarrow> timer_own me s (s\<lparr>pt_pc := T_end\<rparr>)"
| recheck_go: "pt_pc s = T_recheck \<Longrightarrow> pt_running s \<Longrightarrow> timer_own me s (s\<lparr>pt_pc := T_request\<rparr>)"
| request: "pt_pc s = T_request \<Longrightarrow> timer_own me s (timer_request now me s)"

inductive timer_env :: "ptp_timer \<Rightarrow> ptp_timer \<Rightarrow> bool" where
  handled: "slave_handle now now' ok pl n src dst (pt_slave s) = (sl, cs, err) \<Longrightarrow> timer_env s (s\<lparr>pt_slave := sl\<rparr>)"

inductive_cases timer_ownE: "timer_own me s s'"
inductive_cases timer_envE: "timer_env s s'"

definition timer_left :: "ptp_timer \<Rightarrow> nat" where
  "timer_left s = (case pt_pc s of T_first \<Rightarrow> 2 | T_check \<Rightarrow> 1 | T_sleep \<Rightarrow> 2 | T_recheck \<Rightarrow> 1 | T_request \<Rightarrow> 2 | T_end \<Rightarrow> 0)"

lemma timer_request_fields [simp]:
  "pt_running (timer_request now me s) = pt_running s" "pt_pc (timer_request now me s) = T_check"
  "length (pt_calls (timer_request now me s)) \<le> Suc (length (pt_calls s))"
  by (simp_all add: timer_request_def request_synchronization_def)

lemma timer_goes_on: "pt_pc s \<noteq> T_end \<Longrightarrow> \<exists>s'. timer_own me s s'"
  using timer_own.first [of s me] timer_own.check [of s me] timer_own.sleep [of s me]
    timer_own.recheck_stop [of s me] timer_own.recheck_go [of s me] timer_own.request [of s me]
  by (cases "pt_pc s") blast+

interpretation timer_stop: stoppable "timer_own me" timer_env "\<lambda>s. \<not> pt_running s" "\<lambda>s. pt_pc s = T_end" timer_left "\<lambda>_. 0"
proof
  fix s s'
  show "\<not> pt_running s \<Longrightarrow> timer_own me s s' \<Longrightarrow> \<not> pt_running s' \<and> timer_left s' < timer_left s \<and> (0::nat) = 0"
    by (erule timer_ownE) (auto simp: timer_left_def)
  show "\<not> pt_running s \<Longrightarrow> timer_env s s' \<Longrightarrow> \<not> pt_running s' \<and> timer_left s' + 0 \<le> timer_left s + 0 \<and> (0::nat) \<le> 0"
    by (erule timer_envE) (simp add: timer_left_def)
  show "\<not> pt_running s \<Longrightarrow> pt_pc s \<noteq> T_end \<Longrightarrow> \<exists>s'. timer_own me s s'" by (rule timer_goes_on)
qed

text \<open>
  C22. \<^verbatim>\<open>PtpTimerThread::stop\<close> returns: after it the timer makes at most two more steps, whatever
  messages the slave handles in between, and can make one until it has ended.  It sends at
  most one more request, and that only if the stop came before its first one or between the test of the flag and the
  request; anywhere else in the loop it sends nothing more.
\<close>

theorem timer_stops:
  assumes "run_path (timer_own me) timer_env (timer_stop s) n s'"
  shows "n \<le> 2 \<and> (pt_pc s' = T_end \<or> (\<exists>s''. timer_own me s' s'')) \<and>
    length (pt_calls s') \<le> length (pt_calls s) + (if pt_pc s \<in> {T_first, T_request} then 1 else 0)"
proof -
  let ?f = "\<lambda>s. length (pt_calls s) + (if pt_pc s \<in> {T_first, T_request} then 1 else 0)"
  have stop: "\<not> pt_running (timer_stop s)" by (simp add: timer_stop_def)
  have "timer_left (timer_stop s) \<le> 2" by (simp add: timer_left_def split: timer_pc.splits)
  moreover have "?f s' \<le> ?f (timer_stop s)"
  proof (rule timer_stop.bounded [OF assms stop])
    fix s s' :: ptp_timer
    show "\<not> pt_running s \<Longrightarrow> timer_own me s s' \<Longrightarrow> ?f s' \<le> ?f s"
      by (erule timer_ownE) auto
    show "\<not> pt_running s \<Longrightarrow> timer_env s s' \<Longrightarrow> ?f s' \<le> ?f s" by (erule timer_envE) simp
  qed
  ultimately show ?thesis using timer_stop.returns [OF assms stop] by (auto simp: timer_stop_def)
qed

theorem timer_stops_witness:
  "\<exists>s'. run_path (timer_own (local 0)) timer_env (timer_stop (timer_start slave_init)) 1 s' \<and> length (pt_calls s') = 1 \<and>
     (\<exists>s''. timer_own (local 0) s' s'')"
proof -
  let ?s = "timer_stop (timer_start slave_init)"
  have "timer_own (local 0) ?s (timer_request 5 (local 0) ?s)" by (rule timer_own.first) (simp add: timer_stop_def timer_start_def)
  from own_steps(1) [of "timer_own (local 0)", OF this]
  have one: "run_path (timer_own (local 0)) timer_env ?s 1 (timer_request 5 (local 0) ?s)" .
  have "length (pt_calls (timer_request 5 (local 0) ?s)) = 1"
    by (simp add: timer_request_def timer_stop_def timer_start_def request_synchronization_def slave_init_def)
  then show ?thesis using timer_stops [OF one] one by (intro exI [of _ "timer_request 5 (local 0) ?s"]) simp
qed

section \<open>The sweeper of the TEDS handler\<close>

text \<open>\<open>C_dead\<close> is the terminated process.  Interests and other sweeps of the table come in between.\<close>

datatype sweeper_pc = C_check | C_sleep | C_end | C_dead

record 'v sweeper =
  sw_running :: bool
  sw_pc :: sweeper_pc
  sw_handler :: "'v teds_handler"

definition teds_handler_new :: "'v teds_handler \<Rightarrow> 'v sweeper" where
  "teds_handler_new h = \<lparr>sw_running = True, sw_pc = C_check, sw_handler = h\<rparr>"

definition teds_handler_delete :: "'v sweeper \<Rightarrow> 'v sweeper" where
  "teds_handler_delete s = s\<lparr>sw_running := False\<rparr>"

inductive sweeper_own :: "'v sweeper \<Rightarrow> 'v sweeper \<Rightarrow> bool" where
  check: "sw_pc s = C_check \<Longrightarrow> sweeper_own s (s\<lparr>sw_pc := (if sw_running s then C_sleep else C_end)\<rparr>)"
| sweep: "sw_pc s = C_sleep \<Longrightarrow> cleanup_pass b (sw_handler s) = Inr h \<Longrightarrow> sweeper_own s (s\<lparr>sw_pc := C_check, sw_handler := h\<rparr>)"
| dies: "sw_pc s = C_sleep \<Longrightarrow> cleanup_pass b (sw_handler s) = Inl e \<Longrightarrow> sweeper_own s (s\<lparr>sw_pc := C_dead\<rparr>)"

inductive sweeper_env :: "(u32 \<Rightarrow> 'v) \<Rightarrow> 'v sweeper \<Rightarrow> 'v sweeper \<Rightarrow> bool" for of_float where
  interest: "handleTEDSMessage of_float m (sw_handler s) = Inr h \<Longrightarrow> sweeper_env of_float s (s\<lparr>sw_handler := h\<rparr>)"

inductive_cases sweeper_ownE: "sweeper_own s s'"
inductive_cases sweeper_envE: "sweeper_env of_float s s'"

definition sweeper_left :: "'v sweeper \<Rightarrow> nat" where
  "sweeper_left s = (case sw_pc s of C_check \<Rightarrow> 1 | C_sleep \<Rightarrow> 2 | _ \<Rightarrow> 0)"

lemma sweeper_goes_on: "sw_pc s \<notin> {C_end, C_dead} \<Longrightarrow> \<exists>s'. sweeper_own s s'"
  using sweeper_own.check [of s] sweeper_own.sweep [of s undefined] sweeper_own.dies [of s undefined]
  by (cases "sw_pc s"; cases "cleanup_pass undefined (sw_handler s)") blast+

interpretation sweeper_stop: stoppable sweeper_own "sweeper_env (of_float :: u32 \<Rightarrow> 'v)" "\<lambda>s. \<not> sw_running s" "\<lambda>s. sw_pc s \<in> {C_end, C_dead}" sweeper_left "\<lambda>_. 0"
proof
  fix s s' :: "'v sweeper"
  show "\<not> sw_running s \<Longrightarrow> sweeper_own s s' \<Longrightarrow> \<not> sw_running s' \<and> sweeper_left s' < sweeper_left s \<and> (0::nat) = 0"
    by (erule sweeper_ownE) (auto simp: sweeper_left_def)
  show "\<not> sw_running s \<Longrightarrow> sweeper_env of_float s s' \<Longrightarrow> \<not> sw_running s' \<and> sweeper_left s' + 0 \<le> sweeper_left s + 0 \<and> (0::nat) \<le> 0"
    by (erule sweeper_envE) (simp add: sweeper_left_def)
  show "\<not> sw_running s \<Longrightarrow> sw_pc s \<notin> {C_end, C_dead} \<Longrightarrow> \<exists>s'. sweeper_own s s'" by (rule sweeper_goes_on)
qed

text \<open>The destructor of the TEDS handler returns after at most one more sweep, unless that ends the process.\<close>

lemma sweeper_stops:
  assumes "run_path sweeper_own (sweeper_env of_float) (teds_handler_delete s) n s'"
  shows "n \<le> 2 \<and> (sw_pc s' \<in> {C_end, C_dead} \<or> (\<exists>s''. sweeper_own s' s''))"
proof -
  have "\<not> sw_running (teds_handler_delete s)" by (simp add: teds_handler_delete_def)
  moreover have "sweeper_left (teds_handler_delete s) \<le> 2" by (simp add: sweeper_left_def split: sweeper_pc.splits)
  ultimately show ?thesis using sweeper_stop.returns [OF assms] by auto
qed

end
