(* ===== verification/Protocol_Lifecycle.thy ===== *)
theory Protocol_Lifecycle
  imports Thread_Shutdown Group_Monitor
begin

text \<open>
  The one instance of the protocol in a process: whom the interfaces call, which threads run, what the pointers
  of the instance point to and in which quadrant both interfaces are, from its construction over \<^verbatim>\<open>init_gateway\<close> or
  \<^verbatim>\<open>init_component\<close> and any interleaving of the threads these start to the destructors in the order of the program.
  The data that messages change is in \<^verbatim>\<open>Protocol_Stack\<close>.
\<close>

section \<open>The state\<close>

text \<open>
  A pointer is the interface it points to.  The observer lists belong to the interfaces and are gone
  with them.  \<open>pl_joins\<close> counts the requests to join that the group handler of a member has sent.
\<close>

record 'o protocol_life =
  pl_local_ptr :: bool
  pl_external_ptr :: bool
  pl_local_alive :: bool
  pl_external_alive :: bool
  pl_local_observers :: "('o, u16) observed"
  pl_external_observers :: "('o, u16) observed"
  pl_local_threads :: nic_threads
  pl_external_threads :: nic_threads
  pl_local_quadrant :: quadrant
  pl_external_quadrant :: quadrant
  pl_timer :: "ptp_timer option"
  pl_handler :: "group_role option"
  pl_monitor :: "monitor option"
  pl_joins :: nat

text \<open>A process whose interfaces have been constructed, in any quadrants; a component has no external one.\<close>

definition protocol_new :: "quadrant \<Rightarrow> quadrant \<Rightarrow> bool \<Rightarrow> 'o protocol_life" where
  "protocol_new lq xq gateway = \<lparr>pl_local_ptr = False, pl_external_ptr = False, pl_local_alive = True, pl_external_alive = gateway,
     pl_local_observers = observed_empty, pl_external_observers = observed_empty,
     pl_local_threads = nic_constructed, pl_external_threads = nic_constructed,
     pl_local_quadrant = lq, pl_external_quadrant = xq, pl_timer = None, pl_handler = None, pl_monitor = None, pl_joins = 0\<rparr>"

section \<open>Initialisation\<close>

text \<open>Assigning a new thread to a thread that runs terminates the process.\<close>

definition start_nic :: "bool \<Rightarrow> bool \<Rightarrow> nic_threads \<Rightarrow> fault + nic_threads" where
  "start_nic raw fixed t =
     (if (if raw then nt_signal t \<noteq> S_none \<or> \<not> fixed \<and> nt_quadrant t \<noteq> Q_none else nt_receiver t \<noteq> RX_none) then Inl Terminated
      else Inr (init_nic raw fixed t))"

text \<open>A timer that is replaced is stopped by its destructor; nobody but the new one is left.\<close>

definition init_clock_life :: "ptp_role \<Rightarrow> 'o protocol_life \<Rightarrow> 'o protocol_life" where
  "init_clock_life r s = (case r of PTP_SLAVE \<Rightarrow> s\<lparr>pl_timer := Some (timer_start slave_init)\<rparr> | PTP_MASTER \<Rightarrow> s)"

text \<open>The constructor of the leader starts its monitor; a handler that is replaced stops its own.\<close>

definition group_handler_new :: "u64 \<Rightarrow> u64 \<Rightarrow> nat \<Rightarrow> group_role \<Rightarrow> 'o protocol_life \<Rightarrow> 'o protocol_life" where
  "group_handler_new junk key clock r s = s\<lparr>pl_handler := Some r,
     pl_monitor := (case r of LEADER \<Rightarrow> Some (mon_start (fst (leader_init junk key)) clock) | MEMBER \<Rightarrow> None)\<rparr>"

definition init_group_life :: "u64 \<Rightarrow> u64 \<Rightarrow> nat \<Rightarrow> group_role \<Rightarrow> 'o protocol_life \<Rightarrow> fault + 'o protocol_life" where
  "init_group_life junk key clock r s = (case start_nic True (r = LEADER) (pl_external_threads s) of
     Inl e \<Rightarrow> Inl e | Inr t \<Rightarrow> Inr ((group_handler_new junk key clock r s)\<lparr>pl_external_threads := t\<rparr>))"

text \<open>\<^verbatim>\<open>notify_location_change\<close> of the handler: a member joins, a leader does nothing.\<close>

definition location_changed :: "'o protocol_life \<Rightarrow> 'o protocol_life" where
  "location_changed s = (if pl_handler s = Some MEMBER then s\<lparr>pl_joins := Suc (pl_joins s)\<rparr> else s)"

definition update_quadrant_life :: "quadrant \<Rightarrow> 'o protocol_life \<Rightarrow> 'o protocol_life" where
  "update_quadrant_life q s = location_changed (s\<lparr>pl_local_quadrant := q, pl_external_quadrant := q\<rparr>)"

text \<open>
  The threads that are started on the way are taken to make their first step after its end: the changer and the timer
  start with a stay of at least two seconds.
\<close>

definition init_gateway_life ::
  "u64 \<Rightarrow> u64 \<Rightarrow> nat \<Rightarrow> 'o \<Rightarrow> quadrant \<Rightarrow> ptp_role \<Rightarrow> group_role \<Rightarrow> 'o protocol_life \<Rightarrow> fault + 'o protocol_life" where
  "init_gateway_life junk key clock me q pr gr s =
     (let s1 = s\<lparr>pl_local_ptr := True, pl_external_ptr := True,
          pl_local_observers := attach (pl_local_observers s) (Some me) ETHERNET_PROTOCOL_NUMBER,
          pl_external_observers := attach (pl_external_observers s) (Some me) ETHERNET_PROTOCOL_NUMBER\<rparr>
      in case start_nic False False (pl_local_threads s1) of Inl e \<Rightarrow> Inl e
         | Inr t \<Rightarrow> (case init_group_life junk key clock gr (init_clock_life pr (s1\<lparr>pl_local_threads := t\<rparr>)) of Inl e \<Rightarrow> Inl e
             | Inr s2 \<Rightarrow> Inr (update_quadrant_life q s2)))"

definition init_component_life :: "'o \<Rightarrow> 'o protocol_life \<Rightarrow> fault + 'o protocol_life" where
  "init_component_life me s =
     (if pl_local_ptr s then Inr s
      else case start_nic False False (pl_local_threads s) of Inl e \<Rightarrow> Inl e
         | Inr t \<Rightarrow> Inr (s\<lparr>pl_local_ptr := True, pl_external_ptr := False,
             pl_local_observers := attach (pl_local_observers s) (Some me) ETHERNET_PROTOCOL_NUMBER, pl_local_threads := t\<rparr>))"

section \<open>Destruction\<close>

text \<open>
  Detaching from an interface that is gone is undefined, \<open>None\<close>.  The destructor stops the timer, the group
  handler's its monitor.
\<close>

definition protocol_delete :: "'o \<Rightarrow> 'o protocol_life \<Rightarrow> 'o protocol_life option" where
  "protocol_delete me s =
     (if pl_local_ptr s \<and> \<not> pl_local_alive s \<or> pl_external_ptr s \<and> \<not> pl_external_alive s then None
      else Some (s\<lparr>
        pl_local_observers := (if pl_local_ptr s then detach (pl_local_observers s) (Some me) ETHERNET_PROTOCOL_NUMBER else pl_local_observers s),
        pl_external_observers := (if pl_external_ptr s then detach (pl_external_observers s) (Some me) ETHERNET_PROTOCOL_NUMBER
          else pl_external_observers s),
        pl_timer := map_option timer_stop (pl_timer s), pl_monitor := map_option (notify_one \<circ> clear_running) (pl_monitor s)\<rparr>))"

text \<open>Where \<^verbatim>\<open>Protocol::free\<close> takes a buffer: to the local interface, or to the heap when there is none.\<close>

datatype freed = Freed_by_nic | Deleted

definition protocol_free :: "'o protocol_life \<Rightarrow> freed" where
  "protocol_free s = (if pl_local_ptr s then Freed_by_nic else Deleted)"

section \<open>The life of a gateway\<close>

text \<open>
  After the initialisation the threads run in any order.  The changer of the external interface draws a quadrant that is not the
  present one, and then tells whoever is registered for the number of its empty buffer; the protocol has its
  handler told and takes the quadrant over into the shared memory.  When the gateway is destroyed its interfaces
  go, the external one first, each when its destructor is done; the instance is a static object and comes after them.
\<close>

definition quadrant_notified :: "'o protocol_life \<Rightarrow> 'o protocol_life" where
  "quadrant_notified s = fold (\<lambda>_ u. (location_changed u)\<lparr>pl_local_quadrant := pl_external_quadrant u\<rparr>)
     (targets (pl_external_observers s) ETHERNET_PROTOCOL_NUMBER) s"

inductive life_step :: "address \<Rightarrow> 'o protocol_life \<Rightarrow> 'o protocol_life \<Rightarrow> bool" for a where
  local_thread: "receiver_step (pl_local_threads s) t \<or> nic_env (pl_local_threads s) t \<Longrightarrow> life_step a s (s\<lparr>pl_local_threads := t\<rparr>)"
| external_thread: "signal_step (pl_external_threads s) t \<or> nic_env (pl_external_threads s) t \<Longrightarrow>
    life_step a s (s\<lparr>pl_external_threads := t\<rparr>)"
| changer: "quadrant_step (pl_external_threads s) t \<Longrightarrow> nt_quadrant (pl_external_threads s) \<notin> {Q_draw, Q_move} \<Longrightarrow>
    life_step a s (s\<lparr>pl_external_threads := t\<rparr>)"
| changer_draws: "quadrant_step (pl_external_threads s) t \<Longrightarrow> nt_quadrant (pl_external_threads s) = Q_draw \<Longrightarrow>
    q \<noteq> pl_external_quadrant s \<Longrightarrow> life_step a s (s\<lparr>pl_external_threads := t, pl_external_quadrant := q\<rparr>)"
| changer_tells: "quadrant_step (pl_external_threads s) t \<Longrightarrow> nt_quadrant (pl_external_threads s) = Q_move \<Longrightarrow>
    life_step a s (quadrant_notified (s\<lparr>pl_external_threads := t\<rparr>))"
| timer_thread: "pl_timer s = Some t \<Longrightarrow> timer_own a t t' \<or> timer_env t t' \<Longrightarrow> life_step a s (s\<lparr>pl_timer := Some t'\<rparr>)"
| monitor_thread: "pl_monitor s = Some m \<Longrightarrow> mon_step own m m' \<Longrightarrow> mon_running m' \<Longrightarrow> life_step a s (s\<lparr>pl_monitor := Some m'\<rparr>)"
| external_dies: "owner_step True (pl_external_threads s) t \<Longrightarrow> life_step a s (s\<lparr>pl_external_threads := t\<rparr>)"
| external_gone: "nt_owner (pl_external_threads s) = D_done \<Longrightarrow> life_step a s (s\<lparr>pl_external_alive := False\<rparr>)"
| local_dies: "\<not> pl_external_alive s \<Longrightarrow> owner_step False (pl_local_threads s) t \<Longrightarrow> life_step a s (s\<lparr>pl_local_threads := t\<rparr>)"
| local_gone: "\<not> pl_external_alive s \<Longrightarrow> nt_owner (pl_local_threads s) = D_done \<Longrightarrow> life_step a s (s\<lparr>pl_local_alive := False\<rparr>)"

section \<open>Who is called and who runs\<close>

lemma targets_singleton: "targets (attach observed_empty (Some ob) c) c' = (if c = c' then [ob] else [])"
  by (simp add: targets_attach) (simp add: targets_def observed_empty_def)

definition local_ok :: "nic_threads \<Rightarrow> bool" where
  "local_ok t \<longleftrightarrow> nt_owner t = D_alive \<longrightarrow> nt_running t \<and> nt_receiver t \<notin> {RX_none, RX_end}"

definition external_ok :: "group_role \<Rightarrow> nic_threads \<Rightarrow> bool" where
  "external_ok gr t \<longleftrightarrow> (nt_quadrant t = Q_none \<longleftrightarrow> gr = LEADER) \<and>
     (nt_owner t = D_alive \<longrightarrow> nt_running t \<and> nt_signal t \<notin> {S_none, S_end} \<and> nt_quadrant t \<noteq> Q_end)"

definition timer_ok :: "ptp_timer \<Rightarrow> bool" where
  "timer_ok t \<longleftrightarrow> pt_running t \<and> pt_pc t \<noteq> T_end"

definition monitor_ok :: "monitor \<Rightarrow> bool" where
  "monitor_ok m \<longleftrightarrow> mon_reach m \<and> mon_running m \<and> mon_pc m \<noteq> M_done"

definition quadrants_ok :: "quadrant \<Rightarrow> group_role \<Rightarrow> 'o protocol_life \<Rightarrow> bool" where
  "quadrants_ok q gr s \<longleftrightarrow>
     (if gr = LEADER then pl_local_quadrant s = q \<and> pl_external_quadrant s = q \<and> pl_joins s = 0
      else pl_joins s > 0 \<and> (nt_quadrant (pl_external_threads s) \<noteq> Q_move \<longrightarrow> pl_local_quadrant s = pl_external_quadrant s))"

definition life_ok :: "'o \<Rightarrow> quadrant \<Rightarrow> ptp_role \<Rightarrow> group_role \<Rightarrow> 'o protocol_life \<Rightarrow> bool" where
  "life_ok me q pr gr s \<longleftrightarrow> pl_local_ptr s \<and> pl_external_ptr s \<and> pl_handler s = Some gr \<and>
     pl_local_observers s = attach observed_empty (Some me) ETHERNET_PROTOCOL_NUMBER \<and>
     pl_external_observers s = attach observed_empty (Some me) ETHERNET_PROTOCOL_NUMBER \<and>
     local_ok (pl_local_threads s) \<and> external_ok gr (pl_external_threads s) \<and> quadrants_ok q gr s \<and>
     (case pl_timer s of None \<Rightarrow> pr = PTP_MASTER | Some t \<Rightarrow> pr = PTP_SLAVE \<and> timer_ok t) \<and>
     (case pl_monitor s of None \<Rightarrow> gr = MEMBER | Some m \<Rightarrow> gr = LEADER \<and> monitor_ok m) \<and>
     (pl_external_alive s \<longrightarrow> pl_local_alive s \<and> nt_owner (pl_local_threads s) = D_alive)"

inductive_cases life_stepE: "life_step a s s'"

lemma init_gateway_life_new:
  "\<exists>s. init_gateway_life junk key clock me q pr gr (protocol_new lq xq True) = Inr s \<and> life_ok me q pr gr s"
proof -
  have m: "monitor_ok (mon_start (fst (leader_init junk key)) clock)"
    using mon_reach.started [OF leader_init_ok, of junk key clock] by (simp add: monitor_ok_def mon_start_def)
  show ?thesis
    by (cases pr; cases gr) (simp_all add: init_gateway_life_def init_group_life_def init_clock_life_def group_handler_new_def start_nic_def
      protocol_new_def nic_constructed_def init_nic_def update_quadrant_life_def location_changed_def life_ok_def local_ok_def external_ok_def
      quadrants_ok_def timer_ok_def timer_start_def m Let_def)
qed

text \<open>The threads of an interface whose destructor has not begun do not end.\<close>

lemma local_ok_step: "local_ok t \<Longrightarrow> receiver_step t t' \<or> nic_env t t' \<Longrightarrow> local_ok t' \<and> nt_owner t' = nt_owner t"
  by (auto simp: local_ok_def elim!: receiver_stepE nic_envE)

lemma external_ok_step:
  assumes "external_ok gr t"
  shows "signal_step t t' \<or> nic_env t t' \<Longrightarrow> external_ok gr t' \<and> nt_quadrant t' = nt_quadrant t"
    "quadrant_step t t' \<Longrightarrow> external_ok gr t' \<and> gr = MEMBER" "owner_step True t t' \<Longrightarrow> external_ok gr t' \<and> nt_quadrant t' = nt_quadrant t"
proof -
  note ok = assms [unfolded external_ok_def]
  have "nic_env t t' \<Longrightarrow> external_ok gr t' \<and> nt_quadrant t' = nt_quadrant t"
    using ok by (elim nic_envE) (auto simp: external_ok_def)
  moreover have "signal_step t t' \<Longrightarrow> external_ok gr t' \<and> nt_quadrant t' = nt_quadrant t"
    using ok by (elim signal_stepE) (auto simp: external_ok_def)
  ultimately show "signal_step t t' \<or> nic_env t t' \<Longrightarrow> external_ok gr t' \<and> nt_quadrant t' = nt_quadrant t" by blast
  have "external_ok gr t' \<and> gr \<noteq> LEADER" if "quadrant_step t t'"
    using that ok by (elim quadrant_stepE) (auto simp: external_ok_def)
  then show "quadrant_step t t' \<Longrightarrow> external_ok gr t' \<and> gr = MEMBER" by (cases gr) auto
  show "owner_step True t t' \<Longrightarrow> external_ok gr t' \<and> nt_quadrant t' = nt_quadrant t"
    using ok by (elim owner_stepE) (auto simp: external_ok_def)
qed

lemma owner_step_leaves: "owner_step raw t t' \<Longrightarrow> nt_owner t' \<noteq> D_alive"
  by (auto elim: owner_stepE)

lemma timer_ok_step: "timer_ok t \<Longrightarrow> timer_own a t t' \<or> timer_env t t' \<Longrightarrow> timer_ok t'"
  by (auto simp: timer_ok_def elim!: timer_ownE timer_envE)

lemma monitor_ok_step:
  assumes "monitor_ok m" "mon_step own m m'" "mon_running m'"
  shows "monitor_ok m'"
proof -
  have "mon_pc m' \<noteq> M_done" using assms(2,1,3) by (induction rule: mon_step.induct) (auto simp: monitor_ok_def)
  then show ?thesis using assms mon_reach.stepped by (auto simp: monitor_ok_def)
qed

text \<open>The protocol is told of a new quadrant once.\<close>

lemma notified_once:
  assumes "life_ok me q pr gr s" "gr = MEMBER"
  shows "quadrant_notified (s\<lparr>pl_external_threads := t\<rparr>) =
    s\<lparr>pl_external_threads := t, pl_joins := Suc (pl_joins s), pl_local_quadrant := pl_external_quadrant s\<rparr>"
  using assms by (simp add: life_ok_def quadrant_notified_def targets_singleton location_changed_def)

lemma life_ok_step:
  assumes "life_step a s s'" "life_ok me q pr gr s"
  shows "life_ok me q pr gr s'"
  using assms
proof (induction rule: life_step.induct)
  case (local_thread s t)
  then show ?case using local_ok_step [of "pl_local_threads s" t] by (auto simp: life_ok_def quadrants_ok_def)
next
  case (external_thread s t)
  then show ?case using external_ok_step(1) [of gr "pl_external_threads s" t] by (auto simp: life_ok_def quadrants_ok_def)
next
  case (changer s t)
  then show ?case using external_ok_step(2) [of gr "pl_external_threads s" t] by (auto simp: life_ok_def quadrants_ok_def)
next
  case (changer_draws s t q')
  then have "nt_quadrant t = Q_move" by (auto elim!: quadrant_stepE)
  then show ?case using changer_draws external_ok_step(2) [of gr "pl_external_threads s" t] by (auto simp: life_ok_def quadrants_ok_def)
next
  case (changer_tells s t)
  then have "external_ok gr t" "gr = MEMBER" using external_ok_step(2) [of gr "pl_external_threads s" t] by (auto simp: life_ok_def)
  then show ?case using changer_tells notified_once [of me q pr gr s t] by (auto simp: life_ok_def quadrants_ok_def)
next
  case (timer_thread s t t')
  then show ?case using timer_ok_step [of t a t'] by (auto simp: life_ok_def quadrants_ok_def)
next
  case (monitor_thread s m own m')
  then show ?case using monitor_ok_step [of m own m'] by (auto simp: life_ok_def quadrants_ok_def)
next
  case (external_dies s t)
  then show ?case using external_ok_step(3) [of gr "pl_external_threads s" t] by (auto simp: life_ok_def quadrants_ok_def)
next
  case (local_dies s t)
  then show ?case using owner_step_leaves [of False "pl_local_threads s" t] by (auto simp: life_ok_def local_ok_def quadrants_ok_def)
qed (auto simp: life_ok_def quadrants_ok_def)

lemma life_ok_reached: "rtranclp (life_step a) s s' \<Longrightarrow> life_ok me q pr gr s \<Longrightarrow> life_ok me q pr gr s'"
  by (induction rule: rtranclp_induct) (blast intro: life_ok_step)+

lemma local_quadrant_step:
  assumes "life_step a s s'" "life_ok me q pr gr s" "pl_local_quadrant s' \<noteq> pl_local_quadrant s"
  shows "gr = MEMBER \<and> pl_local_quadrant s' = pl_external_quadrant s \<and> pl_joins s' = Suc (pl_joins s)"
  using assms
proof (induction rule: life_step.induct)
  case (changer_tells s t)
  then have "gr = MEMBER" using external_ok_step(2) [of gr "pl_external_threads s" t] by (auto simp: life_ok_def)
  then show ?case using notified_once [OF changer_tells(3)] by simp
qed simp_all

text \<open>
  C23. The life of a gateway, in every state its threads can reach.  While an interface is there, every frame of the protocol's
  number that it takes in is handed to the protocol exactly once and frames of other numbers are not.  Until
  the interfaces are destroyed their threads run, the quadrant changer exactly in members; initialising
  again terminates the process.  The timer runs exactly in slaves and the monitor exactly in leaders, and
  neither is told to stop, nor comes to the end of its loop, at any time before the destructor of the protocol.
  A leader stays in its quadrant; in a member both interfaces are in the same one, except
  between the changer's draw and its notification, which takes the new quadrant over and sends one request to
  join.  The destructor of the protocol comes after those of the interfaces and detaches from objects that are gone.
\<close>

theorem gateway_protocol_lifecycle:
  assumes "init_gateway_life junk key clock me q pr gr (protocol_new lq xq True) = Inr s0" "rtranclp (life_step a) s0 s"
  shows "(targets (pl_local_observers s) n = (if n = ETHERNET_PROTOCOL_NUMBER then [me] else []) \<and>
     targets (pl_external_observers s) n = (if n = ETHERNET_PROTOCOL_NUMBER then [me] else [])) \<and>
    (pl_external_alive s \<longrightarrow> nt_receiver (pl_local_threads s) \<notin> {RX_none, RX_end} \<and>
       init_gateway_life junk' key' clock' me q' pr' gr' s = Inl Terminated) \<and>
    (nt_owner (pl_external_threads s) = D_alive \<longrightarrow> nt_signal (pl_external_threads s) \<notin> {S_none, S_end} \<and>
       (nt_quadrant (pl_external_threads s) \<notin> {Q_none, Q_end} \<longleftrightarrow> gr = MEMBER)) \<and>
    (case pl_timer s of None \<Rightarrow> pr = PTP_MASTER | Some t \<Rightarrow> pr = PTP_SLAVE \<and> pt_running t \<and> pt_pc t \<noteq> T_end) \<and>
    (case pl_monitor s of None \<Rightarrow> gr = MEMBER | Some m \<Rightarrow> gr = LEADER \<and> mon_running m \<and> mon_pc m \<noteq> M_done) \<and>
    (gr = LEADER \<longrightarrow> pl_local_quadrant s = q \<and> pl_external_quadrant s = q) \<and>
    (nt_quadrant (pl_external_threads s) \<noteq> Q_move \<longrightarrow> pl_local_quadrant s = pl_external_quadrant s) \<and>
    (\<forall>s'. life_step a s s' \<and> pl_local_quadrant s' \<noteq> pl_local_quadrant s \<longrightarrow>
       gr = MEMBER \<and> pl_local_quadrant s' = pl_external_quadrant s \<and> pl_joins s' = Suc (pl_joins s)) \<and>
    (\<not> pl_local_alive s \<longrightarrow> \<not> pl_external_alive s \<and> protocol_delete me s = None)"
proof -
  have ok: "life_ok me q pr gr s"
    using init_gateway_life_new [of junk key clock me q pr gr lq xq] life_ok_reached [OF assms(2)] assms(1) by auto
  note O = ok [unfolded life_ok_def]
  have "targets (pl_local_observers s) n = (if n = ETHERNET_PROTOCOL_NUMBER then [me] else [])"
    "targets (pl_external_observers s) n = (if n = ETHERNET_PROTOCOL_NUMBER then [me] else [])"
    using O by (simp_all add: targets_singleton)
  moreover have run: "nt_receiver (pl_local_threads s) \<notin> {RX_none, RX_end}" if "pl_external_alive s"
    using O that by (simp add: local_ok_def)
  moreover have "init_gateway_life junk' key' clock' me q' pr' gr' s = Inl Terminated" if "pl_external_alive s"
    using run [OF that] by (simp add: init_gateway_life_def start_nic_def Let_def)
  moreover have "nt_signal (pl_external_threads s) \<notin> {S_none, S_end} \<and> (nt_quadrant (pl_external_threads s) \<notin> {Q_none, Q_end} \<longleftrightarrow> gr = MEMBER)"
    if "nt_owner (pl_external_threads s) = D_alive"
    using O that by (cases gr) (auto simp: external_ok_def)
  moreover have "case pl_timer s of None \<Rightarrow> pr = PTP_MASTER | Some t \<Rightarrow> pr = PTP_SLAVE \<and> pt_running t \<and> pt_pc t \<noteq> T_end"
    using O by (auto simp: timer_ok_def split: option.splits)
  moreover have "case pl_monitor s of None \<Rightarrow> gr = MEMBER | Some m \<Rightarrow> gr = LEADER \<and> mon_running m \<and> mon_pc m \<noteq> M_done"
    using O by (auto simp: monitor_ok_def split: option.splits)
  moreover have "gr = LEADER \<longrightarrow> pl_local_quadrant s = q \<and> pl_external_quadrant s = q"
    "nt_quadrant (pl_external_threads s) \<noteq> Q_move \<longrightarrow> pl_local_quadrant s = pl_external_quadrant s"
    using O by (auto simp: quadrants_ok_def split: if_splits)
  moreover have "\<not> pl_local_alive s \<longrightarrow> \<not> pl_external_alive s \<and> protocol_delete me s = None"
    using O by (auto simp: protocol_delete_def)
  ultimately show ?thesis using local_quadrant_step [OF _ ok] by blast
qed


text \<open>The destructors of both interfaces of a roadside unit can be done in ten steps of its threads.\<close>

lemma external_interface_goes:
  assumes "pl_external_threads s = init_nic True True nic_constructed"
  shows "\<exists>t. rtranclp (life_step a) s (s\<lparr>pl_external_threads := t, pl_external_alive := False\<rparr>)"
proof -
  let ?own = "\<lambda>t. s\<lparr>pl_external_threads := t\<rparr>"
  let ?x1 = "(init_nic True True nic_constructed)\<lparr>nt_running := False, nt_owner := D_cleared\<rparr>"
  let ?x2 = "?x1\<lparr>nt_pending := True, nt_owner := D_killed\<rparr>"
  let ?x3 = "?x2\<lparr>nt_signal := (if nt_running ?x2 then S_wait else S_end)\<rparr>"
  let ?x4 = "?x3\<lparr>nt_owner := D_signal_joined\<rparr>"
  let ?x5 = "?x4\<lparr>nt_owner := D_done\<rparr>"
  have x: "owner_step True (init_nic True True nic_constructed) ?x1" "owner_step True ?x1 ?x2" "signal_step ?x2 ?x3"
    "owner_step True ?x3 ?x4" "owner_step True ?x4 ?x5"
    by (rule owner_step.clear owner_step.kill signal_step.signal_check owner_step.join_signal owner_step.join_quadrant;
      simp add: init_nic_def nic_constructed_def)+
  have "life_step a s (?own ?x1)" using life_step.external_dies [of s ?x1 a] x(1) assms by simp
  moreover have "life_step a (?own ?x1) (?own ?x2)" using life_step.external_dies [of "?own ?x1" ?x2 a] x(2) by simp
  moreover have "life_step a (?own ?x2) (?own ?x3)" using life_step.external_thread [of "?own ?x2" ?x3 a] x(3) by simp
  moreover have "life_step a (?own ?x3) (?own ?x4)" using life_step.external_dies [of "?own ?x3" ?x4 a] x(4) by simp
  moreover have "life_step a (?own ?x4) (?own ?x5)" using life_step.external_dies [of "?own ?x4" ?x5 a] x(5) by simp
  moreover have "life_step a (?own ?x5) ((?own ?x5)\<lparr>pl_external_alive := False\<rparr>)" by (rule life_step.external_gone) simp
  ultimately have "rtranclp (life_step a) s ((?own ?x5)\<lparr>pl_external_alive := False\<rparr>)"
    by (meson converse_rtranclp_into_rtranclp rtranclp.rtrancl_refl)
  then show ?thesis by blast
qed

lemma local_interface_goes:
  assumes "pl_local_threads s = init_nic False False nic_constructed" "\<not> pl_external_alive s"
  shows "\<exists>t. rtranclp (life_step a) s (s\<lparr>pl_local_threads := t, pl_local_alive := False\<rparr>)"
proof -
  let ?own = "\<lambda>t. s\<lparr>pl_local_threads := t\<rparr>"
  let ?x1 = "(init_nic False False nic_constructed)\<lparr>nt_running := False, nt_owner := D_cleared\<rparr>"
  let ?x2 = "?x1\<lparr>nt_receiver := (if nt_running ?x1 then RX_wait else RX_end)\<rparr>"
  let ?x3 = "?x2\<lparr>nt_owner := D_done\<rparr>"
  have x: "owner_step False (init_nic False False nic_constructed) ?x1" "receiver_step ?x1 ?x2" "owner_step False ?x2 ?x3"
    by (rule owner_step.clear receiver_step.receiver_check owner_step.join_receiver; simp add: init_nic_def nic_constructed_def)+
  have "life_step a s (?own ?x1)" using life_step.local_dies [of s ?x1 a] x(1) assms by simp
  moreover have "life_step a (?own ?x1) (?own ?x2)" using life_step.local_thread [of "?own ?x1" ?x2 a] x(2) by simp
  moreover have "life_step a (?own ?x2) (?own ?x3)" using life_step.local_dies [of "?own ?x2" ?x3 a] x(3) assms by simp
  moreover have "life_step a (?own ?x3) ((?own ?x3)\<lparr>pl_local_alive := False\<rparr>)" by (rule life_step.local_gone) (simp_all add: assms)
  ultimately have "rtranclp (life_step a) s ((?own ?x3)\<lparr>pl_local_alive := False\<rparr>)"
    by (meson converse_rtranclp_into_rtranclp rtranclp.rtrancl_refl)
  then show ?thesis by blast
qed

theorem gateway_protocol_lifecycle_witness:
  "\<exists>s0 s. init_gateway_life 0 7 5 ''protocol'' EAST PTP_MASTER LEADER (protocol_new NORTH NORTH True) = Inr s0 \<and>
     rtranclp (life_step (local 0)) s0 s \<and> targets (pl_external_observers s0) ETHERNET_PROTOCOL_NUMBER = [''protocol''] \<and>
     \<not> pl_local_alive s \<and> protocol_delete ''protocol'' s = None \<and> (\<exists>m. pl_monitor s = Some m \<and> mon_running m)"
proof -
  obtain s0 where s0: "init_gateway_life 0 7 5 ''protocol'' EAST PTP_MASTER LEADER (protocol_new NORTH NORTH True) = Inr s0"
    using init_gateway_life_new [of 0 7 5 "''protocol''" EAST PTP_MASTER LEADER] by blast
  then have "pl_external_threads s0 = init_nic True True nic_constructed" "pl_local_threads s0 = init_nic False False nic_constructed"
    by (auto simp: init_gateway_life_def init_group_life_def init_clock_life_def group_handler_new_def start_nic_def
      protocol_new_def nic_constructed_def update_quadrant_life_def location_changed_def Let_def)
  then have threads: "pl_external_threads s0 = init_nic True True nic_constructed"
    "pl_local_threads (s0\<lparr>pl_external_threads := t, pl_external_alive := False\<rparr>) = init_nic False False nic_constructed" for t
    by simp_all
  obtain t where one: "rtranclp (life_step (local 0)) s0 (s0\<lparr>pl_external_threads := t, pl_external_alive := False\<rparr>)"
    using external_interface_goes [OF threads(1)] by blast
  obtain u where two: "rtranclp (life_step (local 0)) (s0\<lparr>pl_external_threads := t, pl_external_alive := False\<rparr>)
       ((s0\<lparr>pl_external_threads := t, pl_external_alive := False\<rparr>)\<lparr>pl_local_threads := u, pl_local_alive := False\<rparr>)"
    using local_interface_goes [OF threads(2)] by auto
  let ?s = "(s0\<lparr>pl_external_threads := t, pl_external_alive := False\<rparr>)\<lparr>pl_local_threads := u, pl_local_alive := False\<rparr>"
  have to: "rtranclp (life_step (local 0)) s0 ?s" using one two by (rule rtranclp_trans)
  note start = gateway_protocol_lifecycle [OF s0 rtranclp.rtrancl_refl, where n = ETHERNET_PROTOCOL_NUMBER]
  note exit = gateway_protocol_lifecycle [OF s0 to, where n = 0]
  have "targets (pl_external_observers s0) ETHERNET_PROTOCOL_NUMBER = [''protocol'']" using start by simp
  moreover have "protocol_delete ''protocol'' ?s = None" using exit by simp
  moreover have "\<exists>m. pl_monitor ?s = Some m \<and> mon_running m" using exit by (cases "pl_monitor s0") simp_all
  ultimately show ?thesis using s0 to by (intro exI [of _ s0] exI [of _ ?s]) simp
qed

text \<open>A process with several components initialises its protocol once, on the interface of the first.\<close>

lemma init_component_once:
  assumes "init_component_life me s = Inr s'"
  shows "pl_local_ptr s' \<and> init_component_life me s' = Inr s'"
  using assms by (auto simp: init_component_life_def split: if_splits sum.splits)

end
