(* ===== verification/Vehicle_Apps.thy ===== *)
theory Vehicle_Apps
  imports Teds_Service
begin

text \<open>
  The two programs: \<^verbatim>\<open>start_car.cpp\<close> (a member gateway and \<open>N\<close> components) and
  \<^verbatim>\<open>start_roadside_unit.cpp\<close> (a leader gateway), as the list of processes they spawn and the exit
  code.  Arguments are the integers \<^verbatim>\<open>atoi\<close> makes of them; the outcomes of \<^verbatim>\<open>pthread_sigmask\<close>,
  \<^verbatim>\<open>bootstrapIPC\<close> and each \<^verbatim>\<open>fork\<close> are parameters, as is the random start offset.
\<close>

datatype process =
    Gateway_process ptp_role group_role quadrant
  | Component_process string transducer_type teds_type period

primrec quadrant_of :: "nat \<Rightarrow> quadrant" where
  "quadrant_of 0 = NORTH"
| "quadrant_of (Suc n) = (if n = 0 then EAST else if n = 1 then SOUTH else WEST)"

fun to_string :: "nat \<Rightarrow> string" where
  "to_string n = (if n < 10 then [char_of (48 + n)] else to_string (n div 10) @ [char_of (48 + n mod 10)])"

declare to_string.simps [simp del]

section \<open>Vehicle\<close>

definition component_plan :: "nat \<Rightarrow> nat \<Rightarrow> process" where
  "component_plan offset i =
     (let tt = (if (i + offset) mod 2 = 0 then SENSOR else ACTUATOR);
          kind = (if tt = SENSOR then ''Sensor '' else ''Actuator '')
      in if i mod 3 = 0 then Component_process (''Temperature '' @ kind @ to_string i) tt TEMPERATURE 2000
         else if i mod 3 = 1 then Component_process (''Pressure '' @ kind @ to_string i) tt PRESSURE 3000
         else Component_process (''Density '' @ kind @ to_string i) tt DENSITY 4000)"

text \<open>The loop over the components; a failing \<^verbatim>\<open>fork\<close> ends the parent, the children spawned so far live on.\<close>

fun spawn_components :: "nat \<Rightarrow> nat list \<Rightarrow> bool list \<Rightarrow> process list \<times> nat" where
  "spawn_components offset [] forks = ([], 0)"
| "spawn_components offset (i # is) [] = ([], 1)"
| "spawn_components offset (i # is) (ok # forks) =
     (if ok then (case spawn_components offset is forks of (ps, code) \<Rightarrow> (component_plan offset i # ps, code)) else ([], 1))"

definition start_car ::
  "nat \<Rightarrow> int \<Rightarrow> int \<Rightarrow> bool \<Rightarrow> bool \<Rightarrow> bool \<Rightarrow> nat \<Rightarrow> bool list \<Rightarrow> process list \<times> nat" where
  "start_car argc N quadrant_num mask_ok ipc_ok gateway_fork offset forks =
     (if argc < 4 then ([], 1)
      else if N \<le> 0 then ([], 1)
      else if quadrant_num < 0 \<or> quadrant_num > 3 then ([], 1)
      else if \<not> mask_ok then ([], 1)
      else if \<not> ipc_ok then ([], 1)
      else if \<not> gateway_fork then ([], 1)
      else (case spawn_components offset [0..<nat N] forks of
          (ps, code) \<Rightarrow> (Gateway_process PTP_SLAVE MEMBER (quadrant_of (nat quadrant_num)) # ps, code)))"

section \<open>Roadside unit\<close>

definition start_roadside_unit :: "nat \<Rightarrow> int \<Rightarrow> bool \<Rightarrow> bool \<Rightarrow> bool \<Rightarrow> process list \<times> nat" where
  "start_roadside_unit argc quadrant_num mask_ok ipc_ok gateway_fork =
     (if argc < 2 then ([], 1)
      else if quadrant_num < 0 \<or> quadrant_num > 3 then ([], 1)
      else if \<not> mask_ok then ([], 1)
      else if \<not> ipc_ok then ([], 1)
      else if \<not> gateway_fork then ([], 1)
      else ([Gateway_process PTP_MASTER LEADER (quadrant_of (nat quadrant_num))], 0))"

section \<open>Gateway\<close>

definition gateway_start ::
  "u64 \<Rightarrow> u64 \<Rightarrow> u64 \<Rightarrow> ptp_role \<Rightarrow> group_role \<Rightarrow> quadrant \<Rightarrow> ext_nic \<Rightarrow> 'o protocol \<Rightarrow> ('o protocol \<times> 'o effect) option" where
  "gateway_start now junk key pr gr q x p = init_gateway now junk key q pr gr x p"

section \<open>What a vehicle is made of\<close>

lemma spawn_all: "spawn_components offset is (replicate (length is) True) = (map (component_plan offset) is, 0)"
  by (induction "is") simp_all

text \<open>
  A vehicle with at least six components has, whatever the random offset, a sensor and an actuator
  for each of its three units; its gateway is a synchronisation slave and group member in the given
  quadrant, and it is the first process.
\<close>

theorem vehicle_covers_units:
  assumes "6 \<le> N" "0 \<le> q" "q \<le> 3" "u \<in> {TEMPERATURE, PRESSURE, DENSITY}"
  shows "\<exists>ps. start_car 4 N q True True True offset (replicate (nat N) True) =
      (Gateway_process PTP_SLAVE MEMBER (quadrant_of (nat q)) # ps, 0) \<and> length ps = nat N \<and>
    (\<exists>name interval. Component_process name SENSOR u interval \<in> set ps) \<and>
    (\<exists>name interval. Component_process name ACTUATOR u interval \<in> set ps)"
proof -
  let ?ps = "map (component_plan offset) [0..<nat N]"
  have start: "start_car 4 N q True True True offset (replicate (nat N) True) =
      (Gateway_process PTP_SLAVE MEMBER (quadrant_of (nat q)) # ?ps, 0)"
    using assms(1-3) spawn_all [of offset "[0..<nat N]"] by (simp add: start_car_def)
  have plan: "component_plan offset i \<in> set ?ps" if "i < 6" for i
    using that assms(1) by auto
  have kind: "\<exists>name interval. component_plan offset i
      = Component_process name (if (i + offset) mod 2 = 0 then SENSOR else ACTUATOR)
          (if i mod 3 = 0 then TEMPERATURE else if i mod 3 = 1 then PRESSURE else DENSITY) interval" for i
    by (auto simp: component_plan_def Let_def)
  let ?unit = "\<lambda>i :: nat. if i mod 3 = 0 then TEMPERATURE else if i mod 3 = 1 then PRESSURE else (DENSITY :: teds_type)"
  obtain j where j: "j < 3" "u = ?unit j"
  proof -
    have "?unit 0 = TEMPERATURE" "?unit 1 = PRESSURE" "?unit 2 = DENSITY" by simp_all
    then show ?thesis using assms(4) that [of 0] that [of 1] that [of 2] by auto
  qed
  have u: "u = ?unit (j + 3)" using j(2) by simp
  have par: "(j + offset) mod 2 = 0 \<longleftrightarrow> (j + 3 + offset) mod 2 \<noteq> 0" by presburger
  obtain a b where ab: "a < 6" "u = ?unit a" "(a + offset) mod 2 = 0" "b < 6" "u = ?unit b" "(b + offset) mod 2 \<noteq> 0"
  proof (cases "(j + offset) mod 2 = 0")
    case True
    then show ?thesis using that [of j "j + 3"] j u par by simp
  next
    case False
    then show ?thesis using that [of "j + 3" j] j u par by simp
  qed
  have s: "\<exists>name interval. Component_process name SENSOR u interval \<in> set ?ps"
    using kind [of a] plan [OF ab(1)] ab(2,3) by fastforce
  have "\<exists>name interval. Component_process name ACTUATOR u interval \<in> set ?ps"
    using kind [of b] plan [OF ab(4)] ab(5,6) by fastforce
  then show ?thesis using start s by (intro exI [of _ ?ps]) simp
qed

theorem vehicle_covers_units_witness:
  "\<exists>ps. start_car 4 7 2 True True True 1 (replicate 7 True) = (Gateway_process PTP_SLAVE MEMBER SOUTH # ps, 0) \<and>
     (\<exists>name interval. Component_process name SENSOR DENSITY interval \<in> set ps)"
  using vehicle_covers_units [of 7 2 DENSITY 1] by (auto simp: numeral_2_eq_2)

end
