(* ===== verification/Text_Output.thy ===== *)
theory Text_Output
  imports Vehicle_Apps
begin

text \<open>
  What the programs write: the formatting state of an output stream, hardware addresses
  (\<^verbatim>\<open>ethernet.hpp\<close>), frames (\<^verbatim>\<open>protocol_utils.cpp\<close>), bits (\<^verbatim>\<open>communicator.hpp\<close>, \<^verbatim>\<open>teds_handler.hpp\<close>), latency packets
  (\<^verbatim>\<open>latency_test.hpp\<close>), the time of day (\<^verbatim>\<open>clock.hpp\<close>), log files (\<^verbatim>\<open>logger.cpp\<close>) and the profiler
  (\<^verbatim>\<open>profiler.cpp\<close>).  Calendar times come from the C library, a parameter.
\<close>

section \<open>Output streams\<close>

text \<open>
  A stream pads on the left to the width, which every output resets; base and fill character stay.
\<close>

record ostream =
  so_text :: string
  so_hex :: bool
  so_fill :: char
  so_width :: nat

definition fresh_stream :: ostream where
  "fresh_stream = \<lparr>so_text = [], so_hex = False, so_fill = CHR '' '', so_width = 0\<rparr>"

definition put :: "string \<Rightarrow> ostream \<Rightarrow> ostream" where
  "put s os = os\<lparr>so_text := so_text os @ replicate (so_width os - length s) (so_fill os) @ s, so_width := 0\<rparr>"

definition setw :: "nat \<Rightarrow> ostream \<Rightarrow> ostream" where "setw n os = os\<lparr>so_width := n\<rparr>"

definition setfill :: "char \<Rightarrow> ostream \<Rightarrow> ostream" where "setfill c os = os\<lparr>so_fill := c\<rparr>"

definition set_hex :: "bool \<Rightarrow> ostream \<Rightarrow> ostream" where "set_hex h os = os\<lparr>so_hex := h\<rparr>"

definition hex_digit :: "nat \<Rightarrow> char" where
  "hex_digit n = (if n < 10 then char_of (48 + n) else char_of (87 + n))"

fun to_hex :: "nat \<Rightarrow> string" where
  "to_hex n = (if n < 16 then [hex_digit n] else to_hex (n div 16) @ [hex_digit (n mod 16)])"

declare to_hex.simps [simp del]

definition put_nat :: "nat \<Rightarrow> ostream \<Rightarrow> ostream" where
  "put_nat n os = put (if so_hex os then to_hex n else to_string n) os"

definition int_string :: "int \<Rightarrow> string" where
  "int_string i = (if i < 0 then ''-'' @ to_string (nat (- i)) else to_string (nat i))"

definition newline :: string where "newline = [char_of (10 :: nat)]"

lemmas stream_simps = put_def setw_def setfill_def set_hex_def put_nat_def

section \<open>Hardware addresses\<close>

primrec put_mac_bytes :: "bytes \<Rightarrow> ostream \<Rightarrow> ostream" where
  "put_mac_bytes [] os = os"
| "put_mac_bytes (b # bs) os = put_mac_bytes bs
     ((if bs \<noteq> [] then put '':'' else id) (put_nat (unat b) (setw 2 os)))"

definition put_mac :: "mac \<Rightarrow> ostream \<Rightarrow> ostream" where
  "put_mac m os = set_hex False (put_mac_bytes (mac_bytes m) (setfill (CHR ''0'') (set_hex True os)))"

definition put_address :: "address \<Rightarrow> ostream \<Rightarrow> ostream" where
  "put_address a os = put_nat (unat (port a)) (put '' : '' (put_mac (paddr a) os))"

text \<open>The text of an address, and reading it back.\<close>

definition two_hex :: "byte \<Rightarrow> string" where
  "two_hex b = [hex_digit (unat b div 16), hex_digit (unat b mod 16)]"

definition mac_text :: "mac \<Rightarrow> string" where
  "mac_text m = (case m of MAC a b c d e f \<Rightarrow> two_hex a @ CHR '':'' # two_hex b @ CHR '':'' # two_hex c @ CHR '':'' #
     two_hex d @ CHR '':'' # two_hex e @ CHR '':'' # two_hex f)"

definition hex_value :: "char \<Rightarrow> nat option" where
  "hex_value c = (let n = of_char c in if 48 \<le> n \<and> n < 58 then Some (n - 48) else if 97 \<le> n \<and> n < 103 then Some (n - 87) else None)"

definition byte_of_hex :: "char \<Rightarrow> char \<Rightarrow> byte option" where
  "byte_of_hex h l = (case (hex_value h, hex_value l) of (Some x, Some y) \<Rightarrow> Some (of_nat (16 * x + y)) | _ \<Rightarrow> None)"

fun parse_mac_bytes :: "string \<Rightarrow> bytes option" where
  "parse_mac_bytes [h, l] = map_option (\<lambda>b. [b]) (byte_of_hex h l)"
| "parse_mac_bytes (h # l # s # rest) = (if s \<noteq> CHR '':'' then None else
     case (byte_of_hex h l, parse_mac_bytes rest) of (Some b, Some bs) \<Rightarrow> Some (b # bs) | _ \<Rightarrow> None)"
| "parse_mac_bytes _ = None"

definition parse_mac :: "string \<Rightarrow> mac option" where
  "parse_mac s = (case parse_mac_bytes s of Some [a, b, c, d, e, f] \<Rightarrow> Some (MAC a b c d e f) | _ \<Rightarrow> None)"

lemma hex_value_digit: "n < 16 \<Longrightarrow> hex_value (hex_digit n) = Some n"
  by (auto simp: hex_value_def hex_digit_def Let_def)

lemma byte_of_two_hex: "byte_of_hex (hex_digit (unat b div 16)) (hex_digit (unat b mod 16)) = Some (b :: byte)"
proof -
  have "unat b < 2 ^ LENGTH(8)" by (rule unsigned_less)
  then have "unat b div 16 < 16" by (simp add: less_mult_imp_div_less)
  moreover have "16 * (unat b div 16) + unat b mod 16 = unat b" by simp
  ultimately show ?thesis by (simp add: byte_of_hex_def hex_value_digit)
qed

lemma parse_mac_text: "parse_mac (mac_text m) = Some m"
  by (cases m) (simp add: parse_mac_def mac_text_def two_hex_def byte_of_two_hex)

lemma padded_hex:
  fixes b :: byte
  shows "replicate (2 - length (to_hex (unat b))) (CHR ''0'') @ to_hex (unat b) = two_hex b"
proof (cases "unat b < 16")
  case True
  have "CHR ''0'' = hex_digit 0" by code_simp
  then show ?thesis using True by (simp add: to_hex.simps [of "unat b"] two_hex_def)
next
  case False
  have "unat b < 2 ^ LENGTH(8)" by (rule unsigned_less)
  then have "unat b div 16 < 16" by (simp add: less_mult_imp_div_less)
  then show ?thesis using False by (simp add: to_hex.simps [of "unat b"] to_hex.simps [of "unat b div 16"] two_hex_def)
qed

lemma put_wide_byte:
  "so_hex os \<Longrightarrow> so_fill os = CHR ''0'' \<Longrightarrow> so_width os = 2 \<Longrightarrow>
   put_nat (unat (b :: byte)) os = os\<lparr>so_text := so_text os @ two_hex b, so_width := 0\<rparr>"
  using padded_hex [of b] by (simp add: put_nat_def put_def)

lemma put_byte:
  "so_hex os \<Longrightarrow> so_fill os = CHR ''0'' \<Longrightarrow>
   put_nat (unat (b :: byte)) (setw 2 os) = os\<lparr>so_text := so_text os @ two_hex b, so_width := 0\<rparr>"
  by (simp add: setw_def put_wide_byte)

text \<open>
  A printed hardware address can be read back: whatever the state of the stream, \<^verbatim>\<open>operator<<\<close> writes
  six two-digit lower-case hexadecimal numbers with colons between them, from which the address is
  recovered, so that no two addresses print alike.  The base is decimal afterwards, but the fill
  character stays a zero.
\<close>

theorem printed_mac_roundtrip:
  "put_mac m os = os\<lparr>so_text := so_text os @ mac_text m, so_hex := False, so_fill := CHR ''0'', so_width := 0\<rparr> \<and>
   length (mac_text m) = 17 \<and> parse_mac (mac_text m) = Some m"
proof (cases m)
  case (MAC a b c d e f)
  have "put_mac m os = os\<lparr>so_text := so_text os @ mac_text m, so_hex := False, so_fill := CHR ''0'', so_width := 0\<rparr>"
    by (simp add: put_mac_def MAC put_byte mac_text_def) (simp add: put_byte stream_simps(1,3,4))
  then show ?thesis using parse_mac_text [of m] by (simp add: MAC mac_text_def two_hex_def)
qed

text \<open>After the hardware address the port is printed in decimal.\<close>

lemma put_address_text:
  "so_text (put_address a os) = so_text os @ mac_text (paddr a) @ '' : '' @ to_string (unat (port a))"
  using printed_mac_roundtrip [of "paddr a" os] by (simp add: put_address_def stream_simps)

definition sample_stream :: ostream where
  "sample_stream = put_mac (MAC 2 0 0 0 0xAB 1) fresh_stream"

lemma sample_stream_text: "so_text sample_stream = ''02:00:00:00:ab:01''"
  by code_simp

section \<open>Frames, bits and packets\<close>

definition endl :: "ostream \<Rightarrow> ostream" where "endl os = os\<lparr>so_text := so_text os @ newline\<rparr>"

text \<open>\<^verbatim>\<open>printf\<close> writes to the same output and knows nothing of the state of the stream.\<close>

definition put_raw :: "string \<Rightarrow> ostream \<Rightarrow> ostream" where "put_raw s os = os\<lparr>so_text := so_text os @ s\<rparr>"

definition write_all :: "(ostream \<Rightarrow> ostream) list \<Rightarrow> ostream \<Rightarrow> ostream" where
  "write_all ops os = fold (\<lambda>op. op) ops os"

definition log_receiving :: "frame option \<Rightarrow> ostream \<Rightarrow> ostream" where
  "log_receiving buf = (case buf of None \<Rightarrow> id | Some f \<Rightarrow> write_all
     [put ''--------- Protocol Frame Received ---------'', endl,
      put '' data_len='', put_nat (unat (data_length f)), put '' source port='', put_nat (unat (sport (fr_data f))),
      put '' destination port='', put_nat (unat (dport (fr_data f))), endl])"

definition debug_buffer :: "frame option \<Rightarrow> ostream \<Rightarrow> ostream" where
  "debug_buffer buf = (case buf of None \<Rightarrow> id | Some f \<Rightarrow> write_all
     [put ''[Protocol] Receiving frame: data_len='', put_nat (unat (data_length f)), put '' sport='',
      put_nat (unat (sport (fr_data f))), put '' dport='', put_nat (unat (dport (fr_data f))), endl,
      put ''[Protocol] SMAC='', put_raw (mac_text (shost (fr_header f))), put '' DMAC='', put_raw (mac_text (dhost (fr_header f))), endl])"

definition debug_frame :: "frame \<Rightarrow> ostream \<Rightarrow> ostream" where
  "debug_frame f = (let n = min 16 (unat (data_length f)) in write_all (
     [put ''--- Ethernet Frame Debug ---'', endl,
      put ''  Destination MAC: '', put_mac (dhost (fr_header f)), endl,
      put ''  Source MAC:      '', put_mac (shost (fr_header f)), endl,
      put ''  EtherType:       0x'', set_hex True, setw 4, setfill (CHR ''0''), put_nat (unat (htons (eth_type (fr_header f)))),
      set_hex False, endl,
      put ''  Data Length:     '', put_nat (unat (data_length f)), put '' bytes'', endl] @
     (if n > 0 then put ''  Payload Sample:  '' #
        concat (map (\<lambda>i. [set_hex True, setw 2, setfill (CHR ''0''), put_nat (unat (fr_data f ! i)), put '' '']) [0..<n]) @
        [set_hex False, endl] else []) @
     [put ''----------------------------'', endl]))"

definition bits_text :: "byte \<Rightarrow> string" where
  "bits_text b = map (\<lambda>i. if bit b i then CHR ''1'' else CHR ''0'') (rev [0..<8])"

definition print_bits_vector :: "string \<Rightarrow> bytes \<Rightarrow> ostream \<Rightarrow> ostream" where
  "print_bits_vector lbl bs = write_all ((if lbl \<noteq> [] then [put lbl, put '' ''] else []) @
     (if bs = [] then [put ''[EMPTY]'', endl] else concat (map (\<lambda>b. [put (bits_text b), put '' '']) bs) @ [endl]))"

text \<open>The template for any value prints its object representation.\<close>

definition print_bits_value :: "string \<Rightarrow> bytes \<Rightarrow> ostream \<Rightarrow> ostream" where
  "print_bits_value lbl rep = write_all ((if lbl \<noteq> [] then [put lbl, put '' ''] else []) @
     concat (map (\<lambda>b. [put (bits_text b), put '' '']) rep) @ [endl])"

primrec latency_type_string :: "latency_type \<Rightarrow> string" where
  "latency_type_string PING = ''PING''"
| "latency_type_string ECHO = ''ECHO''"
| "latency_type_string LATENCY_UNDEFINED = ''UNDEFINED''"

definition put_latency_packet :: "latency_type \<Rightarrow> u64 \<Rightarrow> u64 \<Rightarrow> ostream \<Rightarrow> ostream" where
  "put_latency_packet t sid ts = write_all
     [put ''[Type]: '', put (latency_type_string t), put newline, put ''[Sender ID]: '', put_nat (unat sid), put newline,
      put ''[Timestamp]: '', put_nat (unat ts), put '' ns'', endl]"

lemma write_all_simps [simp]: "write_all [] os = os" "write_all (op # ops) os = write_all ops (op os)"
  by (simp_all add: write_all_def)

lemma write_all_append: "write_all (a @ b) os = write_all b (write_all a os)"
  by (simp add: write_all_def)

lemma put_text [simp]:
  "so_width os = 0 \<Longrightarrow> put s os = os\<lparr>so_text := so_text os @ s\<rparr>"
  by (simp add: put_def)

text \<open>The payload sample of \<^verbatim>\<open>debug_frame\<close>: the first sixteen bytes, or all of a shorter frame.\<close>

lemma write_all_sample:
  "so_width os = 0 \<Longrightarrow>
   write_all (concat (map (\<lambda>i. [set_hex True, setw 2, setfill (CHR ''0''), put_nat (unat (d ! i)), put '' '']) is)) os =
     os\<lparr>so_text := so_text os @ concat (map (\<lambda>i. two_hex (d ! i) @ '' '') is),
        so_hex := (so_hex os \<or> is \<noteq> []), so_fill := (if is = [] then so_fill os else CHR ''0'')\<rparr>"
  for d :: bytes
proof (induction "is" arbitrary: os)
  case (Cons i js)
  let ?os = "setfill (CHR ''0'') (setw 2 (set_hex True os))"
  have "put_nat (unat (d ! i)) ?os = ?os\<lparr>so_text := so_text os @ two_hex (d ! i), so_width := 0\<rparr>"
    by (subst put_wide_byte) (simp_all add: setfill_def setw_def set_hex_def)
  then show ?case using Cons by (simp add: write_all_append setfill_def setw_def set_hex_def)
qed simp

theorem debug_frame_shows_sample:
  assumes "so_width os = 0" "0 < unat (data_length f)"
  shows "\<exists>front. so_text (debug_frame f os) = front @ ''  Payload Sample:  '' @
    concat (map (\<lambda>i. two_hex (fr_data f ! i) @ '' '') [0..<min 16 (unat (data_length f))]) @ newline @
    ''----------------------------'' @ newline"
proof -
  let ?ops = "[put ''--- Ethernet Frame Debug ---'', endl,
      put ''  Destination MAC: '', put_mac (dhost (fr_header f)), endl,
      put ''  Source MAC:      '', put_mac (shost (fr_header f)), endl,
      put ''  EtherType:       0x'', set_hex True, setw 4, setfill (CHR ''0''), put_nat (unat (htons (eth_type (fr_header f)))),
      set_hex False, endl,
      put ''  Data Length:     '', put_nat (unat (data_length f)), put '' bytes'', endl]"
  define os1 where "os1 = write_all ?ops os"
  have w: "so_width os1 = 0" by (simp add: os1_def endl_def) (simp add: put_def)
  let ?n = "min 16 (unat (data_length f))"
  have "debug_frame f os = write_all (put ''  Payload Sample:  '' #
      concat (map (\<lambda>i. [set_hex True, setw 2, setfill (CHR ''0''), put_nat (unat (fr_data f ! i)), put '' '']) [0..<?n]) @
      [set_hex False, endl, put ''----------------------------'', endl]) os1"
    using assms(2) unfolding debug_frame_def Let_def os1_def write_all_append [symmetric] by (simp del: upt_Suc write_all_simps)
  then show ?thesis using w
    by (intro exI [of _ "so_text os1"]) (simp add: write_all_append write_all_sample endl_def set_hex_def del: upt_Suc)
qed

theorem debug_frame_shows_sample_witness:
  "\<exists>front. so_text (debug_frame (sample_frame [1, 0xAB]) fresh_stream) =
     front @ ''  Payload Sample:  01 ab '' @ newline @ ''----------------------------'' @ newline"
proof -
  have n: "unat (data_length (sample_frame [1, 0xAB])) = 2" by (simp add: sample_frame_def)
  have "concat (map (\<lambda>i. two_hex (fr_data (sample_frame [1, 0xAB]) ! i) @ '' '') [0..<2]) = ''01 ab ''" by code_simp
  then show ?thesis using debug_frame_shows_sample [of fresh_stream "sample_frame [1, 0xAB]"] n by (simp add: fresh_stream_def)
qed

section \<open>The time of day\<close>

record calendar =
  cal_year :: nat
  cal_month :: nat
  cal_day :: nat
  cal_hour :: nat
  cal_minute :: nat
  cal_second :: nat

definition two_digits :: "nat \<Rightarrow> string" where
  "two_digits n = (if n < 10 then CHR ''0'' # to_string n else to_string n)"

text \<open>\<^verbatim>\<open>put_time\<close> with the format of both functions.\<close>

definition put_time :: "calendar \<Rightarrow> string" where
  "put_time c = to_string (cal_year c) @ ''-'' @ two_digits (cal_month c) @ ''-'' @ two_digits (cal_day c) @ '' '' @
     two_digits (cal_hour c) @ '':'' @ two_digits (cal_minute c) @ '':'' @ two_digits (cal_second c)"

definition getCurrentTimeString :: "(int \<Rightarrow> calendar) \<Rightarrow> int \<Rightarrow> string" where
  "getCurrentTimeString localtime ns =
     (let fractional_ms = (ns sdiv 1000000) smod 1000
      in so_text (write_all [put (put_time (localtime (ns sdiv 1000000000))), put ''.'', setw 3, setfill (CHR ''0''),
           put (int_string fractional_ms)] fresh_stream))"

text \<open>Milliseconds become a time point in nanoseconds; beyond 64 bits this is undefined, \<open>None\<close>.\<close>

definition getFormattedTimestamp :: "(int \<Rightarrow> calendar) \<Rightarrow> u64 \<Rightarrow> string option" where
  "getFormattedTimestamp localtime timestamp_ms =
     (let ns = sint timestamp_ms * 1000000; just_ms = timestamp_ms mod 1000
      in if ns < - (2 ^ 63) \<or> 2 ^ 63 \<le> ns then None
         else Some (so_text (write_all [put (put_time (localtime (ns sdiv 1000000000))), put ''.'', setw 3, setfill (CHR ''0''),
           put_nat (unat just_ms)] fresh_stream)))"

definition three_digits :: "nat \<Rightarrow> string" where
  "three_digits n = [hex_digit (n div 100), hex_digit (n div 10 mod 10), hex_digit (n mod 10)]"

lemma to_string_simps: "to_string n = (if n < 10 then [hex_digit n] else to_string (n div 10) @ [hex_digit (n mod 10)])"
  by (simp add: to_string.simps [of n] hex_digit_def)

lemma padded_decimal:
  assumes "n < 1000"
  shows "replicate (3 - length (to_string n)) (CHR ''0'') @ to_string n = three_digits n"
proof -
  have zero: "CHR ''0'' = hex_digit 0" by code_simp
  consider "n < 10" | "10 \<le> n" "n < 100" | "100 \<le> n" by linarith
  then show ?thesis
  proof cases
    case 1
    then show ?thesis unfolding zero by (simp add: to_string_simps three_digits_def numeral_2_eq_2)
  next
    case 2
    then have "n div 10 < 10" by simp
    then show ?thesis using 2 unfolding zero
      by (simp add: to_string_simps [of n] to_string_simps [of "n div 10"] three_digits_def numeral_3_eq_3)
  next
    case 3
    have "n div 10 div 10 = n div 100" by (simp add: div_mult2_eq [symmetric])
    moreover have "n div 100 < 10" using assms by simp
    ultimately have "to_string (n div 10) = [hex_digit (n div 100), hex_digit (n div 10 mod 10)]"
      using 3 by (simp add: to_string_simps [of "n div 10"] to_string_simps [of "n div 100"])
    then have "to_string n = three_digits n" using 3 by (simp add: to_string_simps [of n] three_digits_def)
    then show ?thesis by (simp add: three_digits_def)
  qed
qed

lemma put_milliseconds:
  assumes "n < 1000"
  shows "so_text (write_all [put t, put ''.'', setw 3, setfill (CHR ''0''), put (to_string n)] fresh_stream) = t @ ''.'' @ three_digits n"
  using padded_decimal [OF assms] by (simp add: fresh_stream_def setw_def setfill_def) (simp add: put_def)

text \<open>
  The two ways to print a time agree: at any time from the epoch until the 64-bit count of
  nanoseconds ends, the current time as a string is the formatted millisecond reading of the same clock,
  namely the calendar time of the second, a point and exactly three digits for the milliseconds.
\<close>

theorem time_strings_agree:
  assumes "0 \<le> ns" "ns < 2 ^ 63"
  shows "getFormattedTimestamp localtime (word_of_int (getCurrentTimeMillis ns)) = Some (getCurrentTimeString localtime ns) \<and>
    getCurrentTimeString localtime ns = put_time (localtime (ns div 1000000000)) @ ''.'' @ three_digits (nat (ns div 1000000 mod 1000))"
proof -
  let ?ms = "ns div 1000000"
  have ms: "0 \<le> ?ms" "?ms < 2 ^ 63" "?ms * 1000000 < 2 ^ 63" "0 \<le> ?ms * 1000000" using assms by auto
  have "?ms div 1000 = ns div 1000000000" using zdiv_zmult2_eq [of 1000 ns 1000000] by simp
  then have sdiv: "ns sdiv 1000000 = ?ms" "ns sdiv 1000000000 = ns div 1000000000" "?ms smod 1000 = ?ms mod 1000"
      "(?ms * 1000000) sdiv 1000000000 = ns div 1000000000"
    using assms(1) ms(1) by (simp_all add: signed_divide_int_def signed_modulo_int_def modulo_int_def sgn_if)
  have w: "sint (word_of_int ?ms :: u64) = ?ms" using ms(1,2) by (simp add: signed_take_bit_int_eq_self sint_sbintrunc')
  have "uint (word_of_int ?ms :: u64) = ?ms" using ms(1,2) by (simp add: unsigned_of_int take_bit_int_eq_self)
  then have "unat (word_of_int ?ms :: u64) = nat ?ms" by (metis unat_eq_nat_uint)
  then have u: "unat (word_of_int ?ms mod 1000 :: u64) = nat (?ms mod 1000)" using ms(1) by (simp add: unat_mod nat_mod_distrib)
  have i: "int_string (?ms mod 1000) = to_string (nat (?ms mod 1000))" by (simp add: int_string_def)
  have n: "nat (?ms mod 1000) < 1000" by simp
  define t where "t = put_time (localtime (ns div 1000000000))"
  have shown: "so_text (write_all [put t, put ''.'', setw 3, setfill (CHR ''0''), put (to_string (nat (?ms mod 1000)))] fresh_stream) =
      t @ ''.'' @ three_digits (nat (?ms mod 1000))" by (rule put_milliseconds [OF n])
  have cur: "getCurrentTimeString localtime ns = t @ ''.'' @ three_digits (nat (?ms mod 1000))"
    unfolding getCurrentTimeString_def Let_def sdiv i using shown by (simp only: t_def)
  have stream: "put_nat k (setfill c (setw w (put x (put y fresh_stream)))) = put (to_string k) (setfill c (setw w (put x (put y fresh_stream))))"
    for k c w x y by (simp add: put_nat_def fresh_stream_def setw_def setfill_def put_def)
  have "getFormattedTimestamp localtime (word_of_int ?ms) =
      Some (so_text (write_all [put t, put ''.'', setw 3, setfill (CHR ''0''), put_nat (nat (?ms mod 1000))] fresh_stream))"
    unfolding getFormattedTimestamp_def Let_def w u sdiv t_def using ms(3,4) by (simp only: not_less [symmetric]) simp
  also have "\<dots> = Some (t @ ''.'' @ three_digits (nat (?ms mod 1000)))"
    using shown by (simp only: write_all_simps stream)
  finally have "getFormattedTimestamp localtime (word_of_int ?ms) = Some (t @ ''.'' @ three_digits (nat (?ms mod 1000)))" .
  moreover have "getCurrentTimeMillis ns = ?ms" using sdiv(1) by (simp add: getCurrentTimeMillis_def)
  ultimately show ?thesis using cur by (simp add: t_def)
qed

definition new_year :: calendar where
  "new_year = \<lparr>cal_year = 2026, cal_month = 1, cal_day = 1, cal_hour = 0, cal_minute = 0, cal_second = 7\<rparr>"

theorem time_strings_agree_witness:
  "getFormattedTimestamp (\<lambda>_. new_year) (word_of_int (getCurrentTimeMillis 1767225607045000000)) = Some ''2026-01-01 00:00:07.045''"
proof -
  have "put_time new_year @ ''.'' @ three_digits 45 = ''2026-01-01 00:00:07.045''" by code_simp
  then show ?thesis using time_strings_agree [of 1767225607045000000 "\<lambda>_. new_year"] by simp
qed

section \<open>Log files\<close>

text \<open>The files by path, and the one the logger has open.  A \<^verbatim>\<open>LogEntry\<close> logs what was put into it when it dies.\<close>

record logger =
  log_files :: "string \<Rightarrow> string"
  log_open :: "string option"

definition logger_open :: "bool \<Rightarrow> string \<Rightarrow> logger \<Rightarrow> logger" where
  "logger_open ok path s = (if ok then s\<lparr>log_files := (log_files s)(path := []), log_open := Some path\<rparr> else s\<lparr>log_open := None\<rparr>)"

definition logger_log :: "string \<Rightarrow> logger \<Rightarrow> logger" where
  "logger_log msg s = (case log_open s of None \<Rightarrow> s
     | Some p \<Rightarrow> s\<lparr>log_files := (log_files s)(p := log_files s p @ msg @ newline)\<rparr>)"

definition logger_close :: "logger \<Rightarrow> logger" where
  "logger_close s = s\<lparr>log_open := None\<rparr>"

definition log_entry :: "string list \<Rightarrow> logger \<Rightarrow> logger" where
  "log_entry parts s = logger_log (concat parts) s"

text \<open>
  The log file holds the entries made since it was opened, one line each in their order, and nothing
  from before; no other file is touched; when the file cannot be opened nothing is written anywhere,
  not even to the file that was open before.
\<close>

theorem log_file_contents:
  "log_files (fold log_entry es (logger_open ok path s)) =
     (if ok then (log_files s)(path := concat (map (\<lambda>e. concat e @ newline) es)) else log_files s)"
proof -
  have "log_open s = Some path \<Longrightarrow> log_files (fold log_entry es s) =
      (log_files s)(path := log_files s path @ concat (map (\<lambda>e. concat e @ newline) es))" for s
    by (induction es arbitrary: s) (simp_all add: log_entry_def logger_log_def)
  then have "log_files (fold log_entry es (logger_open True path s)) =
      (log_files s)(path := concat (map (\<lambda>e. concat e @ newline) es))" by (simp add: logger_open_def)
  moreover have "fold log_entry es (s\<lparr>log_open := None\<rparr>) = s\<lparr>log_open := None\<rparr>"
    by (induction es) (simp_all add: log_entry_def logger_log_def)
  ultimately show ?thesis by (simp add: logger_open_def)
qed

section \<open>The profiler\<close>

datatype profile_type =
    INIT | NICSMH_Recieve | NICSMH_Send | NICRSE_Recieve | NICRSE_Send | PROTOCOLSMH_Recieve | PROTOCOLSMH_Send
  | PROTOCOLRSE_Recieve | PROTOCOLRSE_Send | COMMUNICATOR_Wake | COMMUNICATOR_Done | COMMUNICATOR_Send

primrec messageType :: "profile_type \<Rightarrow> string" where
  "messageType INIT = ''Profiler initialized''"
| "messageType NICSMH_Recieve = ''NIC: Packet received from ShmEngine''"
| "messageType NICSMH_Send = ''NIC: Packet sent via ShmEngine''"
| "messageType NICRSE_Recieve = ''NIC: Packet received from RawSocketEngine''"
| "messageType NICRSE_Send = ''NIC: Packet sent RawSocketEngine''"
| "messageType PROTOCOLSMH_Recieve = ''Protocol: Update called by NIC (Shared Memory)''"
| "messageType PROTOCOLSMH_Send = ''Protocol: Frame sent to NIC (Shared Memory)''"
| "messageType PROTOCOLRSE_Recieve = ''Protocol: Update called by NIC (Raw Socket)''"
| "messageType PROTOCOLRSE_Send = ''Protocol: Frame sent to NIC (Raw Socket)''"
| "messageType COMMUNICATOR_Wake = ''Communicator: Woke up to process message''"
| "messageType COMMUNICATOR_Done = ''Communicator: Finished processing message''"
| "messageType COMMUNICATOR_Send = ''Communicator: Sending''"

text \<open>
  A difference of whole seconds, divided by 1000 and printed with six decimals; up to \<open>2 ^ 40\<close> seconds
  the double prints as the exact quotient.
\<close>

definition profile_timestamp :: "int \<Rightarrow> int \<Rightarrow> string" where
  "profile_timestamp now start = (let n = nat \<bar>now - start\<bar>
     in (if now < start then ''-'' else []) @ to_string (n div 1000) @ ''.'' @ three_digits (n mod 1000) @ ''000'')"

text \<open>The log file, standard output, and what one call appends to both, with its own reading of the clock for each.\<close>

definition profile :: "int \<Rightarrow> int \<Rightarrow> int \<Rightarrow> profile_type \<Rightarrow> string \<times> string \<Rightarrow> string \<times> string" where
  "profile now now' start t outs =
     (fst outs @ profile_timestamp now start @ messageType t @ newline, snd outs @ profile_timestamp now' start @ messageType t @ newline)"

lemma messageType_inj: "messageType s = messageType t \<longleftrightarrow> s = t"
  by (cases s; cases t) simp_all

text \<open>A second after the start the profiler shows a thousandth.\<close>

lemma profile_shows_thousandths: "profile_timestamp (start + 1) start = ''0.001000''"
proof -
  have "to_string (1 div 1000) @ ''.'' @ three_digits (1 mod 1000) @ ''000'' = ''0.001000''" by code_simp
  then show ?thesis by (simp add: profile_timestamp_def)
qed

section \<open>Random numbers\<close>

text \<open>The draw of the distribution is a parameter; an empty interval is undefined.\<close>

definition random_between :: "(int \<Rightarrow> int \<Rightarrow> int) \<Rightarrow> int \<Rightarrow> int \<Rightarrow> int option" where
  "random_between draw lo hi = (if lo \<le> hi then Some (draw lo hi) else None)"

end
