(* ===== verification/Vehicle_Main.thy ===== *)
theory Vehicle_Main
  imports Vehicle_Apps Text_Output
begin

text \<open>
  The two \<^verbatim>\<open>main\<close> functions from the command line to the exit code: reading the arguments, opening the
  log, starting the processes (\<^verbatim>\<open>Vehicle_Apps\<close>), what the children do for the rest of their lives and how
  long the parent waits for them.  Process ids, the outcome of the system calls and the times at which
  somebody kills a child are parameters.
\<close>

section \<open>Reading numbers\<close>

primrec read_digits :: "string \<Rightarrow> nat \<Rightarrow> nat" where
  "read_digits [] n = n"
| "read_digits (c # cs) n = (if 48 \<le> (of_char c :: nat) \<and> (of_char c :: nat) \<le> 57 then read_digits cs (10 * n + (of_char c - 48)) else n)"

definition is_space :: "char \<Rightarrow> bool" where
  "is_space c \<longleftrightarrow> (of_char c :: nat) = 32 \<or> 9 \<le> (of_char c :: nat) \<and> (of_char c :: nat) \<le> 13"

text \<open>A number outside of the range of \<^verbatim>\<open>int\<close> is undefined, \<open>None\<close>; text that is no number reads as 0.\<close>

definition atoi :: "string \<Rightarrow> int option" where
  "atoi s = (let t = dropWhile is_space s;
       (neg, ds) = (case t of [] \<Rightarrow> (False, [])
          | c # cs \<Rightarrow> if c = CHR ''-'' then (True, cs) else if c = CHR ''+'' then (False, cs) else (False, t));
       v = (if neg then - int (read_digits ds 0) else int (read_digits ds 0))
     in if - (2 ^ 31) \<le> v \<and> v < 2 ^ 31 then Some v else None)"

lemma read_to_string: "read_digits (to_string k @ cs) n = read_digits cs (n * 10 ^ length (to_string k) + k)"
proof (induction k arbitrary: cs n rule: to_string.induct)
  case (1 k)
  show ?case
  proof (cases "k < 10")
    case True
    then show ?thesis by (simp add: to_string.simps [of k] algebra_simps)
  next
    case False
    have small: "k mod 10 \<le> 9" by presburger
    have "read_digits (to_string k @ cs) n = read_digits (char_of (48 + k mod 10) # cs) (n * 10 ^ length (to_string (k div 10)) + k div 10)"
      using 1 False by (simp add: to_string.simps [of k])
    also have "\<dots> = read_digits cs (10 * (n * 10 ^ length (to_string (k div 10)) + k div 10) + k mod 10)"
      using small by simp
    also have "10 * (n * 10 ^ length (to_string (k div 10)) + k div 10) + k mod 10 = n * 10 ^ length (to_string k) + k"
      using False by (simp add: to_string.simps [of k] algebra_simps)
    finally show ?thesis .
  qed
qed

lemma to_string_digit: "\<exists>c cs. to_string k = c # cs \<and> 48 \<le> (of_char c :: nat) \<and> (of_char c :: nat) \<le> 57"
proof (induction k rule: to_string.induct)
  case (1 k)
  then show ?case by (cases "k < 10") (auto simp: to_string.simps [of k])
qed

text \<open>The arguments of the scripts are read back as the numbers they were written from.\<close>

lemma atoi_int_string:
  assumes "- (2 ^ 31) \<le> i" "i < 2 ^ 31"
  shows "atoi (int_string i) = Some i"
proof -
  have read: "read_digits (to_string k) 0 = k" for k using read_to_string [of k "[]" 0] by simp
  have minus: "\<not> is_space (CHR ''-'')" by (simp add: is_space_def)
  obtain c cs where c: "to_string (nat i) = c # cs" "48 \<le> (of_char c :: nat)" "(of_char c :: nat) \<le> 57"
    using to_string_digit by blast
  then have "c \<noteq> CHR ''-''" "c \<noteq> CHR ''+''" "\<not> is_space c" by (auto simp: is_space_def)
  then show ?thesis using assms minus read [of "nat i"] read [of "nat (- i)"] c(1)
    by (cases "i < 0") (simp_all add: atoi_def int_string_def Let_def del: read_digits.simps)
qed

section \<open>What the processes do\<close>

text \<open>Sleeping for ever: there is no time at which the loop is left.\<close>

partial_function (option) sleep_loop :: "nat \<Rightarrow> nat \<Rightarrow> nat option" where
  "sleep_loop seconds t = sleep_loop seconds (t + seconds)"

lemma sleep_loop_None: "sleep_loop d t = None"
proof (cases "sleep_loop d t")
  case (Some r)
  then have False by (rule sleep_loop.raw_induct [where P = "\<lambda>_ _ _. False", rotated])
  then show ?thesis ..
qed

definition gateway_runs :: "ptp_role \<Rightarrow> nat option" where
  "gateway_runs r = (if r = PTP_SLAVE then sleep_loop 60 0 else sleep_loop 10 0)"

definition component_runs :: "nat option" where
  "component_runs = sleep_loop 5 0"

text \<open>
  When a child is gone: a signal kills it, or it comes to the end of its program.  An exception that
  leaves its constructor or one of its threads ends it by \<^verbatim>\<open>abort\<close>, which is a signal: \<open>killed\<close> is any such time.
\<close>

definition child_end :: "process \<Rightarrow> nat option \<Rightarrow> nat option" where
  "child_end p killed = (case killed of Some t \<Rightarrow> Some t
     | None \<Rightarrow> (case p of Gateway_process r _ _ \<Rightarrow> gateway_runs r | Component_process _ _ _ _ \<Rightarrow> component_runs))"

lemma child_end_killed: "child_end p killed = killed"
  by (simp add: child_end_def gateway_runs_def component_runs_def sleep_loop_None split: option.split process.split)

text \<open>The parent waits for its children one after the other; a child that ended earlier has left its status behind.\<close>

primrec wait_children :: "nat option list \<Rightarrow> nat \<Rightarrow> nat option" where
  "wait_children [] t = Some t"
| "wait_children (e # es) t = (case e of None \<Rightarrow> None | Some t' \<Rightarrow> wait_children es (max t t'))"

lemma wait_children_iff: "wait_children es t = None \<longleftrightarrow> None \<in> set es"
  by (induction es arbitrary: t) (auto split: option.split)

section \<open>The programs\<close>

datatype run_end = Exited nat | Waiting | Undefined

record program_run =
  pr_processes :: "process list"
  pr_end :: run_end
  pr_log :: logger
  pr_out :: string
  pr_err :: string

definition refuse :: "string \<Rightarrow> logger \<Rightarrow> program_run" where
  "refuse err lg = \<lparr>pr_processes = [], pr_end = Exited 1, pr_log = lg, pr_out = [], pr_err = err @ newline\<rparr>"

definition undefined_run :: "logger \<Rightarrow> program_run" where
  "undefined_run lg = \<lparr>pr_processes = [], pr_end = Undefined, pr_log = lg, pr_out = [], pr_err = []\<rparr>"

text \<open>What a child that never ends means for the parent; without an error it waits.\<close>

definition parent_end :: "process list \<Rightarrow> nat \<Rightarrow> (nat \<Rightarrow> nat option) \<Rightarrow> run_end" where
  "parent_end ps code kills = (if code \<noteq> 0 then Exited code
     else case wait_children (map (\<lambda>i. child_end (ps ! i) (kills i)) [0..<length ps]) 0 of None \<Rightarrow> Waiting | Some t \<Rightarrow> Exited 0)"

definition start_error :: "bool \<Rightarrow> bool \<Rightarrow> bool \<Rightarrow> nat \<Rightarrow> string \<Rightarrow> string" where
  "start_error mask_ok ipc_ok gateway_fork code reason =
     (if \<not> mask_ok then ''FATAL: Unable to set the signal mask for the parent process: '' @ reason @ newline
      else if \<not> ipc_ok then ''Failed to bootstrap shared memory IPC'' @ newline
      else if \<not> gateway_fork then ''Failed to fork gateway process!'' @ newline
      else if code \<noteq> 0 then ''Failed to fork process!'' @ newline else [])"

definition parent_lines :: "(nat \<Rightarrow> nat) \<Rightarrow> process list \<Rightarrow> nat \<Rightarrow> string" where
  "parent_lines pid ps code =
     (if ps \<noteq> [] then ''--- Gateway RCU process spawned with PID: '' @ to_string (pid 1) @ '' ---'' @ newline else []) @
     (if code = 0 then ''All component processes have been launched. Parent is waiting.'' @ newline else [])"

definition log_line :: "string \<Rightarrow> string" where
  "log_line path = ''[Main] Logger inicializado. Path: '' @ path @ newline"

definition start_line :: "string \<Rightarrow> nat \<Rightarrow> string" where
  "start_line what pid = ''--- Starting '' @ what @ '' | Parent PID: '' @ to_string pid @ '' ---'' @ newline"

definition main_car ::
  "string list \<Rightarrow> bool \<Rightarrow> bool \<Rightarrow> bool \<Rightarrow> nat \<Rightarrow> bool list \<Rightarrow> (nat \<Rightarrow> nat option) \<Rightarrow> (nat \<Rightarrow> nat) \<Rightarrow> string \<Rightarrow> bool \<Rightarrow> logger \<Rightarrow> program_run" where
  "main_car argv mask_ok ipc_ok gateway_fork offset forks kills pid reason log_ok lg =
     (if length argv < 4 then refuse (''Usage: '' @ argv ! 0 @ '' <number_of_components> <init_quadrant> <log_path> '') lg
      else case atoi (argv ! 1) of None \<Rightarrow> undefined_run lg
      | Some N \<Rightarrow> if N \<le> 0 then refuse ''Number of components must be greater than 0.'' lg
        else (case atoi (argv ! 2) of None \<Rightarrow> undefined_run lg
        | Some q \<Rightarrow> if q < 0 \<or> q > 3 then
              refuse (''Invalid quadrant. Must be a whole number from 0 to 3. Quadrant: '' @ int_string q) lg
          else (case start_car (length argv) N q mask_ok ipc_ok gateway_fork offset forks of (ps, code) \<Rightarrow>
             \<lparr>pr_processes = ps, pr_end = parent_end ps code kills, pr_log = logger_open log_ok (argv ! 3) lg,
              pr_out = log_line (argv ! 2) @ newline @ start_line ''Vehicle'' (pid 0) @ newline @ parent_lines pid ps code,
              pr_err = start_error mask_ok ipc_ok gateway_fork code reason\<rparr>)))"

definition main_rsu ::
  "string list \<Rightarrow> bool \<Rightarrow> bool \<Rightarrow> bool \<Rightarrow> (nat \<Rightarrow> nat option) \<Rightarrow> (nat \<Rightarrow> nat) \<Rightarrow> string \<Rightarrow> logger \<Rightarrow> program_run" where
  "main_rsu argv mask_ok ipc_ok gateway_fork kills pid reason lg =
     (if length argv < 2 then refuse (''Usage: '' @ argv ! 0 @ ''<quadrant>'' @ newline @ ''Quadrants: 0=NORTH, 1=EAST, 2=SOUTH, 3=WEST'') lg
      else case atoi (argv ! 1) of None \<Rightarrow> undefined_run lg
      | Some q \<Rightarrow> if q < 0 \<or> q > 3 then refuse ''Invalid quadrant. Must be a whole number from 0 to 3'' lg
        else (case start_roadside_unit (length argv) q mask_ok ipc_ok gateway_fork of (ps, code) \<Rightarrow>
           \<lparr>pr_processes = ps, pr_end = parent_end ps code kills, pr_log = lg,
            pr_out = start_line ''Roadside Unit'' (pid 0) @
              (if mask_ok \<and> ipc_ok then ''--- Spawning Gateway RCU process... ---'' @ newline else []) @ parent_lines pid ps code,
            pr_err = start_error mask_ok ipc_ok gateway_fork code reason\<rparr>))"

section \<open>How a vehicle ends\<close>

lemma parent_end_iff:
  "parent_end ps code kills = (if code \<noteq> 0 then Exited code else if \<exists>i < length ps. kills i = None then Waiting else Exited 0)"
proof -
  let ?es = "map (\<lambda>i. child_end (ps ! i) (kills i)) [0..<length ps]"
  have "wait_children ?es 0 = None \<longleftrightarrow> (\<exists>i < length ps. kills i = None)"
    by (auto simp: wait_children_iff child_end_killed image_iff) (metis atLeastLessThan_iff zero_le)
  then show ?thesis by (auto simp: parent_end_def split: option.split)
qed

lemma spawn_components_outcome:
  "length is \<le> length forks \<Longrightarrow> spawn_components offset is forks =
     (map (component_plan offset) (take (length (takeWhile id (take (length is) forks))) is),
      if list_all id (take (length is) forks) then 0 else 1)"
proof (induction offset "is" forks rule: spawn_components.induct)
  case (3 offset i "is" ok forks)
  then show ?case by (cases ok) (auto simp: split: prod.split)
qed simp_all

text \<open>
  C33. How a vehicle ends.  Called with the numbers of components and of the quadrant, the program returns 1
  at once exactly if a number is out of its range or a system call fails, and when it is the fork of a
  component, the gateway and the components before it run on without a parent.  Otherwise it
  waits for its children for ever unless every one of them is killed, because neither the gateway
  nor a component ever comes to an end of its own; then it returns 0.
\<close>

theorem vehicle_program_outcome:
  assumes "- (2 ^ 31) \<le> N" "N < 2 ^ 31" "- (2 ^ 31) \<le> q" "q < 2 ^ 31" "nat N \<le> length forks"
    and "r = main_car [prog, int_string N, int_string q, path] mask_ok ipc_ok gateway_fork offset forks kills pid reason log_ok lg"
    and "started = (1 \<le> N \<and> 0 \<le> q \<and> q \<le> 3 \<and> mask_ok \<and> ipc_ok \<and> gateway_fork)"
    and "spawned = length (takeWhile id (take (nat N) forks))"
  shows "pr_end r = (if started \<and> spawned = nat N then if \<forall>i \<le> nat N. kills i \<noteq> None then Exited 0 else Waiting else Exited 1) \<and>
    pr_processes r = (if started then Gateway_process PTP_SLAVE MEMBER (quadrant_of (nat q)) # map (component_plan offset) [0..<spawned] else [])"
proof -
  let ?ok = "list_all id (take (nat N) forks)"
  have all: "?ok \<longleftrightarrow> spawned = nat N"
  proof -
    have "?ok \<longleftrightarrow> takeWhile id (take (nat N) forks) = take (nat N) forks" by (simp add: takeWhile_eq_all_conv list_all_iff)
    also have "\<dots> \<longleftrightarrow> spawned = nat N"
      using assms(5,8) takeWhile_dropWhile_id [of id "take (nat N) forks"] by (metis append_eq_conv_conj length_take min.absorb2 take_all_iff order_refl)
    finally show ?thesis .
  qed
  have le: "spawned \<le> nat N" using assms(5,8) length_takeWhile_le [of id "take (nat N) forks"] by simp
  have spawn: "spawn_components offset [0..<nat N] forks =
      (map (component_plan offset) [0..<spawned], if spawned = nat N then 0 else 1)"
    using spawn_components_outcome [of "[0..<nat N]" forks offset] assms(5,8) all le by (simp add: take_upt)
  show ?thesis
  proof (cases "1 \<le> N \<and> 0 \<le> q \<and> q \<le> 3")
    case False
    then show ?thesis using assms(1-4,7) atoi_int_string [of N] atoi_int_string [of q]
      by (auto simp: assms(6) main_car_def refuse_def)
  next
    case True
    then show ?thesis using assms(1-4,7) atoi_int_string [of N] atoi_int_string [of q] spawn
      by (auto simp: assms(6) main_car_def start_car_def parent_end_iff less_Suc_eq_le)
  qed
qed

definition no_log :: logger where
  "no_log = \<lparr>log_files = (\<lambda>_. []), log_open = None\<rparr>"

theorem vehicle_program_outcome_witness:
  "pr_end (main_car [''car'', int_string 3, int_string 1, ''log''] True True True 0 [True, True, True] (\<lambda>_. None) id [] True no_log) = Waiting \<and>
   pr_end (main_car [''car'', int_string 3, int_string 1, ''log''] True True True 0 [True, False, True] (\<lambda>_. None) id [] True no_log) = Exited 1"
proof -
  let ?run = "\<lambda>forks. main_car [''car'', int_string 3, int_string 1, ''log''] True True True 0 forks (\<lambda>_. None) id [] True no_log"
  have r: "- (2 ^ 31) \<le> (3 :: int)" "(3 :: int) < 2 ^ 31" "- (2 ^ 31) \<le> (1 :: int)" "(1 :: int) < 2 ^ 31" by simp_all
  have len: "nat 3 \<le> length [True, b, True]" for b by simp
  note R = vehicle_program_outcome [OF r len refl refl refl]
  have "pr_end (?run [True, True, True]) = Waiting"
    by (subst conjunct1 [OF R]) (auto simp: numeral_3_eq_3)
  moreover have "pr_end (?run [True, False, True]) = Exited 1"
    by (subst conjunct1 [OF R]) (simp add: numeral_3_eq_3)
  ultimately show ?thesis ..
qed

text \<open>
  What the vehicle reports as the path of its log is the number of its quadrant; the log itself is opened
  at the path that was given.
\<close>

lemma car_reports_quadrant_as_log_path:
  assumes "1 \<le> N" "N < 2 ^ 31" "0 \<le> q" "q \<le> 3"
    and "r = main_car [prog, int_string N, int_string q, path] mask_ok ipc_ok gateway_fork offset forks kills pid reason True lg"
  shows "\<exists>rest. pr_out r = log_line (int_string q) @ rest \<and> log_open (pr_log r) = Some path"
proof -
  obtain ps code where start: "start_car (Suc (Suc (Suc (Suc 0)))) N q mask_ok ipc_ok gateway_fork offset forks = (ps, code)" by fastforce
  have "\<not> N \<le> 0" "\<not> (q < 0 \<or> q > 3)" "atoi (int_string N) = Some N" "atoi (int_string q) = Some q"
    using assms(1-4) atoi_int_string [of N] atoi_int_string [of q] by simp_all
  then show ?thesis using start by (simp add: assms(5) main_car_def logger_open_def)
qed

text \<open>An argument that is no number is taken for 0, the northern quadrant.\<close>

lemma quadrant_typo_is_north:
  "pr_processes (main_rsu [prog, ''south''] True True True kills pid reason lg) = [Gateway_process PTP_MASTER LEADER NORTH]"
proof -
  have "atoi ''south'' = Some 0" by code_simp
  then show ?thesis by (simp add: main_rsu_def start_roadside_unit_def)
qed

end
