(* ===== verification/Spec2Isabelle.thy ===== *)
theory Spec2Isabelle
  imports Frame_Buffer Sensor_Pipeline Group_Monitor Fleet_Authenticity Vehicle_Queue Same_Vehicle Protocol_Lifecycle Vehicle_Main
begin

text \<open>
  A model of CommunicationAPI, the C++ communication stack of autonomous vehicles under
  \<^verbatim>\<open>src/source\<close>, with the theorems that say what it guarantees.  A vehicle is a group of processes on
  one machine: a gateway and several components that exchange frames through a shared-memory circular
  buffer.  The gateway alone also has a raw Ethernet socket.  It forwards broadcasts of its components
  to the network, authenticates what other stations of the same quadrant send and forwards it inside, keeps
  its clock in step by a PTP exchange, and obtains the session key from a roadside unit, the leader of
  the group in a quadrant.

  \<^bold>\<open>The layers and their theories.\<close>  Every theory follows the code of the files it names; the
  functions keep the names of the code where the logic allows it.

  \<^item> \<^verbatim>\<open>Comm_Prelude\<close>: bytes, machine words, little-endian images of words, block copies, exceptions as
    values.  \<^verbatim>\<open>wire_simps\<close> and \<^verbatim>\<open>shm_simps\<close> are the collections the later proofs simplify with.
  \<^item> \<^verbatim>\<open>Wire_Format\<close> (\<^verbatim>\<open>ethernet.hpp\<close>, \<^verbatim>\<open>address.hpp\<close>, \<^verbatim>\<open>protocol_definitions.hpp\<close>, \<^verbatim>\<open>segment.hpp\<close>,
    \<^verbatim>\<open>quadrant.hpp\<close>) and \<^verbatim>\<open>Teds_Types\<close> (\<^verbatim>\<open>teds.hpp\<close>): the packed structures as byte lists and their
    inverses.
  \<^item> \<^verbatim>\<open>Crypto_Xor\<close> (\<^verbatim>\<open>crypto/\<close>): the word-at-a-time MAC, equal to a byte-wise definition, the XOR cipher
    and the service in front of the provider.  The locale \<open>crypto_provider\<close> of that theory is the contract
    of a provider.
  \<^item> \<^verbatim>\<open>Observer_Subjects\<close> (\<^verbatim>\<open>api/observer/\<close>): the two subjects behind one locale, the semaphore and the
    queueing observer.
  \<^item> \<^verbatim>\<open>Frame_Buffer\<close> (\<^verbatim>\<open>buffer.hpp\<close>): handles on reference-counted blocks and views, on an explicit heap
    where touching a freed block is undefined.
  \<^item> \<^verbatim>\<open>Shm_Block\<close>, \<^verbatim>\<open>Shm_Services\<close> (\<^verbatim>\<open>engines/smh_engine.hpp\<close>): the block in shared memory with its
    bootstrap, client registry, service directory and list of nearby entities.
  \<^item> \<^verbatim>\<open>Shm_Ring\<close>, \<^verbatim>\<open>Shm_Data_Path\<close>, \<^verbatim>\<open>Shm_Ring_Inv\<close>, \<^verbatim>\<open>Shm_Ring_Safety\<close>, \<^verbatim>\<open>Shm_Hazards\<close> (the same file):
    the circular buffer.  \<^verbatim>\<open>Shm_Ring\<close> has the step relation in which every access to a shared variable is a
    step of one process; \<^verbatim>\<open>Shm_Data_Path\<close> has \<^verbatim>\<open>send\<close>, \<^verbatim>\<open>receive_zerocopy\<close>, \<^verbatim>\<open>release_frame\<close> and \<^verbatim>\<open>receive\<close> as
    functions for one process running alone, and shows that a \<^verbatim>\<open>send\<close> is a run of the step relation.
    The invariant is in the two following theories; \<^verbatim>\<open>Shm_Hazards\<close> holds what happens outside the
    discipline it needs.
  \<^item> \<^verbatim>\<open>Nic_Model\<close>, \<^verbatim>\<open>Nic_Engines\<close> (\<^verbatim>\<open>nic.hpp\<close>, \<^verbatim>\<open>engines/raw_socket_engine.hpp\<close>): construction of the engines,
    sending and receiving of raw frames, the filters, quadrant changes, the calls an interface passes on
    to its engine, and the receiver thread.
  \<^item> \<^verbatim>\<open>Clock_Sync\<close>, \<^verbatim>\<open>Ptp_Sync\<close> (\<^verbatim>\<open>clock.hpp\<close>, \<^verbatim>\<open>ptp/\<close>): the settable clock, master and slave.
  \<^item> \<^verbatim>\<open>Group_Handlers\<close>, \<^verbatim>\<open>Group_Monitor\<close> (\<^verbatim>\<open>groups/\<close>): heartbeats, the sweep of the membership monitor, key
    distribution; the locale \<open>membership\<close> is what heartbeats and monitor owe each other.  The second
    theory has the monitor as a thread among heartbeats and requests to stop, refines the tables to
    one map step by step, and shows that the thread can be stopped.
  \<^item> \<^verbatim>\<open>Protocol_Stack\<close> (\<^verbatim>\<open>protocol.hpp\<close>) with \<^verbatim>\<open>Protocol_Props\<close> and \<^verbatim>\<open>Protocol_Safety\<close>: packets, routing, system
    messages, authentication, delivery.  An operation returns the new state and the list of effects it
    has on the interfaces, queues and clock, in order, followed by an exception if one is thrown; \<open>None\<close> is
    undefined behaviour.
  \<^item> \<^verbatim>\<open>Communicator_Model\<close> (\<^verbatim>\<open>communicator.hpp\<close>, \<^verbatim>\<open>message.hpp\<close>), \<^verbatim>\<open>App_Handlers\<close> (\<^verbatim>\<open>control_envelope.hpp\<close>,
    \<^verbatim>\<open>latency_test.hpp\<close>, \<^verbatim>\<open>latency_test_handler.hpp\<close>), \<^verbatim>\<open>Teds_Service\<close> (\<^verbatim>\<open>teds_handler.hpp\<close>,
    \<^verbatim>\<open>component.hpp\<close>), \<^verbatim>\<open>Sensor_Pipeline\<close> (\<^verbatim>\<open>smartdata/\<close>) and \<^verbatim>\<open>Vehicle_Apps\<close> (\<^verbatim>\<open>start_car.cpp\<close>,
    \<^verbatim>\<open>start_roadside_unit.cpp\<close>, \<^verbatim>\<open>gateway.hpp\<close>): the application side.
  \<^item> \<^verbatim>\<open>Text_Output\<close> (\<^verbatim>\<open>protocol_utils.cpp\<close>, \<^verbatim>\<open>logger.cpp\<close>, \<^verbatim>\<open>profiler.cpp\<close>, \<^verbatim>\<open>random.cpp\<close>, the formatting
    functions of \<^verbatim>\<open>clock.hpp\<close> and the printing operators): what is written to streams and log files.
  \<^item> \<^verbatim>\<open>Vehicle_Main\<close>: the two \<^verbatim>\<open>main\<close> functions from the command line to the exit code, with what the children do
    and how long the parent waits for them.
  \<^item> \<^verbatim>\<open>Thread_Shutdown\<close> (\<^verbatim>\<open>nic.hpp\<close>, \<^verbatim>\<open>ptp_timer_thread.hpp\<close>, \<^verbatim>\<open>teds_handler.hpp\<close>): the threads of an interface, the timer
    and the sweeper as step relations, and how their owners' destructors end them; the locale
    \<open>stoppable\<close> is the argument they share.  \<^verbatim>\<open>Protocol_Lifecycle\<close> (\<^verbatim>\<open>protocol.hpp\<close>) is the life of the protocol
    instance: its pointers, its registrations at the interfaces, the threads it starts, in any interleaving, and the order of
    destruction.
  \<^item> \<^verbatim>\<open>Fleet_Network\<close>, \<^verbatim>\<open>Fleet_Authenticity\<close>: any number of vehicles on one network that loses and duplicates, as a
    step relation over the protocols of all processes and the frames on their way.
  \<^item> \<^verbatim>\<open>Network_Exchanges\<close>: system messages between two gateways through both stacks, a whole clock
    synchronisation and the joining of a group.
  \<^item> \<^verbatim>\<open>Vehicle_Bus\<close>, \<^verbatim>\<open>Vehicle_Queue\<close>: all processes of one vehicle around the shared memory, from the send of
    one application to the receive of another.  The first theory composes the calls of communicator, protocol,
    interface and engine, in any order the threads choose, and shows that they implement a table of
    messages; the second says what that is to the processes.
  \<^item> \<^verbatim>\<open>Vehicle_Hop\<close>: from the shared memory of one vehicle through both gateways to an application in another.
  \<^item> \<^verbatim>\<open>Same_Vehicle\<close>: an actuator and a sensor in one vehicle, and why the sensor loses it.
  \<^item> This theory composes the layers: a message from a component of one vehicle to the components of
    another, two vehicles that join a group and talk, and an actuator that reads a sensor of another
    vehicle.

  \<^bold>\<open>What the theorems show.\<close>  For the circular buffer: with at most 32 concurrent writers, clients that
  register before the first message and release in order, and no system call failing once a ticket was
  drawn, no frame in use is overwritten and every client reads the broadcast log in ticket order; the
  hazards are the precise failures outside these conditions.  For the protocol: routing, delivery and
  forwarding are exact, a manipulated packet that is no system message is dropped, frames do not loop, and
  no input from the network makes the receive thread of a gateway leave a buffer, throw or lose a buffer; the signed
  arithmetic of a slave stays defined for early times only, and two forged messages make it overflow.  For the handlers with tables
  (leader, TEDS subscribers, nearby entities, directory): the tables refine maps and sets, those of the leader under
  any interleaving of its monitor with heartbeats, up to the iterator a heartbeat invalidates.  For the
  formats: round trips.  For a whole fleet: what the protocols send each other in answer to each other
  comes to an end, and what an application reads was sent in its own vehicle or arrived with a valid
  MAC.  For the bus of a vehicle: it is a queue for every process that listens to all messages or to none, and
  exactly when each call blocks.  For the threads: which destructors return, within how many steps, and when they wait for others; and what holds of
  a gateway's registrations, threads and quadrants in every state its threads can reach.
  Several theorems state defects of the code as it is, such as the unread message that is overwritten, the key
  distribution that sends an uninitialised word, the synchroniser that gets stuck, the sensor that loses
  the subscribers in its own vehicle and
  terminates its process, and the interface whose destructor waits for a stranger; they are listed as findings beside the development.

  \<^bold>\<open>Conventions and bounds.\<close>
  \<^item> Integers of the code are words of their width.  The sequence counters of the ring, 64 bits wide in
    the code, are natural numbers: they count messages and do not reach \<open>2 ^ 64\<close>.  Timestamps of
    \<^verbatim>\<open>steady_clock\<close> and list lengths are naturals too.
  \<^item> Arrays of the shared block are functions on indices; only those below 16 clients, 16 directory
    entries, 16 nearby entities and 32 slots are ever used.
  \<^item> Memory the code does not initialise is a parameter (\<open>junk\<close>, \<open>stale\<close>, \<open>pad\<close>) over which the theorems
    quantify.  Readings of clocks, random numbers and results of system calls are arguments as well.
  \<^item> A call that blocks for ever, or a loop that has no end, has the result \<open>None\<close>.  On the bus of
    a vehicle every call runs to its end before the next begins; the interleavings inside the ring are those
    of \<^verbatim>\<open>Shm_Ring\<close>.  The fuel of
    \<open>expire_loop\<close> is exact: \<open>monitor_sweep_terminates\<close> shows that one more than the number of expired
    clients is enough and less is not.  All other recursions are structural or have a proved measure.
  \<^item> Undefined behaviour that leaves no result is \<open>None\<close>.  Signed overflow in the clock synchronisation keeps the wrapped
    result of the target and is marked by the effect \<open>Undefined_overflow\<close>, so that what follows it can be stated.
    The counter of a frame buffer's handles is unbounded.
  \<^item> Operations under a mutex are atomic, except where the code gives the mutex up in between, as the
    monitor of the leader does.  In the ring every access to a shared counter or flag, in the threads every test
    of a flag, wait, receive and draw is a step of its own.  The target is little-endian.

  \<^bold>\<open>Not modelled.\<close>  Threads and signals are the environment that chooses which step is next; the kernel
  behind sockets, semaphores and shared memory is represented by the results of its calls.  The lines
  that the handlers write to standard output or with \<^verbatim>\<open>LOG_STREAM\<close> are left out of their definitions.
  The memory order of the atomic operations is taken to be sequentially consistent.  \<^verbatim>\<open>SmartData\<close> has type names
  only.  Scripts, the operating-system image and the reports are no part of the library.
\<close>

section \<open>From vehicle to vehicle\<close>

text \<open>
  C1. A message a component sends to all vehicles arrives.  The component's communicator puts one
  frame into the shared memory; the gateway of the vehicle turns what it finds there into one network
  frame; whatever lies behind the bytes in the receive buffer of another station in the same quadrant
  with the same session key, its gateway takes the frame, authenticates it and puts one frame into its
  own shared memory; there every component hands it to the communicators it concerns, and each of them
  receives the message with type, timestamp and payload unchanged, from the sending gateway's
  hardware address and the sending component's port.
\<close>

theorem vehicle_to_vehicle_delivery:
  assumes crypto: "crypto ps = Some XorCryptoProvider" "crypto ga = Some XorCryptoProvider" "crypto gb = Some XorCryptoProvider"
    and roles: "external_nic ps = None" "external_nic ga = Some xa" "external_nic gb = Some xb"
    and keys: "session_key (local_block ga) = key" "session_key (local_block gb) = key"
    and network: "nic_quadrant xa = nic_quadrant xb" "nic_address xa \<noteq> nic_address xb" "nic_address xa \<noteq> BROADCAST_ADDR"
    and message: "m_destination m = broadcast dp" "m_type m \<in> {msg_type_byte CONTROL, msg_type_byte TEDS}"
      "length (m_payload m) \<le> 1015"
  shows "\<exists>a1 a2 a3 raw. comm_send True ps c m = Some (([Local_send a1], None), True) \<and>
    (\<forall>f1. frame_holds a1 f1 \<and> length (fr_data f1) = ETH_MTU \<longrightarrow>
       (\<exists>acts. update_local f1 ga = Some (Remote_send a2 # acts, None))) \<and>
    snd (raw_send (sa_src a2) (sa_dst a2) (sa_proto a2) (sa_data a2) (engine xa)) = Some raw \<and>
    (\<forall>stale e. length stale = ETH_HEADER_SIZE + ETH_MTU \<longrightarrow>
       (\<exists>f2 gb'. handle_frame xb stale raw = Rx_notify ETHERNET_PROTOCOL_NUMBER f2 \<and>
          update_external e xb f2 gb = Some (gb', [Local_send a3, Free_external], None))) \<and>
    (\<forall>f3. frame_holds a3 f3 \<and> length (fr_data f3) = ETH_MTU \<longrightarrow>
       update_local f3 pr = Some (notify_communicator pr dp f3, None) \<and>
       (\<forall>d fs junk. qo_ok (c_inbox d) \<and> qo_data (c_inbox d) = f3 # fs \<longrightarrow>
          (\<exists>got d'. comm_receive (message_buffer junk 1024) d = Some (Got got d' True) \<and>
             m_type got = m_type m \<and> m_timestamp got = m_timestamp m \<and> m_payload got = m_payload m \<and>
             m_source got = \<lparr>paddr = nic_address xa, port = port (c_address c)\<rparr>)))"
proof -
  let ?s = "\<lparr>s_header = \<lparr>seg_type = m_type m, seg_timestamp = m_timestamp m\<rparr>, s_payload = m_payload m\<rparr>"
  let ?sp = "port (c_address c)"
  let ?d1 = "packet (session_key (local_block ps)) (location (local_block ps)) ?sp dp (get_bytes ?s)"
  let ?d2 = "packet key (nic_quadrant xa) ?sp dp (get_bytes ?s)"
  let ?d3 = "packet key (location (local_block gb)) ?sp dp (get_bytes ?s)"
  let ?a1 = "frame_args (c_address c) (broadcast dp) ?d1"
  let ?a2 = "frame_args \<lparr>paddr = nic_address xa, port = ?sp\<rparr> \<lparr>paddr = BROADCAST_ADDR, port = dp\<rparr> ?d2"
  let ?a3 = "frame_args \<lparr>paddr = nic_address xa, port = ?sp\<rparr> \<lparr>paddr = LOCAL_ADDR, port = dp\<rparr> ?d3"
  have len: "length (sa_data ?a1) \<le> ETH_MTU" "length (sa_data ?a3) \<le> ETH_MTU" "length ?d2 \<le> 1500"
    using message(3) by (simp_all add: wire_simps frame_args_def)
  have send: "comm_send True ps c m = Some (([Local_send ?a1], None), True)"
    using component_send [OF crypto(1) roles(1), of m True c] message by (simp add: broadcast_def segment_of_def)
  have out: "\<exists>acts. update_local f1 ga = Some (Remote_send ?a2 # acts, None)"
    if "frame_holds ?a1 f1" "length (fr_data f1) = ETH_MTU" for f1
    using gateway_out [OF crypto(2) roles(2) network(3)] frame_holds_carries [OF that len(1)] that(1) keys(1)
    by (simp add: frame_args_def frame_holds_def broadcast_def)
  obtain raw where raw: "snd (raw_send (sa_src ?a2) (sa_dst ?a2) (sa_proto ?a2) (sa_data ?a2) (engine xa)) = Some raw"
    using len(3) by (simp add: raw_send_def frame_args_def wire_simps)
  then have into: "\<exists>f2 gb'. handle_frame xb stale raw = Rx_notify ETHERNET_PROTOCOL_NUMBER f2 \<and>
      update_external e xb f2 gb = Some (gb', [Local_send ?a3, Free_external], None)"
    if "length stale = ETH_HEADER_SIZE + ETH_MTU" for stale e
    using gateway_in [OF crypto(3) roles(3) keys(2) network(1,2), of ?s] message(2) that by (fastforce simp: frame_args_def)
  have arrive: "update_local f3 pr = Some (notify_communicator pr dp f3, None) \<and>
      (\<forall>d fs junk. qo_ok (c_inbox d) \<and> qo_data (c_inbox d) = f3 # fs \<longrightarrow>
        (\<exists>got d'. comm_receive (message_buffer junk 1024) d = Some (Got got d' True) \<and>
           m_type got = m_type m \<and> m_timestamp got = m_timestamp m \<and> m_payload got = m_payload m \<and>
           m_source got = \<lparr>paddr = nic_address xa, port = ?sp\<rparr>))"
    if "frame_holds ?a3 f3" "length (fr_data f3) = ETH_MTU" for f3
    using component_in [of f3 key "location (local_block gb)" ?sp dp ?s pr] frame_holds_carries [OF that len(2)] that(1) message(3)
    by (simp add: frame_args_def frame_holds_def)
  show ?thesis using send out raw into arrive by blast
qed

definition other_nic :: ext_nic where
  "other_nic = \<lparr>engine = sample_engine, nic_quadrant = EAST, fixed_location = False\<rparr>"

theorem vehicle_to_vehicle_delivery_witness:
  "\<exists>a1 (a2 :: send_args) a3 raw f gb'.
    comm_send True (init_component sample_gateway) sample_comm (message_response_at 5 (broadcast 0) PRESSURE 7) =
      Some (([Local_send a1], None), True) \<and>
    snd (raw_send (sa_src a2) (sa_dst a2) (sa_proto a2) (sa_data a2) (engine sample_nic)) = Some raw \<and>
    update_external sample_env other_nic f (sample_gateway\<lparr>external_nic := Some other_nic\<rparr>)
      = Some (gb', [Local_send a3, Free_external], None) \<and>
    handle_frame other_nic (replicate 1514 0xEE) raw = Rx_notify ETHERNET_PROTOCOL_NUMBER f"
proof -
  let ?c = "init_component sample_gateway" and ?b = "sample_gateway\<lparr>external_nic := Some other_nic\<rparr>"
  let ?m = "message_response_at 5 (broadcast 0) PRESSURE 7"
  have crypto: "crypto ?c = Some XorCryptoProvider" "crypto ?b = Some XorCryptoProvider"
    and roles: "external_nic ?c = None" "external_nic ?b = Some other_nic" and key: "session_key (local_block ?b) = 99"
    by (simp_all add: init_component_def sample_gateway_fields)
  have net: "nic_quadrant sample_nic = nic_quadrant other_nic" "nic_address sample_nic \<noteq> nic_address other_nic"
      "nic_address sample_nic \<noteq> BROADCAST_ADDR"
    by (simp_all add: other_nic_def sample_nic_def sample_engine_def nic_address_def BROADCAST_ADDR_def)
  have m: "m_destination ?m = broadcast 0" "m_type ?m \<in> {msg_type_byte CONTROL, msg_type_byte TEDS}"
      "length (m_payload ?m) \<le> 1015"
    by (simp_all add: message_response_at_def message_of_def create_response_payload_eq)
  from vehicle_to_vehicle_delivery [OF crypto(1) sample_gateway_fields(1) crypto(2) roles(1) sample_gateway_fields(3) roles(2)
      sample_gateway_fields(2) key net m, of sample_comm sample_gateway]
  obtain a1 and a2 :: send_args and a3 raw where s: "comm_send True ?c sample_comm ?m = Some (([Local_send a1], None), True)"
      "snd (raw_send (sa_src a2) (sa_dst a2) (sa_proto a2) (sa_data a2) (engine sample_nic)) = Some raw"
    and r: "\<forall>stale e. length stale = ETH_HEADER_SIZE + ETH_MTU \<longrightarrow>
       (\<exists>f2 gb'. handle_frame other_nic stale raw = Rx_notify ETHERNET_PROTOCOL_NUMBER f2 \<and>
          update_external e other_nic f2 ?b = Some (gb', [Local_send a3, Free_external], None))"
    by (elim exE conjE) (rule that, assumption+)
  have "length (replicate 1514 0xEE :: bytes) = ETH_HEADER_SIZE + ETH_MTU" by (simp add: wire_simps)
  from r [rule_format, OF this, of sample_env]
  obtain f gb' where "handle_frame other_nic (replicate 1514 0xEE) raw = Rx_notify ETHERNET_PROTOCOL_NUMBER f"
    "update_external sample_env other_nic f ?b = Some (gb', [Local_send a3, Free_external], None)"
    by (elim exE conjE) (rule that, assumption+)
  with s show ?thesis by (intro exI conjI)
qed

section \<open>Joining a group and talking in it\<close>

text \<open>
  C8. Who has joined the same group can talk.  Two vehicles that announce themselves, one after the
  other, to the leader of their quadrant hold the same session key afterwards, the one the leader gives to
  all, both are members in its tables, and a broadcast of a component of the first vehicle then crosses
  to the second and into its shared memory, whatever keys the two held before.
\<close>

theorem joined_vehicles_talk:
  assumes stations: "gateway_at xa pa" "gateway_at xb pb" "gateway_at xl pl"
    and roles: "group_handler pa = Member" "group_handler pb = Member" "group_handler pl = Leader l" "leader_ok l"
    and network: "in_contact xa xl" "in_contact xb xl" "in_contact xa xb"
    and joined: "joins xa pa xl pl pa' pl'" "joins xb pb xl pl' pb' pl''"
    and message: "carries f (packet k loc sp dp (get_bytes s))" "dhost (fr_header f) = BROADCAST_ADDR"
      "seg_type (s_header s) \<in> {msg_type_byte CONTROL, msg_type_byte TEDS}" "length (s_payload s) \<le> 1015"
    and stale: "length stale = ETH_HEADER_SIZE + ETH_MTU"
  shows "session_key (local_block pa') = ld_session_key l \<and> session_key (local_block pb') = ld_session_key l \<and>
    (\<exists>l''. group_handler pl'' = Leader l'' \<and> {external_address xa, external_address xb} \<subseteq> dom (members l'')) \<and>
    (\<exists>act acts pb''. update_local f pa' = Some (act # acts, None) \<and>
       crossing xa act xb e stale pb' = Some (pb'', [Local_send (frame_args \<lparr>paddr = nic_address xa, port = sp\<rparr>
         \<lparr>paddr = LOCAL_ADDR, port = dp\<rparr> (packet (ld_session_key l) (location (local_block pb)) sp dp (get_bytes s))), Free_external], None))"
proof -
  note A = joins_outcome [OF stations(1) roles(1) stations(3) roles(3) network(1) joined(1)]
  then obtain t where l': "group_handler pl' = Leader (heartbeat_update t (external_address xa) l)" and "gateway_at xl pl'" by blast
  note B = joins_outcome [OF stations(2) roles(2) this(2) l' network(2) joined(2)]
  then obtain u where l'': "group_handler pl'' = Leader (heartbeat_update u (external_address xb) (heartbeat_update t (external_address xa) l))"
    by blast
  have keys: "session_key (local_block pa') = ld_session_key l" "session_key (local_block pb') = ld_session_key l"
    using A B by (simp_all add: heartbeat_update_def Let_def)
  have tables: "{external_address xa, external_address xb} \<subseteq>
      dom (members (heartbeat_update u (external_address xb) (heartbeat_update t (external_address xa) l)))"
    using heartbeat_ok [OF roles(4), of t "external_address xa"] heartbeat_ok [of "heartbeat_update t (external_address xa) l" u "external_address xb"]
    by auto
  let ?d = "packet (ld_session_key l) (nic_quadrant xa) sp dp (get_bytes s)"
  let ?a = "frame_args \<lparr>paddr = nic_address xa, port = sp\<rparr> \<lparr>paddr = BROADCAST_ADDR, port = dp\<rparr> ?d"
  have not_all: "nic_address xa \<noteq> BROADCAST_ADDR" using network(1) by (auto simp: in_contact_def)
  obtain acts where out: "update_local f pa' = Some (Remote_send ?a # acts, None)"
    using gateway_out [of pa' xa, OF _ _ not_all message(1,2)] A keys(1) by (auto simp: gateway_at_def)
  have "length ?d \<le> ETH_DATA_LEN" using message(4) by (simp add: get_bytes_eq wire_simps)
  then obtain raw where raw: "snd (raw_send (sa_src ?a) (sa_dst ?a) (sa_proto ?a) (sa_data ?a) (engine xa)) = Some raw"
    by (simp add: raw_send_def frame_args_def)
  have near: "nic_quadrant xa = nic_quadrant xb" "nic_address xa \<noteq> nic_address xb" using network(3) by (auto simp: in_contact_def)
  have "\<exists>g pb''. handle_frame xb stale raw = Rx_notify ETHERNET_PROTOCOL_NUMBER g \<and> update_external e xb g pb' =
      Some (pb'', [Local_send (frame_args \<lparr>paddr = nic_address xa, port = sp\<rparr> \<lparr>paddr = LOCAL_ADDR, port = dp\<rparr>
        (packet (ld_session_key l) (location (local_block pb')) sp dp (get_bytes s))), Free_external], None)"
    using gateway_in [OF _ _ keys(2) near message(3) _ stale] raw B by (fastforce simp: gateway_at_def frame_args_def)
  then have "\<exists>pb''. crossing xa (Remote_send ?a) xb e stale pb' = Some (pb'', [Local_send (frame_args \<lparr>paddr = nic_address xa, port = sp\<rparr>
      \<lparr>paddr = LOCAL_ADDR, port = dp\<rparr> (packet (ld_session_key l) (location (local_block pb)) sp dp (get_bytes s))), Free_external], None)"
    using raw B by (auto simp: crossing_def gateway_turn_def)
  then show ?thesis using keys l'' tables out by blast
qed

definition far_nic :: ext_nic where
  "far_nic = \<lparr>engine = \<lparr>my_mac = MAC 2 0 0 0 0 3, sll_addr = LOCAL_ADDR\<rparr>, nic_quadrant = EAST, fixed_location = False\<rparr>"

theorem joined_vehicles_talk_witness:
  "\<exists>pa' pb' (pl'' :: nat protocol) act acts pb'' a. session_key (local_block pa') = 55 \<and> session_key (local_block (pb' :: nat protocol)) = 55 \<and>
     update_local (sample_frame (packet 99 EAST 7 1000 sample_segment)) pa' = Some (act # acts, None) \<and>
     crossing sample_nic act far_nic sample_env (replicate 1514 0xEE) pb' = Some (pb'', [Local_send a, Free_external], None)"
proof -
  let ?pb = "sample_gateway\<lparr>external_nic := Some far_nic\<rparr>" and ?l = "fst (leader_init 55 7)"
  have b: "gateway_at far_nic ?pb" "group_handler ?pb = Member" and l: "group_handler sample_unit = Leader ?l"
    and net: "in_contact far_nic unit_nic" "in_contact sample_nic far_nic"
    by (simp_all add: gateway_at_def sample_gateway_fields sample_unit_def in_contact_def)
      (simp_all add: far_nic_def unit_nic_def sample_engine_def nic_address_def BROADCAST_ADDR_def LOCAL_ADDR_def)
  obtain pa' pl' where j1: "joins sample_nic sample_gateway unit_nic sample_unit pa' pl'"
    using joining_possible [OF sample_stations(1) sample_gateway_fields(4) sample_stations(2) l sample_stations(3)] by blast
  obtain t where "gateway_at unit_nic pl'" "group_handler pl' = Leader (heartbeat_update t (external_address sample_nic) ?l)"
    using joins_outcome [OF sample_stations(1) sample_gateway_fields(4) sample_stations(2) l sample_stations(3) j1] by blast
  then obtain pb' pl'' where j2: "joins far_nic ?pb unit_nic pl' pb' pl''" using joining_possible [OF b _ _ net(1)] by blast
  let ?s = "make_segment TEDS 5 [1, 2, 3]"
  have f: "carries (sample_frame (packet 99 EAST 7 1000 (get_bytes ?s))) (packet 99 EAST 7 1000 (get_bytes ?s))"
    by (rule sample_frame_carries) (simp add: get_bytes_eq make_segment_def)
  have m: "dhost (fr_header (sample_frame (packet 99 EAST 7 1000 (get_bytes ?s)))) = BROADCAST_ADDR"
      "seg_type (s_header ?s) \<in> {msg_type_byte CONTROL, msg_type_byte TEDS}" "length (s_payload ?s) \<le> 1015"
    by (simp_all add: sample_frame_def make_segment_def)
  have stale: "length (replicate 1514 0xEE :: bytes) = ETH_HEADER_SIZE + ETH_MTU" by (simp add: wire_simps)
  have key: "ld_session_key ?l = 55" by (simp add: leader_init_def)
  from joined_vehicles_talk [OF sample_stations(1) b(1) sample_stations(2) sample_gateway_fields(4) b(2) l leader_init_ok
      sample_stations(3) net j1 j2 f m stale, of sample_env]
  show ?thesis unfolding sample_segment_def key by (elim exE conjE) (intro exI conjI, assumption+)
qed

section \<open>Reading a sensor of another vehicle\<close>

text \<open>
  C2. An actuator reads a sensor of another vehicle.  The actuator of one vehicle subscribes to the
  responses for a unit; its interest goes through both gateways and the wire to a sensor of that unit in
  a second vehicle with the same session key in the same quadrant, which has the actuator as its one subscriber
  from then on, under the address of the actuator's gateway and the actuator's port.  The next turn of the
  sensor's response thread sends the current value of the sensor, unless that is a zero, back the same way,
  and the actuator is handed exactly this value.  Whatever the buffers on the way held before, the
  clocks of the four processes show and the other listeners in them are.
\<close>

theorem remote_sensor_is_read:
  fixes of_float :: "u32 \<Rightarrow> 'v"
  assumes stations: "gateway_at xa ga" "gateway_at xb gb" "in_contact xa xb" "session_key (local_block ga) = session_key (local_block gb)"
    and actuator: "crypto pa = Some XorCryptoProvider" "external_nic pa = None" "observers_ok pa" "c_inbox ca = qo_init"
      "subscribe_to_responses oa unit interval ca pa = Some (ca', pa', (acts, err))"
    and sensor: "crypto pb = Some XorCryptoProvider" "external_nic pb = None" "observers_ok pb" "c_inbox cb = qo_init"
      "subscribe_to_requests os unit cb pb = (cb', pb')"
    and service: "unit = unit_tag_type tag" "unit \<noteq> 0" "teds_ok unit h" "subscribers h = []" "\<not> thread_joinable (bridge h)"
      "interval \<noteq> 0" "float_nonzero (to_float (get_value (bridge h)))"
    and memory: "\<forall>m \<in> {s1, s2, s3, s4}. length (fr_data m) = ETH_MTU" "\<forall>m \<in> {st1, st2}. length m = ETH_HEADER_SIZE + ETH_MTU"
  shows "\<exists>a1 f1 asked h' r a2 f2 heard gb' ga'.
    acts = [Local_send a1] \<and> err = None \<and>
    vehicle_hop e st1 s1 s2 xa ga xb gb a1 = Some (gb', f1) \<and>
    arrives_at f1 pb' os cb' j = Some (cb', asked) \<and>
    handleTEDSMessage of_float asked h = Inr h' \<and>
    subscriber_map h' unit = [\<lparr>paddr = nic_address xa, port = port (c_address ca)\<rparr> \<mapsto> interval] \<and>
    response_thread_turn to_float ns me (bridge h') = Some r \<and>
    comm_send True pb' cb' r = Some (([Local_send a2], None), True) \<and>
    vehicle_hop e' st2 s3 s4 xb gb' xa ga a2 = Some (ga', f2) \<and>
    arrives_at f2 pa' oa ca' j' = Some (ca', heard) \<and>
    teds_data_word (m_payload heard) = to_float (get_value (bridge h)) \<and>
    m_source heard = \<lparr>paddr = nic_address xb, port = port (c_address cb)\<rparr> \<and>
    (\<forall>ha. handleTEDSMessage of_float heard ha = Inr (ha\<lparr>bridge := (bridge ha)\<lparr>smart :=
       actuate (of_float (to_float (get_value (bridge h)))) (smart (bridge ha))\<rparr>\<rparr>))"
proof -
  let ?v = "to_float (get_value (bridge h))" and ?req = "create_request_payload unit interval"
  have unit_req: "make_request_type unit = unit" unfolding service(1) by simp
  have inv: "unit \<noteq> INVALID" "make_response_type unit \<noteq> INVALID"
    using service(2) make_response_is_response [of unit] by (auto simp: INVALID_def is_response_def)
  have pay: "teds_header_type ?req = unit" "length ?req = 8" "teds_header_type (create_response_payload unit ?v) = make_response_type unit"
      "length (create_response_payload unit ?v) = 8"
    by (simp_all add: create_request_payload_eq create_response_payload_eq teds_header_type_def read_at_def wire_simps unit_req)
  obtain s: "subscribe_to_type oa (make_response_type unit) ca pa = (ca', pa')" and i: "send_interest_message ca' pa' unit interval = Some (acts, err)"
    using actuator(5) by (auto simp: subscribe_to_responses_def split: prod.splits)
  note A = subscriber_fields [OF s] and B = subscriber_fields [OF sensor(5) [unfolded subscribe_to_requests_def unit_req]]
  let ?m1 = "message_of 0 (broadcast TYPE_BASED_ROUTING_PORT) TEDS ?req"
  let ?a1 = "sent_as (session_key (local_block pa')) (location (local_block pa')) (c_address ca') ?m1"
  have a1: "acts = [Local_send ?a1]" "err = None" using i interest_sent [of pa' ca' unit interval] A(1,2) actuator(1,2) by simp_all
  have m1: "m_destination ?m1 = broadcast TYPE_BASED_ROUTING_PORT" "m_type ?m1 = msg_type_byte TEDS" "length (m_payload ?m1) \<le> 1015"
      "TEDS_HEADER_SIZE \<le> length (m_payload ?m1)" "teds_header_type (m_payload ?m1) \<noteq> INVALID"
    by (simp_all add: message_of_def pay inv TEDS_HEADER_SIZE_def)
  have "os \<in> set (targets (type_observed pb') (teds_header_type (m_payload ?m1)))" using B(7) by (simp add: message_of_def pay)
  with type_broadcast_arrives [OF stations m1 _ _ _ B(4) [OF sensor(3)], of st1 s1 s2] memory B(5) sensor(4) obtain f1 asked where
    f1: "vehicle_hop e st1 s1 s2 xa ga xb gb ?a1 = Some (heard_by xa gb, f1)" "arrives_at f1 pb' os cb' j = Some (cb', asked)"
      "m_payload asked = m_payload ?m1" "m_source asked = \<lparr>paddr = nic_address xa, port = port (c_address ca')\<rparr>" by fastforce
  let ?r = "(message_response ns (broadcast TYPE_BASED_ROUTING_PORT) unit ?v)\<lparr>m_source := me\<rparr>"
  have "m_payload asked = create_request_payload (unit_tag_type tag) interval" by (simp add: f1(3) message_of_def flip: service(1))
  from sensor_answers [where to_float = to_float and of_float = of_float and ns = ns and me = me,
      OF service(3) [unfolded service(1)] service(4,5) this service(6,7)]
  obtain h' where h': "handleTEDSMessage of_float asked h = Inr h'" "subscriber_map h' unit = [m_source asked \<mapsto> interval]"
      "response_thread_turn to_float ns me (bridge h') = Some ?r"
    by (auto simp: service(1))
  let ?a2 = "sent_as (session_key (local_block pb')) (location (local_block pb')) (c_address cb') ?r"
  have r: "m_destination ?r = broadcast TYPE_BASED_ROUTING_PORT" "m_type ?r = msg_type_byte TEDS" "length (m_payload ?r) \<le> 1015"
      "TEDS_HEADER_SIZE \<le> length (m_payload ?r)" "teds_header_type (m_payload ?r) \<noteq> INVALID"
    by (simp_all add: message_response_def message_of_def pay inv TEDS_HEADER_SIZE_def)
  have a2: "comm_send True pb' cb' ?r = Some (([Local_send ?a2], None), True)"
    using component_sends [of pb' ?r True cb'] B(1,2) sensor(1,2) r(3) by simp
  have home: "gateway_at xb (heard_by xa gb)" "in_contact xb xa" "session_key (local_block (heard_by xa gb)) = session_key (local_block ga)"
    using stations by (simp_all add: in_contact_sym)
  have "oa \<in> set (targets (type_observed pa') (teds_header_type (m_payload ?r)))" using A(7) by (simp add: message_response_def message_of_def pay)
  with type_broadcast_arrives [OF home(1) stations(1) home(2,3) r _ _ _ A(4) [OF actuator(3)], of st2 s3 s4] memory A(5) actuator(4)
  obtain f2 heard where f2: "vehicle_hop e' st2 s3 s4 xb (heard_by xa gb) xa ga ?a2 = Some (heard_by xb ga, f2)"
      "arrives_at f2 pa' oa ca' j' = Some (ca', heard)" "m_payload heard = m_payload ?r"
      "m_source heard = \<lparr>paddr = nic_address xb, port = port (c_address cb')\<rparr>" by fastforce
  have "m_payload heard = create_response_payload unit ?v" by (simp add: f2(3) message_response_def message_of_def)
  note H = actuator_hears [OF this]
  show ?thesis using a1 f1(1,2,4) h' a2 f2(1,2,4) H A(6) B(6) by fastforce
qed

theorem remote_sensor_is_read_witness:
  "\<exists>ca' pa' a1 gb' f1 pb' cb' asked h' r a2 ga' f2 heard.
     subscribe_to_responses 1 (unit_tag_type TEMPERATURE) 2000 idle_comm (init_component sample_gateway) = Some (ca', pa', ([Local_send a1], None)) \<and>
     vehicle_hop sample_env (replicate 1514 0xEE) (sample_frame []) (sample_frame []) sample_nic sample_gateway far_nic
       (sample_gateway\<lparr>external_nic := Some far_nic\<rparr>) a1 = Some (gb', f1) \<and>
     arrives_at f1 (pb' :: nat protocol) 1 cb' 0 = Some (cb', asked) \<and> handleTEDSMessage id asked idle_sensor = Inr h' \<and>
     response_thread_turn id 5 (local 1001) (bridge h') = Some r \<and> comm_send True pb' cb' r = Some (([Local_send a2], None), True) \<and>
     vehicle_hop sample_env (replicate 1514 0xEE) (sample_frame []) (sample_frame []) far_nic gb' sample_nic sample_gateway a2 = Some (ga', f2) \<and>
     arrives_at f2 pa' 1 ca' 0 = Some (ca', heard) \<and> teds_data_word (m_payload heard) = 7"
proof -
  let ?gb = "sample_gateway\<lparr>external_nic := Some far_nic\<rparr>" and ?p = "init_component sample_gateway" and ?u = "unit_tag_type TEMPERATURE"
  have stations: "gateway_at sample_nic sample_gateway" "gateway_at far_nic ?gb" "in_contact sample_nic far_nic"
      "session_key (local_block sample_gateway) = session_key (local_block ?gb)"
    by (simp_all add: gateway_at_def sample_gateway_fields in_contact_def)
      (simp_all add: far_nic_def sample_engine_def nic_address_def BROADCAST_ADDR_def LOCAL_ADDR_def)
  have p: "crypto ?p = Some XorCryptoProvider" "external_nic ?p = None" "observers_ok ?p" "c_inbox idle_comm = qo_init"
    by (simp_all add: init_component_def sample_gateway_def observers_ok_def observed_ok_def attach_def observed_empty_def idle_comm_def)
  obtain ca' pa' where t: "subscribe_to_type 1 (make_response_type ?u) idle_comm ?p = (ca', pa')" by fastforce
  note T = subscriber_fields [OF t]
  obtain a0 where sa: "subscribe_to_responses 1 ?u 2000 idle_comm ?p = Some (ca', pa', ([Local_send a0], None))"
    using interest_sent [of pa' ca' ?u 2000] p(1,2) T(1,2) by (simp add: subscribe_to_responses_def t del: One_nat_def)
  obtain cb' pb' where sb: "subscribe_to_requests 1 ?u idle_comm ?p = (cb', pb')" by fastforce
  have u: "?u \<noteq> 0" by code_simp
  have h: "teds_ok ?u idle_sensor" "subscribers idle_sensor = []" "\<not> thread_joinable (bridge idle_sensor)" "(2000 :: period) \<noteq> 0"
      "float_nonzero (id (get_value (bridge idle_sensor)))" and v: "get_value (bridge idle_sensor) = 7"
    by (simp_all add: idle_sensor_def teds_init_def component_init_def teds_ok_def float_nonzero_def get_value_def)
  have mem: "\<forall>m \<in> {sample_frame [], sample_frame [], sample_frame [], sample_frame []}. length (fr_data m) = ETH_MTU"
      "\<forall>m \<in> {replicate 1514 0xEE, replicate 1514 (0xEE :: byte)}. length m = ETH_HEADER_SIZE + ETH_MTU"
    by (simp_all add: sample_frame_def wire_simps)
  from remote_sensor_is_read [where of_float = id and to_float = id and ns = 5 and me = "local 1001" and e = sample_env and e' = sample_env and j = 0 and j' = 0,
      OF stations p sa p sb refl u h mem]
  obtain a1 f1 asked h' r a2 f2 heard gb' ga' where w: "[Local_send a0 :: nat action] = [Local_send a1]"
    "vehicle_hop sample_env (replicate 1514 0xEE) (sample_frame []) (sample_frame []) sample_nic sample_gateway far_nic ?gb a1 = Some (gb', f1)"
    "arrives_at f1 pb' 1 cb' 0 = Some (cb', asked)" "handleTEDSMessage id asked idle_sensor = Inr h'"
    "response_thread_turn id 5 (local 1001) (bridge h') = Some r" "comm_send True pb' cb' r = Some (([Local_send a2], None), True)"
    "vehicle_hop sample_env (replicate 1514 0xEE) (sample_frame []) (sample_frame []) far_nic gb' sample_nic sample_gateway a2 = Some (ga', f2)"
    "arrives_at f2 pa' 1 ca' 0 = Some (ca', heard)" "teds_data_word (m_payload heard) = id (get_value (bridge idle_sensor))"
    by (elim exE conjE) (rule that, assumption+)
  have a0: "a0 = a1" and seven: "teds_data_word (m_payload heard) = 7" using w(1,9) v by simp_all
  show ?thesis using sa [unfolded a0] w(2-8) seven by (intro exI conjI)
qed

end
